(* ===== verification/Prelude.thy ===== *)
theory Prelude
  imports Main "HOL-Library.Word" "HOL-Library.List_Lexorder"
begin

text \<open>
  Shared vocabulary of the development: the fixed-width integer types of the code, results
  that carry an error, the ordered containers of the C++ library (\<open>std::set\<close> and
  \<open>std::map\<close>, both kept as strictly ascending lists, so that iteration runs in the order
  the code sees), and the generic lemmas on them that the components use.
\<close>

subsection \<open>Fixed-width integers\<close>

type_synonym uint8 = "8 word"
type_synonym uint32 = "32 word"
type_synonym uint64 = "64 word"
type_synonym uint128 = "128 word"
type_synonym uint256 = "256 word"

abbreviation UINT32_MAX :: uint32 where
  "UINT32_MAX \<equiv> 4294967295"

abbreviation UINT64_MAX :: uint64 where
  "UINT64_MAX \<equiv> 18446744073709551615"

subsection \<open>Results with errors\<close>

text \<open>
  A C++ call that may throw or abort returns \<open>Inl e\<close>; a call that returns gives \<open>Inr v\<close>.
  \<open>bindE\<close> is sequencing: the first error stops the computation. \<open>okE P r\<close> says that \<open>P\<close>
  holds of the value if there is one.
\<close>

primrec bindE :: "'e + 'a \<Rightarrow> ('a \<Rightarrow> 'e + 'b) \<Rightarrow> 'e + 'b" where
  "bindE (Inl e) f = Inl e"
| "bindE (Inr x) f = f x"

primrec okE :: "('a \<Rightarrow> bool) \<Rightarrow> 'e + 'a \<Rightarrow> bool" where
  "okE P (Inl e) = True"
| "okE P (Inr x) = P x"

primrec errE :: "('e \<Rightarrow> bool) \<Rightarrow> 'e + 'a \<Rightarrow> bool" where
  "errE P (Inl e) = P e"
| "errE P (Inr x) = True"

subsection \<open>Ordered sets\<close>

text \<open>\<open>std::set\<close>: a strictly ascending list; \<open>insert\<close> does nothing when the key is there.\<close>

fun set_insert :: "'a::linorder \<Rightarrow> 'a list \<Rightarrow> 'a list" where
  "set_insert x [] = [x]"
| "set_insert x (y # ys) =
     (if x < y then x # y # ys else if x = y then y # ys else y # set_insert x ys)"

definition set_from :: "'a::linorder list \<Rightarrow> 'a list" where
  "set_from xs = foldl (\<lambda>acc x. set_insert x acc) [] xs"

subsection \<open>Ordered maps\<close>

text \<open>\<open>std::map\<close>: an association list with strictly ascending keys.\<close>

fun map_put :: "'k::linorder \<Rightarrow> 'v \<Rightarrow> ('k \<times> 'v) list \<Rightarrow> ('k \<times> 'v) list" where
  "map_put k v [] = [(k, v)]"
| "map_put k v ((k', v') # m) =
     (if k < k' then (k, v) # (k', v') # m
      else if k = k' then (k, v) # m
      else (k', v') # map_put k v m)"

definition map_ok :: "('k::linorder \<times> 'v) list \<Rightarrow> bool" where
  "map_ok m \<longleftrightarrow> sorted_wrt (<) (map fst m)"

named_theorems okE_intros \<open>rules that split a goal \<open>okE P (\<dots>)\<close> along the program text\<close>

subsection \<open>Lemmas on results\<close>

lemma bindE_cong [fundef_cong]:
  "r = r' \<Longrightarrow> (\<And>x. r' = Inr x \<Longrightarrow> f x = g x) \<Longrightarrow> bindE r f = bindE r' g"
  by (cases r') auto

lemma bindE_assoc: "bindE (bindE r f) g = bindE r (\<lambda>x. bindE (f x) g)"
  by (cases r) auto

lemma bindE_eq_Inr [simp]: "bindE r f = Inr y \<longleftrightarrow> (\<exists>x. r = Inr x \<and> f x = Inr y)"
  by (cases r) auto

lemma bindE_eq_Inl: "bindE r f = Inl e \<longleftrightarrow> r = Inl e \<or> (\<exists>x. r = Inr x \<and> f x = Inl e)"
  by (cases r) auto

lemma okE_bindE [okE_intros]: "okE (\<lambda>x. okE P (f x)) r \<Longrightarrow> okE P (bindE r f)"
  by (cases r) auto

lemma okE_Inr [okE_intros]: "P x \<Longrightarrow> okE P (Inr x)"
  by simp

lemma okE_Inl [okE_intros]: "okE P (Inl e)"
  by simp

lemma okE_if [okE_intros]: "(b \<Longrightarrow> okE P r1) \<Longrightarrow> (\<not> b \<Longrightarrow> okE P r2) \<Longrightarrow> okE P (if b then r1 else r2)"
  by simp

lemma okE_iff: "okE P r \<longleftrightarrow> (\<forall>x. r = Inr x \<longrightarrow> P x)"
  by (cases r) auto

lemma okE_mono: "okE P r \<Longrightarrow> (\<And>x. P x \<Longrightarrow> Q x) \<Longrightarrow> okE Q r"
  by (cases r) auto

lemma okE_mono_result: "okE P r \<Longrightarrow> (\<And>x. r = Inr x \<Longrightarrow> P x \<Longrightarrow> Q x) \<Longrightarrow> okE Q r"
  by (cases r) auto

lemma okE_D: "okE P r \<Longrightarrow> r = Inr x \<Longrightarrow> P x"
  by simp

lemma errE_iff: "errE P r \<longleftrightarrow> (\<forall>e. r = Inl e \<longrightarrow> P e)"
  by (cases r) auto

lemma errE_bindE: "errE P r \<Longrightarrow> (\<And>x. r = Inr x \<Longrightarrow> errE P (f x)) \<Longrightarrow> errE P (bindE r f)"
  by (cases r) auto

subsection \<open>Lemmas on ordered sets\<close>

lemma set_set_insert [simp]: "set (set_insert x xs) = insert x (set xs)"
  by (induction x xs rule: set_insert.induct) auto

lemma set_insert_sorted [simp]: "sorted_wrt (<) xs \<Longrightarrow> sorted_wrt (<) (set_insert x xs)"
  by (induction x xs rule: set_insert.induct) auto

lemma set_insert_nonempty [simp]: "set_insert x xs \<noteq> []"
  by (cases xs) auto

lemma set_foldl_set_insert: "set (foldl (\<lambda>acc x. set_insert x acc) acc xs) = set acc \<union> set xs"
  by (induction xs arbitrary: acc) auto

lemma sorted_foldl_set_insert:
  "sorted_wrt (<) acc \<Longrightarrow> sorted_wrt (<) (foldl (\<lambda>acc x. set_insert x acc) acc xs)"
  by (induction xs arbitrary: acc) auto

lemma set_set_from [simp]: "set (set_from xs) = set xs"
  by (simp add: set_from_def set_foldl_set_insert)

lemma sorted_set_from [simp]: "sorted_wrt (<) (set_from xs)"
  by (simp add: set_from_def sorted_foldl_set_insert)

lemma strict_sorted_distinct: "sorted_wrt (<) (xs :: 'a::linorder list) \<Longrightarrow> distinct xs"
  by (induction xs) auto

lemma set_from_Nil [simp]: "set_from [] = []"
  by (simp add: set_from_def)

lemma set_insert_length_le: "length (set_insert x xs) \<le> Suc (length xs)"
  by (induction x xs rule: set_insert.induct) auto

lemma length_set_insert:
  "sorted_wrt (<) xs \<Longrightarrow> length (set_insert x xs) = (if x \<in> set xs then length xs else Suc (length xs))"
  by (induction x xs rule: set_insert.induct) auto

subsection \<open>Lemmas on ordered maps\<close>

lemma map_of_map_put [simp]: "map_of (map_put k v m) = (map_of m)(k \<mapsto> v)"
  by (induction k v m rule: map_put.induct) (auto simp: fun_eq_iff)

lemma set_fst_map_put [simp]: "fst ` set (map_put k v m) = insert k (fst ` set m)"
  by (induction k v m rule: map_put.induct) auto

lemma map_ok_Nil [simp]: "map_ok []"
  by (simp add: map_ok_def)

lemma map_ok_Cons: "map_ok ((k, v) # m) \<longleftrightarrow> (\<forall>k' \<in> fst ` set m. k < k') \<and> map_ok m"
  by (auto simp: map_ok_def)

lemma map_ok_map_put [simp]: "map_ok m \<Longrightarrow> map_ok (map_put k v m)"
  by (induction k v m rule: map_put.induct) (auto simp: map_ok_Cons)

lemma map_ok_distinct: "map_ok m \<Longrightarrow> distinct (map fst m)"
  unfolding map_ok_def by (rule strict_sorted_distinct)

lemma map_ok_map_of: "map_ok m \<Longrightarrow> (k, v) \<in> set m \<longleftrightarrow> map_of m k = Some v"
  by (auto dest: map_ok_distinct)

lemma set_map_put: "map_ok m \<Longrightarrow> set (map_put k v m) = insert (k, v) {p \<in> set m. fst p \<noteq> k}"
  by (induction k v m rule: map_put.induct) (force simp: map_ok_Cons)+

subsection \<open>Interfaces of the containers\<close>

text \<open>
  What clients of \<open>std::map\<close> rely on: a lookup after an insertion, and that insertion keeps
  the representation invariant. Both containers are interpreted on the lists above.
\<close>

locale ordered_map =
  fixes put :: "'k \<Rightarrow> 'v \<Rightarrow> 'm \<Rightarrow> 'm"
    and lookup :: "'m \<Rightarrow> 'k \<Rightarrow> 'v option"
    and entries :: "'m \<Rightarrow> ('k \<times> 'v) set"
    and ok :: "'m \<Rightarrow> bool"
  assumes lookup_put: "lookup (put k v m) = (lookup m)(k \<mapsto> v)"
    and entries_lookup: "ok m \<Longrightarrow> (k, v) \<in> entries m \<longleftrightarrow> lookup m k = Some v"
    and ok_put: "ok m \<Longrightarrow> ok (put k v m)"
begin

lemma entries_put:
  assumes "ok m"
  shows "entries (put k v m) = insert (k, v) {p \<in> entries m. fst p \<noteq> k}"
proof (rule set_eqI)
  fix p :: "'k \<times> 'v"
  obtain k' v' where p: "p = (k', v')" by (cases p)
  show "p \<in> entries (put k v m) \<longleftrightarrow> p \<in> insert (k, v) {p \<in> entries m. fst p \<noteq> k}"
    using entries_lookup [OF ok_put [OF assms], of k' v'] entries_lookup [OF assms, of k' v']
    by (auto simp: p lookup_put split: if_splits)
qed

lemma entries_unique: "ok m \<Longrightarrow> (k, v) \<in> entries m \<Longrightarrow> (k, v') \<in> entries m \<Longrightarrow> v = v'"
  by (simp add: entries_lookup)

end

interpretation std_map: ordered_map map_put map_of set map_ok
  by unfold_locales (auto simp: map_ok_map_of)

locale ordered_set =
  fixes ins :: "'a \<Rightarrow> 's \<Rightarrow> 's"
    and elems :: "'s \<Rightarrow> 'a set"
    and ok :: "'s \<Rightarrow> bool"
    and size_of :: "'s \<Rightarrow> nat"
  assumes elems_ins: "ok s \<Longrightarrow> elems (ins x s) = insert x (elems s)"
    and ok_ins: "ok s \<Longrightarrow> ok (ins x s)"
    and size_card: "ok s \<Longrightarrow> size_of s = card (elems s) \<and> finite (elems s)"
begin

lemma size_ins: "ok s \<Longrightarrow> size_of (ins x s) = (if x \<in> elems s then size_of s else Suc (size_of s))"
  using size_card [of s] size_card [of "ins x s"] elems_ins [of s x] ok_ins [of s x]
  by (auto simp: insert_absorb)

lemma size_ins_grows: "ok s \<Longrightarrow> size_of (ins x s) \<noteq> size_of s \<longleftrightarrow> x \<notin> elems s"
  by (simp add: size_ins)

end

interpretation std_set: ordered_set set_insert set "sorted_wrt (<)" length
  by unfold_locales (auto dest: strict_sorted_distinct simp: distinct_card)

end
