(* ===== verification/SCPTypes.thy ===== *)
theory SCPTypes
  imports Prelude
begin

text \<open>
  The XDR types of \<open>src/src/protocol-curr/xdr/Hcnet-SCP.x\<close>: quorum sets, ballots, statements and
  envelopes, and the total order on ballots that the code uses (\<open>compareBallots\<close>, which is also
  the generated \<open>operator<\<close> of \<open>SCPBallot\<close>).
\<close>

subsection \<open>Data\<close>

text \<open>
  A node identifier is an ed25519 key and a hash is 32 opaque bytes; both are compared as
  big-endian byte strings, that is, as 256-bit numbers. A value is an opaque byte string,
  compared lexicographically.
\<close>

type_synonym NodeID = uint256
type_synonym Hash = uint256
type_synonym Value = "uint8 list"
type_synonym Signature = "uint8 list"

datatype SCPQuorumSet =
  SCPQuorumSet (threshold: uint32) (validators: "NodeID list") (innerSets: "SCPQuorumSet list")

datatype SCPBallot = SCPBallot (counter: uint32) (ballotValue: Value)

record SCPNomination =
  nomQuorumSetHash :: Hash
  votes :: "Value list"
  accepted :: "Value list"

record SCPPrepare =
  prepQuorumSetHash :: Hash
  prepBallot :: SCPBallot
  prepared :: "SCPBallot option"
  preparedPrime :: "SCPBallot option"
  nC :: uint32
  nH :: uint32

record SCPConfirm =
  confBallot :: SCPBallot
  confNPrepared :: uint32
  confNCommit :: uint32
  confNH :: uint32
  confQuorumSetHash :: Hash

record SCPExternalize =
  extCommit :: SCPBallot
  extNH :: uint32
  extCommitQuorumSetHash :: Hash

datatype SCPPledges =
  SCP_ST_PREPARE SCPPrepare
| SCP_ST_CONFIRM SCPConfirm
| SCP_ST_EXTERNALIZE SCPExternalize
| SCP_ST_NOMINATE SCPNomination

record SCPStatement =
  nodeID :: NodeID
  slotIndex :: uint64
  pledges :: SCPPledges

record SCPEnvelope =
  envStatement :: SCPStatement
  envSignature :: Signature

text \<open>The value a default constructed \<open>SCPBallot\<close> has.\<close>

definition nullBallot :: SCPBallot where
  "nullBallot = SCPBallot 0 []"

subsection \<open>Order on ballots\<close>

definition compareBallots :: "SCPBallot \<Rightarrow> SCPBallot \<Rightarrow> int" where
  "compareBallots b1 b2 =
     (if counter b1 < counter b2 then - 1
      else if counter b2 < counter b1 then 1
      else if ballotValue b1 < ballotValue b2 then - 1
      else if ballotValue b2 < ballotValue b1 then 1
      else 0)"

definition compareBallotsOpt :: "SCPBallot option \<Rightarrow> SCPBallot option \<Rightarrow> int" where
  "compareBallotsOpt b1 b2 =
     (case (b1, b2) of
        (Some x, Some y) \<Rightarrow> compareBallots x y
      | (Some _, None) \<Rightarrow> 1
      | (None, Some _) \<Rightarrow> - 1
      | (None, None) \<Rightarrow> 0)"

definition areBallotsCompatible :: "SCPBallot \<Rightarrow> SCPBallot \<Rightarrow> bool" where
  "areBallotsCompatible b1 b2 \<longleftrightarrow> ballotValue b1 = ballotValue b2"

definition areBallotsLessAndIncompatible :: "SCPBallot \<Rightarrow> SCPBallot \<Rightarrow> bool" where
  "areBallotsLessAndIncompatible b1 b2 \<longleftrightarrow> compareBallots b1 b2 \<le> 0 \<and> \<not> areBallotsCompatible b1 b2"

definition areBallotsLessAndCompatible :: "SCPBallot \<Rightarrow> SCPBallot \<Rightarrow> bool" where
  "areBallotsLessAndCompatible b1 b2 \<longleftrightarrow> compareBallots b1 b2 \<le> 0 \<and> areBallotsCompatible b1 b2"

instantiation SCPBallot :: linorder
begin

definition less_eq_SCPBallot :: "SCPBallot \<Rightarrow> SCPBallot \<Rightarrow> bool" where
  "less_eq_SCPBallot b1 b2 \<longleftrightarrow> compareBallots b1 b2 \<le> 0"

definition less_SCPBallot :: "SCPBallot \<Rightarrow> SCPBallot \<Rightarrow> bool" where
  "less_SCPBallot b1 b2 \<longleftrightarrow> compareBallots b1 b2 < 0"

instance
proof
  fix x y z :: SCPBallot
  show "x < y \<longleftrightarrow> x \<le> y \<and> \<not> y \<le> x" and "x \<le> x" and "x \<le> y \<or> y \<le> x"
    by (auto simp: less_SCPBallot_def less_eq_SCPBallot_def compareBallots_def)
  show "x \<le> y \<Longrightarrow> y \<le> z \<Longrightarrow> x \<le> z"
    by (auto simp: less_eq_SCPBallot_def compareBallots_def split: if_splits)
  show "x \<le> y \<Longrightarrow> y \<le> x \<Longrightarrow> x = y"
    by (auto simp: less_eq_SCPBallot_def compareBallots_def intro: SCPBallot.expand split: if_splits)
qed

end

subsection \<open>Lemmas on ballots\<close>

named_theorems ballot_simps \<open>the three-way comparison in terms of the order\<close>

lemma compareBallots_less [ballot_simps]: "compareBallots b1 b2 < 0 \<longleftrightarrow> b1 < b2"
  by (simp add: less_SCPBallot_def)

lemma compareBallots_le [ballot_simps]: "compareBallots b1 b2 \<le> 0 \<longleftrightarrow> b1 \<le> b2"
  by (simp add: less_eq_SCPBallot_def)

lemma compareBallots_flip: "compareBallots b1 b2 = - compareBallots b2 b1"
  by (auto simp: compareBallots_def)

lemma compareBallots_greater [ballot_simps]: "0 < compareBallots b1 b2 \<longleftrightarrow> b2 < b1"
  using compareBallots_flip [of b1 b2] by (auto simp: less_SCPBallot_def)

lemma compareBallots_ge [ballot_simps]: "0 \<le> compareBallots b1 b2 \<longleftrightarrow> b2 \<le> b1"
  using compareBallots_flip [of b1 b2] by (auto simp: less_eq_SCPBallot_def)

lemma compareBallots_eq [ballot_simps]: "compareBallots b1 b2 = 0 \<longleftrightarrow> b1 = b2"
  by (auto simp: compareBallots_def intro: SCPBallot.expand)

lemma compatible_sym: "areBallotsCompatible b1 b2 \<longleftrightarrow> areBallotsCompatible b2 b1"
  by (auto simp: areBallotsCompatible_def)

lemma compatible_refl [simp]: "areBallotsCompatible b b"
  by (simp add: areBallotsCompatible_def)

lemma compatible_trans: "areBallotsCompatible a b \<Longrightarrow> areBallotsCompatible b c \<Longrightarrow> areBallotsCompatible a c"
  by (simp add: areBallotsCompatible_def)

lemma less_compatible_iff:
  "areBallotsLessAndCompatible b1 b2 \<longleftrightarrow> b1 \<le> b2 \<and> areBallotsCompatible b1 b2"
  by (simp add: areBallotsLessAndCompatible_def ballot_simps)

lemma less_incompatible_iff:
  "areBallotsLessAndIncompatible b1 b2 \<longleftrightarrow> b1 < b2 \<and> \<not> areBallotsCompatible b1 b2"
  by (auto simp: areBallotsLessAndIncompatible_def ballot_simps order_le_less)

lemma ballot_le_counter: "b1 \<le> b2 \<Longrightarrow> counter b1 \<le> counter b2"
  by (auto simp: less_eq_SCPBallot_def compareBallots_def split: if_splits)

lemma ballot_counter_less: "counter b1 < counter b2 \<Longrightarrow> b1 < b2"
  by (auto simp: less_SCPBallot_def compareBallots_def)

lemma ballot_le_compatible_iff:
  "areBallotsCompatible b1 b2 \<Longrightarrow> b1 \<le> b2 \<longleftrightarrow> counter b1 \<le> counter b2"
  by (auto simp: areBallotsCompatible_def less_eq_SCPBallot_def compareBallots_def)

lemma ballot_less_compatible_iff:
  "areBallotsCompatible b1 b2 \<Longrightarrow> b1 < b2 \<longleftrightarrow> counter b1 < counter b2"
  by (auto simp: areBallotsCompatible_def less_SCPBallot_def compareBallots_def)

lemma compareBallotsOpt_simps [simp]:
  "compareBallotsOpt None None = 0"
  "compareBallotsOpt (Some a) None = 1"
  "compareBallotsOpt None (Some b) = - 1"
  "compareBallotsOpt (Some a) (Some b) = compareBallots a b"
  by (simp_all add: compareBallotsOpt_def)

end
