(* ===== verification/Numeric.thy ===== *)
theory Numeric
  imports Prelude
begin

text \<open>
  \<open>src/src/util/numeric.cpp\<close>: multiplication and division of 64-bit integers through 128-bit
  intermediate values, and the integer square root. Unsigned values are words of their width;
  the signed 64-bit parameters are \<open>int\<close> with the assertions of the code written out.
\<close>

subsection \<open>Definitions\<close>

datatype Rounding = ROUND_DOWN | ROUND_UP

datatype numeric_error = AssertFailed | OverflowError | SqrtOverflow

abbreviation INT64_MAX :: int where
  "INT64_MAX \<equiv> 9223372036854775807"

abbreviation INT32_MAX :: int where
  "INT32_MAX \<equiv> 2147483647"

definition bigDivideUnsigned ::
  "uint64 \<Rightarrow> uint64 \<Rightarrow> uint64 \<Rightarrow> Rounding \<Rightarrow> numeric_error + (bool \<times> uint64)" where
  "bigDivideUnsigned A B C rounding =
     (if \<not> 0 < C then Inl AssertFailed
      else
        let a = ucast A :: uint128; b = ucast B :: uint128; c = ucast C :: uint128;
            x = (if rounding = ROUND_DOWN then (a * b) div c else (a * b + c - 1) div c)
        in Inr (x \<le> ucast UINT64_MAX, ucast x))"

definition bigDivide ::
  "int \<Rightarrow> int \<Rightarrow> int \<Rightarrow> Rounding \<Rightarrow> numeric_error + (bool \<times> int)" where
  \<comment> \<open>the out parameter is written only when the unsigned division fits\<close>
  "bigDivide A B C rounding =
     (if \<not> (A \<ge> 0 \<and> B \<ge> 0 \<and> C > 0) then Inl AssertFailed
      else
        bindE (bigDivideUnsigned (word_of_int A) (word_of_int B) (word_of_int C) rounding)
          (\<lambda>(res, r2). if res then Inr (uint r2 \<le> INT64_MAX, sint r2) else Inr (False, 0)))"

definition bigDivideOrThrow :: "int \<Rightarrow> int \<Rightarrow> int \<Rightarrow> Rounding \<Rightarrow> numeric_error + int" where
  "bigDivideOrThrow A B C rounding =
     bindE (bigDivide A B C rounding)
       (\<lambda>(ok, res). if \<not> ok then Inl OverflowError else Inr res)"

definition bigDivideUnsigned128 ::
  "uint128 \<Rightarrow> uint64 \<Rightarrow> Rounding \<Rightarrow> numeric_error + (bool \<times> uint64)" where
  "bigDivideUnsigned128 a B rounding =
     (if B = 0 then Inl AssertFailed
      else
        let b = ucast B :: uint128 in
        if rounding = ROUND_UP \<and> a > - 1 - (b - 1) then Inr (False, 0)
        else
          let x = (if rounding = ROUND_DOWN then a div b else (a + b - 1) div b)
          in Inr (x \<le> ucast UINT64_MAX, ucast x))"

definition bigDivide128 :: "uint128 \<Rightarrow> int \<Rightarrow> Rounding \<Rightarrow> numeric_error + (bool \<times> int)" where
  "bigDivide128 a B rounding =
     (if \<not> B > 0 then Inl AssertFailed
      else
        bindE (bigDivideUnsigned128 a (word_of_int B) rounding)
          (\<lambda>(res, r2). if res then Inr (uint r2 \<le> INT64_MAX, sint r2) else Inr (False, 0)))"

definition bigDivideOrThrow128 :: "uint128 \<Rightarrow> int \<Rightarrow> Rounding \<Rightarrow> numeric_error + int" where
  "bigDivideOrThrow128 a B rounding =
     bindE (bigDivide128 a B rounding)
       (\<lambda>(ok, res). if \<not> ok then Inl OverflowError else Inr res)"

definition bigMultiplyUnsigned :: "uint64 \<Rightarrow> uint64 \<Rightarrow> uint128" where
  "bigMultiplyUnsigned a b = ucast a * ucast b"

definition bigMultiply :: "int \<Rightarrow> int \<Rightarrow> numeric_error + uint128" where
  "bigMultiply a b =
     (if \<not> (a \<ge> 0 \<and> b \<ge> 0) then Inl AssertFailed
      else Inr (bigMultiplyUnsigned (word_of_int a) (word_of_int b)))"

text \<open>\<open>uint128_bits\<close>: the position of the highest set bit, counted from one.\<close>

fun nat_bits :: "nat \<Rightarrow> nat" where
  "nat_bits n = (if n = 0 then 0 else Suc (nat_bits (n div 2)))"

definition uint128_bits :: "uint128 \<Rightarrow> nat" where
  "uint128_bits x = nat_bits (unat x)"

text \<open>The \<open>while (x != prev)\<close> loop of \<open>bigSquareRootCeil\<close>; not returning is \<open>None\<close>.\<close>

definition sqrtStep :: "uint128 \<Rightarrow> uint64 \<Rightarrow> numeric_error + uint64" where
  "sqrtStep R x =
     bindE (bigDivideUnsigned128 R x ROUND_UP)
       (\<lambda>(res, y).
          if \<not> res then Inl SqrtOverflow
          else if UINT64_MAX - x \<le> y then
            Inr (ucast ((1 + ucast x + ucast y :: uint128) div 2))
          else Inr ((x + y + 1) div 2))"

partial_function (option) sqrtLoop :: "uint128 \<Rightarrow> uint64 \<Rightarrow> uint64 \<Rightarrow> (numeric_error + uint64) option"
  where
  "sqrtLoop R x prev =
     (if x = prev then Some (Inr x)
      else case sqrtStep R x of
             Inl e \<Rightarrow> Some (Inl e)
           | Inr x' \<Rightarrow> sqrtLoop R x' x)"

definition bigSquareRootCeil :: "uint64 \<Rightarrow> uint64 \<Rightarrow> (numeric_error + uint64) option" where
  "bigSquareRootCeil a b =
     (if a = 0 \<or> b = 0 then Some (Inr 0)
      else
        let R = bigMultiplyUnsigned a b - 1;
            numBits = uint128_bits R div 2 + 1;
            x = (if numBits \<ge> 64 then UINT64_MAX else push_bit numBits 1)
        in sqrtLoop R x 0)"

definition bigSquareRoot :: "uint64 \<Rightarrow> uint64 \<Rightarrow> (numeric_error + uint64) option" where
  "bigSquareRoot a b =
     map_option (\<lambda>r. bindE r (\<lambda>sqrtCeil.
         if bigMultiplyUnsigned sqrtCeil sqrtCeil \<le> bigMultiplyUnsigned a b then Inr sqrtCeil
         else Inr (sqrtCeil - 1)))
       (bigSquareRootCeil a b)"

definition hugeDivide ::
  "int \<Rightarrow> uint128 \<Rightarrow> uint128 \<Rightarrow> Rounding \<Rightarrow> numeric_error + (bool \<times> int)" where
  "hugeDivide a B C rounding =
     (if \<not> a \<ge> 0 \<or> C = 0 \<or> \<not> C \<le> word_of_int INT32_MAX * word_of_int INT64_MAX then Inl AssertFailed
      else
        let Q = B div C; R = B mod C in
        if Q > word_of_int INT64_MAX then Inr (False, 0)
        else
          let A = word_of_int a :: uint128;
              res = (if rounding = ROUND_DOWN then A * Q + A * R div C
                     else A * Q + (A * R + C - 1) div C)
          in if res \<le> word_of_int INT64_MAX then Inr (True, uint res) else Inr (False, 0))"

subsection \<open>Exact division\<close>

text \<open>The mathematical meaning of a division with a rounding mode.\<close>

definition round_div :: "Rounding \<Rightarrow> nat \<Rightarrow> nat \<Rightarrow> nat" where
  "round_div rounding n d = (if rounding = ROUND_DOWN then n div d else (n + d - 1) div d)"

declare nat_bits.simps [simp del]

subsection \<open>Bounds and exactness of the unsigned divisions\<close>

lemma u64_bound: "unat (x :: uint64) \<le> 18446744073709551615"
  using unsigned_less [of x, where ?'a = nat] by simp

lemma unat_ucast_128 [simp]: "unat (ucast (x :: uint64) :: uint128) = unat x"
  proof -
  have "unat x < 2 ^ LENGTH(64)" by (rule unsigned_less)
  then have "unat x < 2 ^ 128" by simp
  then show ?thesis by (simp add: unsigned_ucast_eq take_bit_nat_eq_self)
qed

lemma u64_mult_bound: "unat (a :: uint64) * unat (b :: uint64) \<le> 340282366920938463426481119284349108225"
  using mult_le_mono [OF u64_bound [of a] u64_bound [of b]] by simp

lemma unat_bigMultiplyUnsigned: "unat (bigMultiplyUnsigned a b) = unat a * unat b"
proof -
  have "unat a * unat b < 2 ^ LENGTH(128)"
    using u64_mult_bound [of a b] by simp
  then show ?thesis
    by (simp add: bigMultiplyUnsigned_def unat_word_ariths)
qed

lemma unat_le_u64_max: "(x :: uint128) \<le> ucast UINT64_MAX \<longleftrightarrow> unat x \<le> 18446744073709551615"
  by (simp add: word_le_nat_alt)

lemma word_eq_of_nat: "unat (x :: uint128) = n \<Longrightarrow> ucast x = (word_of_nat n :: uint64)"
  by (auto simp: word_unat_eq_iff unsigned_ucast_eq unsigned_of_nat)

lemma bigDivideUnsigned_exact:
  assumes "0 < C"
  shows "bigDivideUnsigned A B C rounding =
    (let q = round_div rounding (unat A * unat B) (unat C)
     in Inr (q \<le> 18446744073709551615, word_of_nat q))"
proof -
  let ?a = "ucast A :: uint128" and ?b = "ucast B :: uint128" and ?c = "ucast C :: uint128"
  let ?x = "if rounding = ROUND_DOWN then (?a * ?b) div ?c else (?a * ?b + ?c - 1) div ?c"
  have C: "0 < unat C" using assms by (simp add: word_less_nat_alt)
  have ab: "unat (?a * ?b) = unat A * unat B"
    using unat_bigMultiplyUnsigned [of A B] by (simp add: bigMultiplyUnsigned_def)
  have "unat (?a * ?b + ?c) = unat A * unat B + unat C"
    using u64_mult_bound [of A B] u64_bound [of C] by (subst unat_add_lem [THEN iffD1]) (simp_all add: ab)
  then have "unat (?a * ?b + ?c - 1) = unat A * unat B + unat C - 1"
    using C by (subst unat_minus_one) auto
  then have x: "unat ?x = round_div rounding (unat A * unat B) (unat C)"
    by (simp add: round_div_def unat_div ab)
  show ?thesis
    using assms x word_eq_of_nat [OF x] unat_le_u64_max [of ?x]
    by (simp add: bigDivideUnsigned_def Let_def)
qed


lemma unat_minus_one_128: "unat (- 1 :: uint128) = 340282366920938463463374607431768211455"
  by (simp add: unsigned_minus_1_eq_mask mask_eq_exp_minus_1)

lemma bigDivideUnsigned128_exact:
  fixes B :: uint64 and a :: uint128 and rounding :: Rounding
  assumes "B \<noteq> 0"
  defines "q \<equiv> round_div rounding (unat a) (unat B)"
  shows "\<exists>r. bigDivideUnsigned128 a B rounding = Inr (q \<le> 18446744073709551615, r) \<and>
     (q \<le> 18446744073709551615 \<longrightarrow> unat r = q)"
proof -
  let ?b = "ucast B :: uint128"
  have B: "0 < unat B" using assms(1) by (simp add: unat_gt_0)
  have b1: "unat (?b - 1) = unat B - 1"
    using assms(1) by (subst unat_minus_one) (auto simp flip: unat_0_iff)
  have lim: "unat (- 1 - (?b - 1)) = 340282366920938463463374607431768211455 - (unat B - 1)"
    using u64_bound [of B] by (subst unat_sub) (simp_all add: b1 word_le_nat_alt unat_minus_one_128)
  have ov: "a > - 1 - (?b - 1) \<longleftrightarrow> unat a > 340282366920938463463374607431768211455 - (unat B - 1)"
    by (simp only: word_less_nat_alt lim)
  show ?thesis
  proof (cases "rounding = ROUND_UP \<and> a > - 1 - (?b - 1)")
    case True
    have "18446744073709551616 \<le> (unat a + unat B - 1) div unat B"
    proof -
      have "18446744073709551616 * unat B \<le> 340282366920938463444927863358058659840"
        using u64_bound [of B] by simp
      also have "\<dots> \<le> unat a + unat B - 1" using True ov B by linarith
      finally show ?thesis using B by (simp add: less_eq_div_iff_mult_less_eq)
    qed
    then have "\<not> q \<le> 18446744073709551615" using True by (simp add: q_def round_div_def)
    then show ?thesis
      using True assms(1) by (simp add: bigDivideUnsigned128_def Let_def)
  next
    case False
    let ?x = "if rounding = ROUND_DOWN then a div ?b else (a + ?b - 1) div ?b"
    have up: "unat (a + ?b - 1) = unat a + unat B - 1" if "rounding = ROUND_UP"
    proof -
      have "unat (a + (?b - 1)) = unat a + (unat B - 1)"
        using that False ov u64_bound [of B] by (subst unat_add_lem [THEN iffD1]) (simp_all add: b1)
      then show ?thesis using B by (simp only: add_diff_eq)
    qed
    have x: "unat ?x = q"
      by (cases rounding) (simp_all add: q_def round_div_def unat_div up)
    have "bigDivideUnsigned128 a B rounding = Inr (?x \<le> ucast UINT64_MAX, ucast ?x)"
      using False assms(1) by (auto simp: bigDivideUnsigned128_def Let_def)
    moreover have "q \<le> 18446744073709551615 \<longrightarrow> unat (ucast ?x :: uint64) = q"
      by (simp only: word_eq_of_nat [OF x]) (simp add: unsigned_of_nat take_bit_nat_eq_self)
    ultimately show ?thesis using unat_le_u64_max [of ?x] x by auto
  qed
qed

lemma round_up_div_bounds:
  assumes "0 < (d :: nat)"
  shows "n \<le> round_div ROUND_UP n d * d" and "0 < n \<Longrightarrow> (round_div ROUND_UP n d - 1) * d < n"
proof -
  have e: "(n + d - 1) div d * d + (n + d - 1) mod d = n + d - 1" by simp
  have m: "(n + d - 1) mod d < d" using assms by simp
  have "n \<le> (n + d - 1) div d * d" using e m by linarith
  then show "n \<le> round_div ROUND_UP n d * d" by (simp add: round_div_def)
  assume "0 < n"
  with e assms have "(n + d - 1) div d * d - d < n" by linarith
  then show "(round_div ROUND_UP n d - 1) * d < n"
    by (simp add: round_div_def diff_mult_distrib)
qed

subsection \<open>Integer square root\<close>

lemma square_le_imp_less: "(x :: nat) * x < y * y \<Longrightarrow> x < y"
  by (metis mult_le_mono not_less)

lemma amgm_step:
  fixes x y R :: nat
  assumes xx: "R < x * x" and y1: "R \<le> y * x"
  shows "R < ((x + y + 1) div 2) * ((x + y + 1) div 2)"
proof -
  let ?h = "(x + y + 1) div 2"
  have h: "x + y \<le> 2 * ?h" by simp
  show ?thesis
  proof (cases "x = y")
    case True
    then show ?thesis using xx by simp
  next
    case False
    have "4 * (y * x) < (x + y) * (x + y)"
    proof -
      have "0 < (int x - int y) * (int x - int y)" using False by (simp add: zero_less_mult_iff) linarith
      then have "4 * (int y * int x) < (int x + int y) * (int x + int y)"
        by (simp add: algebra_simps)
      then show ?thesis by (metis (no_types, lifting) of_nat_add of_nat_less_iff of_nat_mult of_nat_numeral)
    qed
    also have "\<dots> \<le> (2 * ?h) * (2 * ?h)" using h by (rule mult_le_mono) (rule h)
    finally have "y * x < ?h * ?h" by simp
    then show ?thesis using y1 by simp
  qed
qed

lemma sqrtStep_exact:
  assumes xx: "unat R < unat x * unat x"
    and R: "unat R \<le> 340282366920938463426481119284349108224"
  shows "\<exists>x'. sqrtStep R x = Inr x' \<and> unat R < unat x' * unat x' \<and> unat x' \<le> unat x \<and>
    (x' = x \<longrightarrow> (unat x - 1) * (unat x - 1) \<le> unat R)"
proof -
  let ?n = "unat x" and ?r = "unat R"
  define y where "y = round_div ROUND_UP ?r ?n"
  have x0: "0 < ?n" using xx by (cases ?n) auto
  have xne: "x \<noteq> 0" using x0 by auto
  have y1: "?r \<le> y * ?n" using round_up_div_bounds(1) [OF x0] by (simp add: y_def)
  have yx: "y \<le> ?n"
  proof (cases "?r = 0")
    case True
    then show ?thesis using x0 by (simp add: y_def round_div_def)
  next
    case False
    then have "(y - 1) * ?n < ?r" using round_up_div_bounds(2) [OF x0, of ?r] by (simp add: y_def)
    then have "(y - 1) * ?n < ?n * ?n" using xx by (rule less_trans)
    then show ?thesis using x0 by simp
  qed
  have fits: "y \<le> 18446744073709551615" using yx u64_bound [of x] by simp
  obtain w where w: "bigDivideUnsigned128 R x ROUND_UP = Inr (True, w)" "unat w = y"
    using bigDivideUnsigned128_exact [of x R ROUND_UP] fits xne by (auto simp: y_def)
  let ?h = "(?n + y + 1) div 2"
  have "\<exists>x'. sqrtStep R x = Inr x' \<and> unat x' = ?h"
  proof (cases "UINT64_MAX - x \<le> w")
    case True
    have "unat (1 + ucast x + ucast w :: uint128) = ?n + y + 1"
      using u64_bound [of x] u64_bound [of w] w(2)
      by (simp add: unat_word_ariths)
    then have "unat ((1 + ucast x + ucast w :: uint128) div 2) = ?h"
      by (simp add: unat_div)
    then have "unat (ucast ((1 + ucast x + ucast w :: uint128) div 2) :: uint64) = ?h"
      using u64_bound [of x] yx
      by (simp only: word_eq_of_nat) (simp add: unsigned_of_nat take_bit_nat_eq_self)
    then show ?thesis using w True by (simp add: sqrtStep_def)
  next
    case False
    have "unat (UINT64_MAX - x) = 18446744073709551615 - ?n"
      using u64_bound [of x] by (subst unat_sub) (simp_all add: word_le_nat_alt)
    then have lt: "y < 18446744073709551615 - ?n" using False w(2) by (simp add: word_le_nat_alt)
    then have "unat (x + w + 1) = ?n + y + 1" using w(2) by (simp add: unat_word_ariths)
    then have "unat ((x + w + 1) div 2) = ?h" by (simp add: unat_div)
    then show ?thesis using w False by (simp add: sqrtStep_def)
  qed
  then obtain x' where x': "sqrtStep R x = Inr x'" "unat x' = ?h" by blast
  have "(?n - 1) * (?n - 1) \<le> ?r" if "x' = x"
  proof (cases "?n = 1")
    case False
    with that x'(2) x0 have "?n - 2 \<le> y - 1" "2 \<le> ?n" by auto
    then have "?r > (?n - 2) * ?n" if "0 < ?r"
      using round_up_div_bounds(2) [OF x0 that] by (metis y_def le_less_trans mult_le_mono1)
    moreover have "?r > 0"
    proof (rule ccontr)
      assume "\<not> 0 < ?r"
      then have "y = 0" using x0 by (simp add: y_def round_div_def)
      then show False using that x'(2) \<open>2 \<le> ?n\<close> by simp
    qed
    moreover have "(?n - 1) * (?n - 1) = (?n - 2) * ?n + 1"
      using \<open>2 \<le> ?n\<close> by (auto simp: nat_diff_split_asm algebra_simps dest!: le_Suc_ex)
    ultimately show ?thesis by simp
  qed simp
  moreover have "?h \<le> ?n" using yx by simp
  ultimately show ?thesis using x' amgm_step [OF xx y1] by (auto simp: algebra_simps)
qed

lemma sqrtLoop_returns:
  assumes "unat R < unat x * unat x" and "unat R \<le> 340282366920938463426481119284349108224"
    and "x = prev \<Longrightarrow> (unat x - 1) * (unat x - 1) \<le> unat R"
  shows "\<exists>s. sqrtLoop R x prev = Some (Inr s) \<and> unat R < unat s * unat s \<and>
    (unat s - 1) * (unat s - 1) \<le> unat R"
  using assms
proof (induction "unat x" arbitrary: x prev rule: less_induct)
  case less
  obtain x' where x': "sqrtStep R x = Inr x'" "unat R < unat x' * unat x'" "unat x' \<le> unat x"
    "x' = x \<longrightarrow> (unat x - 1) * (unat x - 1) \<le> unat R"
    using sqrtStep_exact [OF less.prems(1,2)] by blast
  show ?case
  proof (cases "x = prev")
    case True
    then show ?thesis using less.prems by (simp add: sqrtLoop.simps [of R prev prev])
  next
    case False
    show ?thesis
    proof (cases "x' = x")
      case True
      then have "sqrtLoop R x prev = Some (Inr x)"
        using False x'(1) by (simp add: sqrtLoop.simps [of R x prev] sqrtLoop.simps [of R x x])
      then show ?thesis using True x' by auto
    next
      case neq: False
      then have lt: "unat x' < unat x" using x'(3) by (simp add: word_unat_eq_iff)
      have "\<exists>s. sqrtLoop R x' x = Some (Inr s) \<and> unat R < unat s * unat s \<and> (unat s - 1) * (unat s - 1) \<le> unat R"
        using less.hyps [OF lt x'(2) less.prems(2)] neq by blast
      moreover have "sqrtLoop R x prev = sqrtLoop R x' x"
        using False x'(1) by (simp add: sqrtLoop.simps [of R x prev])
      ultimately show ?thesis by simp
    qed
  qed
qed

lemma nat_bits_bound: "n < 2 ^ nat_bits n"
proof (induction n rule: nat_bits.induct)
  case (1 n)
  then show ?case by (cases "n = 0") (auto simp: nat_bits.simps [of n])
qed

lemma square_pos_nonzero: "n < unat x * unat x \<Longrightarrow> x \<noteq> 0"
  by auto

lemma sqrt_seed:
  assumes "unat R \<le> 340282366920938463426481119284349108224"
  defines "k \<equiv> uint128_bits R div 2 + 1"
  defines "x \<equiv> (if k \<ge> 64 then UINT64_MAX else push_bit k 1)"
  shows "unat R < unat x * unat x"
proof (cases "k \<ge> 64")
  case True
  then show ?thesis using assms(1) by (simp add: x_def)
next
  case False
  then have u: "unat x = 2 ^ k"
    by (simp only: x_def if_False unsigned_push_bit_eq) (simp add: push_bit_eq_mult take_bit_nat_eq_self)
  have "unat R < 2 ^ uint128_bits R" by (simp add: uint128_bits_def nat_bits_bound)
  also have "\<dots> \<le> 2 ^ (2 * k)" by (rule power_increasing) (auto simp: k_def)
  also have "\<dots> = unat x * unat x" by (simp add: u mult_2 power_add)
  finally show ?thesis .
qed

lemma bigSquareRootCeil_correct:
  "\<exists>s. bigSquareRootCeil a b = Some (Inr s) \<and> unat a * unat b \<le> unat s * unat s \<and>
     (s \<noteq> 0 \<longrightarrow> (unat s - 1) * (unat s - 1) < unat a * unat b)"
proof (cases "a = 0 \<or> b = 0")
  case True
  then show ?thesis by (auto simp: bigSquareRootCeil_def)
next
  case False
  let ?R = "bigMultiplyUnsigned a b - 1"
  have pos: "0 < unat a * unat b" using False by (simp add: unat_gt_0)
  then have "bigMultiplyUnsigned a b \<noteq> 0" using unat_bigMultiplyUnsigned [of a b] by auto
  then have R: "unat ?R = unat a * unat b - 1"
    by (simp add: unat_minus_one unat_bigMultiplyUnsigned)
  have bound: "unat ?R \<le> 340282366920938463426481119284349108224"
    using u64_mult_bound [of a b] by (simp add: R)
  let ?k = "uint128_bits ?R div 2 + 1"
  let ?x = "if ?k \<ge> 64 then UINT64_MAX else push_bit ?k 1 :: uint64"
  have seed: "unat ?R < unat ?x * unat ?x" by (rule sqrt_seed [OF bound])
  then have "?x \<noteq> 0" by (rule square_pos_nonzero)
  then obtain s where s: "sqrtLoop ?R ?x 0 = Some (Inr s)" "unat ?R < unat s * unat s"
    "(unat s - 1) * (unat s - 1) \<le> unat ?R"
    using sqrtLoop_returns [OF seed bound, of 0] by blast
  moreover have "bigSquareRootCeil a b = sqrtLoop ?R ?x 0"
    using False by (simp add: bigSquareRootCeil_def Let_def)
  moreover have "unat a * unat b \<le> unat s * unat s" using s(2) R by linarith
  moreover have "(unat s - 1) * (unat s - 1) < unat a * unat b" using s(3) R pos by linarith
  ultimately show ?thesis by auto
qed

text \<open>
  C36: the Newton iteration of \<open>bigSquareRootCeil\<close> stops for every input without tripping its overflow
  guard, and \<open>bigSquareRoot\<close> returns the integer square root of the 128-bit product, rounded down.
\<close>

theorem bigSquareRoot_correct:
  "\<exists>x. bigSquareRoot a b = Some (Inr x) \<and> unat x * unat x \<le> unat a * unat b \<and>
     unat a * unat b < (unat x + 1) * (unat x + 1)"
proof -
  obtain s where s: "bigSquareRootCeil a b = Some (Inr s)" "unat a * unat b \<le> unat s * unat s"
    "s \<noteq> 0 \<longrightarrow> (unat s - 1) * (unat s - 1) < unat a * unat b"
    using bigSquareRootCeil_correct by blast
  show ?thesis
  proof (cases "unat s * unat s \<le> unat a * unat b")
    case True
    then have "bigSquareRoot a b = Some (Inr s)"
      using s(1) by (simp add: bigSquareRoot_def word_le_nat_alt unat_bigMultiplyUnsigned)
    then show ?thesis using True s(2) by auto
  next
    case False
    then have "s \<noteq> 0" by auto
    then have "unat (s - 1) + 1 = unat s" by (auto simp: unat_minus_one unat_gt_0)
    moreover from this have "unat (s - 1) = unat s - 1" by simp
    moreover have "bigSquareRoot a b = Some (Inr (s - 1))"
      using s(1) False by (simp add: bigSquareRoot_def word_le_nat_alt unat_bigMultiplyUnsigned)
    ultimately show ?thesis using False s(3) \<open>s \<noteq> 0\<close> by (intro exI [of _ "s - 1"]) simp
  qed
qed

subsection \<open>Signed divisions\<close>

lemma unat_word_of_int_64: "0 \<le> A \<Longrightarrow> A \<le> INT64_MAX \<Longrightarrow> unat (word_of_int A :: uint64) = nat A"
  by (simp add: unsigned_of_int take_bit_int_eq_self)

lemma sint_of_nat_64: "int n \<le> INT64_MAX \<Longrightarrow> sint (word_of_nat n :: uint64) = int n"
  by (simp add: signed_of_nat signed_take_bit_int_eq_self)

lemma bigDivide_exact:
  fixes A B C :: int and rounding :: Rounding
  assumes "0 \<le> A" "A \<le> INT64_MAX" "0 \<le> B" "B \<le> INT64_MAX" "0 < C" "C \<le> INT64_MAX"
  defines "q \<equiv> round_div rounding (nat A * nat B) (nat C)"
  shows "\<exists>r. bigDivide A B C rounding = Inr (int q \<le> INT64_MAX, r) \<and> (int q \<le> INT64_MAX \<longrightarrow> r = int q)"
proof -
  have C: "0 < (word_of_int C :: uint64)"
    using unat_word_of_int_64 [of C] assms(5,6) by (simp add: word_less_nat_alt)
  have d: "bigDivideUnsigned (word_of_int A) (word_of_int B) (word_of_int C) rounding
    = Inr (q \<le> 18446744073709551615, word_of_nat q)"
    using bigDivideUnsigned_exact [OF C] assms by (simp add: unat_word_of_int_64 Let_def)
  show ?thesis
  proof (cases "q \<le> 18446744073709551615")
    case True
    then have "uint (word_of_nat q :: uint64) = int q"
      by (simp add: unsigned_of_nat take_bit_nat_eq_self)
    then have "bigDivide A B C rounding = Inr (int q \<le> INT64_MAX, sint (word_of_nat q :: uint64))"
      using d True assms(1-6) by (simp add: bigDivide_def)
    then show ?thesis using sint_of_nat_64 [of q] by blast
  next
    case False
    then show ?thesis using d assms(1-6) by (simp add: bigDivide_def)
  qed
qed

text \<open>
  C35: on non-negative 64-bit operands \<open>bigDivideOrThrow\<close> returns the exact quotient
  \<open>A B / C\<close> of the unbounded product, rounded as asked, and throws exactly when it does not
  fit a signed 64-bit integer.
\<close>

theorem bigDivideOrThrow_exact:
  assumes "0 \<le> A" "A \<le> INT64_MAX" "0 \<le> B" "B \<le> INT64_MAX" "0 < C" "C \<le> INT64_MAX"
  shows "bigDivideOrThrow A B C rounding =
    (let q = int (round_div rounding (nat A * nat B) (nat C))
     in if q \<le> INT64_MAX then Inr q else Inl OverflowError)"
  using bigDivide_exact [OF assms, of rounding] unfolding bigDivideOrThrow_def Let_def by force

lemma bigDivide128_exact:
  fixes a :: uint128 and B :: int and rounding :: Rounding
  assumes "0 < B" "B \<le> INT64_MAX"
  defines "q \<equiv> round_div rounding (unat a) (nat B)"
  shows "\<exists>r. bigDivide128 a B rounding = Inr (int q \<le> INT64_MAX, r) \<and> (int q \<le> INT64_MAX \<longrightarrow> r = int q)"
proof -
  have u: "unat (word_of_int B :: uint64) = nat B" using assms by (simp add: unat_word_of_int_64)
  then have "word_of_int B \<noteq> (0 :: uint64)" using assms(1) by (intro notI) (simp only: unsigned_0)
  from bigDivideUnsigned128_exact [OF this, of a rounding]
  obtain w where w: "bigDivideUnsigned128 a (word_of_int B) rounding = Inr (q \<le> 18446744073709551615, w)"
    "q \<le> 18446744073709551615 \<longrightarrow> unat w = q" unfolding u q_def by blast
  show ?thesis
  proof (cases "q \<le> 18446744073709551615")
    case True
    then have uw: "unat w = q" using w(2) by simp
    then have "w = word_of_nat q" "uint w = int q" by auto
    then have "bigDivide128 a B rounding = Inr (int q \<le> INT64_MAX, sint (word_of_nat q :: uint64))"
      using w True assms(1,2) by (simp add: bigDivide128_def)
    then show ?thesis using sint_of_nat_64 [of q] by blast
  next
    case False
    then show ?thesis using w assms(1,2) by (simp add: bigDivide128_def)
  qed
qed

lemma bigDivideOrThrow128_exact:
  assumes "0 < B" "B \<le> INT64_MAX"
  shows "bigDivideOrThrow128 a B rounding =
    (let q = int (round_div rounding (unat a) (nat B))
     in if q \<le> INT64_MAX then Inr q else Inl OverflowError)"
  using bigDivide128_exact [OF assms, of a rounding] unfolding bigDivideOrThrow128_def Let_def by force

text \<open>Splitting \<open>B = Q C + R\<close> gives the exact quotient of \<open>a B / C\<close>.\<close>

lemma round_div_split:
  assumes "0 < (c :: nat)"
  shows "round_div rounding (a * b) c = a * (b div c) + round_div rounding (a * (b mod c)) c"
proof -
  have "a * b = a * (b mod c) + a * (b div c) * c"
    by (metis distrib_left mod_div_mult_eq mult.assoc)
  moreover have "(x + k * c + c - 1) div c = k + (x + c - 1) div c" for x k :: nat
  proof -
    have "x + k * c + c - 1 = (x + c - 1) + k * c" using assms by simp
    then show ?thesis using div_mult_self1 [of c "x + c - 1" k] assms by (simp only: neq0_conv)
  qed
  ultimately show ?thesis using assms by (simp add: round_div_def)
qed

lemma unat_word_of_int_128: "0 \<le> A \<Longrightarrow> A \<le> INT64_MAX \<Longrightarrow> unat (word_of_int A :: uint128) = nat A"
  by (simp add: unsigned_of_int take_bit_int_eq_self)

lemma hugeDivide_no_wrap:
  fixes A Q R C :: uint128
  assumes "unat A \<le> 2147483647" "unat Q \<le> 9223372036854775807" "unat R < unat C"
    "unat C \<le> 19807040619342712359383728129"
  shows "unat (A * Q + A * R div C) = unat A * unat Q + unat A * unat R div unat C"
    and "unat (A * Q + (A * R + C - 1) div C) = unat A * unat Q + (unat A * unat R + unat C - 1) div unat C"
proof -
  have AQ: "unat A * unat Q \<le> 2147483647 * 9223372036854775807"
    using assms by (intro mult_le_mono) auto
  have AR: "unat A * unat R \<le> 2147483647 * 19807040619342712359383728129"
    using assms by (intro mult_le_mono) auto
  have aq: "unat (A * Q) = unat A * unat Q" using AQ by (subst unat_mult_lem [THEN iffD1]) auto
  have ar: "unat (A * R) = unat A * unat R" using AR by (subst unat_mult_lem [THEN iffD1]) auto
  have "unat (A * R + C) = unat A * unat R + unat C"
    using AR assms(4) by (subst unat_add_lem [THEN iffD1]) (simp_all add: ar)
  then have arc: "unat (A * R + C - 1) = unat A * unat R + unat C - 1"
    using assms(3) by (subst unat_minus_one) auto
  have d1: "unat A * unat R div unat C \<le> 2147483647 * 19807040619342712359383728129"
    using AR div_le_dividend le_trans by blast
  have d2: "(unat A * unat R + unat C - 1) div unat C \<le> 2147483648 * 19807040619342712359383728129"
    using AR assms(4) by (intro le_trans [OF div_le_dividend]) simp
  show "unat (A * Q + A * R div C) = unat A * unat Q + unat A * unat R div unat C"
    using AQ d1 by (subst unat_add_lem [THEN iffD1]) (simp_all add: aq ar unat_div)
  show "unat (A * Q + (A * R + C - 1) div C) = unat A * unat Q + (unat A * unat R + unat C - 1) div unat C"
    using AQ d2 by (subst unat_add_lem [THEN iffD1]) (simp_all add: aq arc unat_div)
qed

lemma unat_128_uint: "unat (x :: uint128) = n \<Longrightarrow> uint x = int n"
  by auto

lemma unat_128_le_int64:
  "unat (x :: uint128) = n \<Longrightarrow> x \<le> word_of_int INT64_MAX \<longleftrightarrow> int n \<le> INT64_MAX"
  by (simp add: word_le_nat_alt nat_le_iff)

lemma hugeDivide_value:
  assumes a: "0 < a" "a \<le> INT32_MAX" and C: "C \<noteq> 0" "C \<le> word_of_int INT32_MAX * word_of_int INT64_MAX"
  shows "hugeDivide a B C rounding =
    (let q = int (round_div rounding (nat a * unat B) (unat C))
     in if q \<le> INT64_MAX then Inr (True, q) else Inr (False, 0))"
proof -
  let ?A = "word_of_int a :: uint128" and ?Q = "B div C" and ?R = "B mod C"
  let ?q = "round_div rounding (nat a * unat B) (unat C)"
  have uC: "0 < unat C" "unat C \<le> 19807040619342712359383728129"
    using C by (auto simp: unat_gt_0 word_le_nat_alt)
  have uA: "unat ?A = nat a" using a by (simp add: unat_word_of_int_128)
  have q: "?q = nat a * (unat B div unat C) + round_div rounding (nat a * (unat B mod unat C)) (unat C)"
    by (rule round_div_split [OF uC(1)])
  show ?thesis
  proof (cases "?Q > word_of_int INT64_MAX")
    case True
    then have "9223372036854775807 < unat B div unat C" by (simp add: word_less_nat_alt unat_div)
    moreover have "unat B div unat C \<le> nat a * (unat B div unat C)" using a by (cases "nat a") simp_all
    ultimately have "\<not> int ?q \<le> INT64_MAX" using q by linarith
    then show ?thesis using True assms by (simp add: hugeDivide_def Let_def)
  next
    case False
    then have Q: "unat ?Q \<le> 9223372036854775807" by (simp add: word_less_nat_alt unat_div)
    have R: "unat ?R < unat C" using uC by (simp add: unat_mod)
    let ?res = "if rounding = ROUND_DOWN then ?A * ?Q + ?A * ?R div C else ?A * ?Q + (?A * ?R + C - 1) div C"
    have "unat ?A \<le> 2147483647" using a uA by simp
    note nw = hugeDivide_no_wrap [OF this Q R uC(2)]
    have "unat ?res = ?q"
      unfolding q using nw by (cases rounding) (simp_all add: uA round_div_def unat_div unat_mod)
    then have "uint ?res = int ?q" and "?res \<le> word_of_int INT64_MAX \<longleftrightarrow> int ?q \<le> INT64_MAX"
      by (rule unat_128_uint, rule unat_128_le_int64)
    then show ?thesis using False assms by (simp add: hugeDivide_def Let_def)
  qed
qed



subsection \<open>Witnesses\<close>

theorem bigSquareRoot_witness: "\<exists>x. bigSquareRoot 10 5 = Some (Inr x) \<and> unat x = 7"
proof -
  obtain x where x: "bigSquareRoot 10 5 = Some (Inr x)" "unat x * unat x \<le> 50" "50 < (unat x + 1) * (unat x + 1)"
    using bigSquareRoot_correct [of 10 5] by auto
  have "unat x < 8"
  proof (rule ccontr)
    assume "\<not> unat x < 8"
    then have "8 * 8 \<le> unat x * unat x" by (intro mult_le_mono) auto
    then show False using x(2) by simp
  qed
  moreover have "\<not> unat x < 7"
  proof
    assume "unat x < 7"
    then have "(unat x + 1) * (unat x + 1) \<le> 7 * 7" by (intro mult_le_mono) auto
    then show False using x(3) by simp
  qed
  ultimately show ?thesis using x(1) by auto
qed

theorem bigDivideOrThrow_witness: "bigDivideOrThrow 9223372036854775807 3 5 ROUND_UP = Inr 5534023222112865485"
  using bigDivideOrThrow_exact [of 9223372036854775807 3 5 ROUND_UP]
  by (simp add: round_div_def nat_mult_distrib [symmetric] Let_def)



end
