(* ===== verification/LocalNode.thy ===== *)
theory LocalNode
  imports SCPTypes Numeric
begin

text \<open>
  \<open>src/src/scp/LocalNode.cpp\<close>: what a quorum set says about a set of nodes (slices and
  v-blocking sets), the transitive quorum computed from the statements received so far, node
  weights, and the closest v-blocking set. The loops keep their early exits and their counters at
  the width the code gives them.
\<close>

subsection \<open>Quorum sets\<close>

definition buildSingletonQSet :: "NodeID \<Rightarrow> SCPQuorumSet" where
  "buildSingletonQSet n = SCPQuorumSet 1 [n] []"

definition getSingletonQSet :: "NodeID \<Rightarrow> SCPQuorumSet" where
  "getSingletonQSet n = buildSingletonQSet n"

text \<open>
  \<open>forAllNodes\<close> calls \<open>proc\<close> on every node in order and stops when it returns false; the
  callbacks of the code mutate captured variables, here the state \<open>'s\<close>.
\<close>

fun forAllValidators :: "NodeID list \<Rightarrow> (NodeID \<Rightarrow> 's \<Rightarrow> bool \<times> 's) \<Rightarrow> 's \<Rightarrow> bool \<times> 's" where
  "forAllValidators [] proc s = (True, s)"
| "forAllValidators (n # ns) proc s =
     (case proc n s of (r, s') \<Rightarrow> if \<not> r then (False, s') else forAllValidators ns proc s')"

fun forAllNodes :: "SCPQuorumSet \<Rightarrow> (NodeID \<Rightarrow> 's \<Rightarrow> bool \<times> 's) \<Rightarrow> 's \<Rightarrow> bool \<times> 's"
  and forAllInner :: "SCPQuorumSet list \<Rightarrow> (NodeID \<Rightarrow> 's \<Rightarrow> bool \<times> 's) \<Rightarrow> 's \<Rightarrow> bool \<times> 's" where
  "forAllNodes (SCPQuorumSet t vs qs) proc s =
     (case forAllValidators vs proc s of
        (r, s') \<Rightarrow> if \<not> r then (False, s') else forAllInner qs proc s')"
| "forAllInner [] proc s = (True, s)"
| "forAllInner (q # qs) proc s =
     (case forAllNodes q proc s of (r, s') \<Rightarrow> if \<not> r then (False, s') else forAllInner qs proc s')"

subsection \<open>Node weights\<close>

definition computeWeight :: "uint64 \<Rightarrow> uint64 \<Rightarrow> uint64 \<Rightarrow> numeric_error + uint64" where
  "computeWeight m tot thr =
     (if \<not> thr \<le> tot then Inl AssertFailed
      else bindE (bigDivideUnsigned m thr tot ROUND_UP)
             (\<lambda>(noOverflow, res). if \<not> noOverflow then Inl AssertFailed else Inr res))"

fun getNodeWeight :: "NodeID \<Rightarrow> SCPQuorumSet \<Rightarrow> numeric_error + uint64"
  and innerWeight :: "NodeID \<Rightarrow> SCPQuorumSet list \<Rightarrow> uint64 \<Rightarrow> uint64 \<Rightarrow> numeric_error + uint64" where
  "getNodeWeight nid (SCPQuorumSet t vs qs) =
     (let n = ucast t; d = of_nat (length qs + length vs) in
      if nid \<in> set vs then computeWeight UINT64_MAX d n
      else innerWeight nid qs d n)"
| "innerWeight nid [] d n = Inr 0"
| "innerWeight nid (q # qs) d n =
     (case getNodeWeight nid q of
        Inl e \<Rightarrow> Inl e
      | Inr leafW \<Rightarrow> if leafW \<noteq> 0 then computeWeight leafW d n else innerWeight nid qs d n)"

subsection \<open>Quorum slices\<close>

text \<open>The loop over the validators: \<open>None\<close> when the function returned true inside it.\<close>

fun sliceValidators :: "NodeID list \<Rightarrow> NodeID list \<Rightarrow> uint32 \<Rightarrow> uint32 option" where
  "sliceValidators [] nodeSet thresholdLeft = Some thresholdLeft"
| "sliceValidators (v # vs) nodeSet thresholdLeft =
     (if v \<in> set nodeSet then
        (let left' = thresholdLeft - 1 in
         if left' \<le> 0 then None else sliceValidators vs nodeSet left')
      else sliceValidators vs nodeSet thresholdLeft)"

fun isQuorumSliceInternal :: "SCPQuorumSet \<Rightarrow> NodeID list \<Rightarrow> bool"
  and sliceInner :: "SCPQuorumSet list \<Rightarrow> NodeID list \<Rightarrow> uint32 \<Rightarrow> bool" where
  "isQuorumSliceInternal (SCPQuorumSet t vs qs) nodeSet =
     (case sliceValidators vs nodeSet t of
        None \<Rightarrow> True
      | Some thresholdLeft \<Rightarrow> sliceInner qs nodeSet thresholdLeft)"
| "sliceInner [] nodeSet thresholdLeft = False"
| "sliceInner (q # qs) nodeSet thresholdLeft =
     (if isQuorumSliceInternal q nodeSet then
        (let left' = thresholdLeft - 1 in
         if left' \<le> 0 then True else sliceInner qs nodeSet left')
      else sliceInner qs nodeSet thresholdLeft)"

definition isQuorumSlice :: "SCPQuorumSet \<Rightarrow> NodeID list \<Rightarrow> bool" where
  "isQuorumSlice qSet nodeSet = isQuorumSliceInternal qSet nodeSet"

subsection \<open>V-blocking sets\<close>

fun blockValidators :: "NodeID list \<Rightarrow> NodeID list \<Rightarrow> int \<Rightarrow> int option" where
  "blockValidators [] nodeSet leftTillBlock = Some leftTillBlock"
| "blockValidators (v # vs) nodeSet leftTillBlock =
     (if v \<in> set nodeSet then
        (let left' = leftTillBlock - 1 in
         if left' \<le> 0 then None else blockValidators vs nodeSet left')
      else blockValidators vs nodeSet leftTillBlock)"

fun isVBlockingInternal :: "SCPQuorumSet \<Rightarrow> NodeID list \<Rightarrow> bool"
  and blockInner :: "SCPQuorumSet list \<Rightarrow> NodeID list \<Rightarrow> int \<Rightarrow> bool" where
  "isVBlockingInternal (SCPQuorumSet t vs qs) nodeSet =
     (if t = 0 then False
      else
        \<comment> \<open>the \<open>size_t\<close> difference is cast to \<open>int\<close>, which keeps its low 32 bits\<close>
        let leftTillBlock = sint (of_nat (1 + length vs + length qs) - t :: uint32) in
        case blockValidators vs nodeSet leftTillBlock of
          None \<Rightarrow> True
        | Some left' \<Rightarrow> blockInner qs nodeSet left')"
| "blockInner [] nodeSet leftTillBlock = False"
| "blockInner (q # qs) nodeSet leftTillBlock =
     (if isVBlockingInternal q nodeSet then
        (let left' = leftTillBlock - 1 in
         if left' \<le> 0 then True else blockInner qs nodeSet left')
      else blockInner qs nodeSet leftTillBlock)"

definition isVBlocking :: "SCPQuorumSet \<Rightarrow> NodeID list \<Rightarrow> bool" where
  "isVBlocking qSet nodeSet = isVBlockingInternal qSet nodeSet"

text \<open>The nodes of the map whose statement passes the filter, in the order of the map.\<close>

definition filterNodes :: "(NodeID \<times> SCPEnvelope) list \<Rightarrow> (SCPStatement \<Rightarrow> bool) \<Rightarrow> NodeID list" where
  "filterNodes m flt = map fst (filter (\<lambda>(n, e). flt (envStatement e)) m)"

definition isVBlockingMap ::
  "SCPQuorumSet \<Rightarrow> (NodeID \<times> SCPEnvelope) list \<Rightarrow> (SCPStatement \<Rightarrow> bool) \<Rightarrow> bool" where
  "isVBlockingMap qSet m flt = isVBlocking qSet (filterNodes m flt)"

subsection \<open>Quorums\<close>

definition quorumFilter ::
  "(NodeID \<times> SCPEnvelope) list \<Rightarrow> (SCPStatement \<Rightarrow> SCPQuorumSet option) \<Rightarrow> NodeID list \<Rightarrow> NodeID \<Rightarrow> bool"
  where
  "quorumFilter m qfun pNodes n =
     (case map_of m n of
        None \<Rightarrow> False
      | Some e \<Rightarrow>
          (case qfun (envStatement e) of
             Some q \<Rightarrow> isQuorumSlice q pNodes
           | None \<Rightarrow> False))"

text \<open>The \<open>do ... while (count != pNodes.size())\<close> loop: drop nodes until nothing changes.\<close>

function quorumLoop ::
  "(NodeID \<times> SCPEnvelope) list \<Rightarrow> (SCPStatement \<Rightarrow> SCPQuorumSet option) \<Rightarrow> NodeID list \<Rightarrow> NodeID list"
  where
  "quorumLoop m qfun pNodes =
     (let fNodes = filter (quorumFilter m qfun pNodes) pNodes in
      if length pNodes \<noteq> length fNodes then quorumLoop m qfun fNodes else fNodes)"
  by pat_completeness auto
termination
proof (relation "measure (\<lambda>(m, qfun, pNodes). length pNodes)")
  fix m qfun and pNodes fNodes :: "NodeID list"
  assume "fNodes = filter (quorumFilter m qfun pNodes) pNodes" "length pNodes \<noteq> length fNodes"
  then show "((m, qfun, fNodes), m, qfun, pNodes) \<in> measure (\<lambda>(m, qfun, pNodes). length pNodes)"
    by (simp add: less_le)
qed auto

declare quorumLoop.simps [simp del]

definition isQuorum ::
  "SCPQuorumSet \<Rightarrow> (NodeID \<times> SCPEnvelope) list \<Rightarrow> (SCPStatement \<Rightarrow> SCPQuorumSet option) \<Rightarrow>
   (SCPStatement \<Rightarrow> bool) \<Rightarrow> bool" where
  "isQuorum qSet m qfun flt = isQuorumSlice qSet (quorumLoop m qfun (filterNodes m flt))"

subsection \<open>Closest v-blocking set\<close>

text \<open>
  The validators loop: counts those that are not in \<open>nodes\<close> as blocked, collects the others;
  \<open>None\<close> when the quorum set turned out to be blocked already.
\<close>

fun closestValidators ::
  "NodeID list \<Rightarrow> NodeID list \<Rightarrow> NodeID option \<Rightarrow> uint64 \<Rightarrow> NodeID list \<Rightarrow> (uint64 \<times> NodeID list) option"
  where
  "closestValidators [] nodes excluded left res = Some (left, res)"
| "closestValidators (v # vs) nodes excluded left res =
     (if excluded = Some v then closestValidators vs nodes excluded left res
      else if v \<notin> set nodes then
        (let left' = left - 1 in
         if left' = 0 then None else closestValidators vs nodes excluded left' res)
      else closestValidators vs nodes excluded left (res @ [v]))"

text \<open>\<open>std::multiset\<close> ordered by size: a new element goes after those of the same size.\<close>

fun insertBySize :: "NodeID list \<Rightarrow> NodeID list list \<Rightarrow> NodeID list list" where
  "insertBySize v [] = [v]"
| "insertBySize v (w # ws) = (if length v < length w then v # w # ws else w # insertBySize v ws)"

text \<open>Use the subsets, the smallest ones first, while there is something left to block.\<close>

fun closestTake :: "uint64 \<Rightarrow> NodeID list \<Rightarrow> NodeID list list \<Rightarrow> NodeID list" where
  "closestTake left res [] = res"
| "closestTake left res (v # vs) = (if left \<noteq> 0 then closestTake (left - 1) (res @ v) vs else res)"

fun findClosestVBlocking :: "SCPQuorumSet \<Rightarrow> NodeID list \<Rightarrow> NodeID option \<Rightarrow> NodeID list"
  and closestInner ::
    "SCPQuorumSet list \<Rightarrow> NodeID list \<Rightarrow> NodeID option \<Rightarrow> uint64 \<Rightarrow> NodeID list list \<Rightarrow>
     (uint64 \<times> NodeID list list) option" where
  "findClosestVBlocking (SCPQuorumSet t vs qs) nodes excluded =
     (let leftTillBlock = of_nat (1 + length vs + length qs) - ucast t in
      case closestValidators vs nodes excluded leftTillBlock [] of
        None \<Rightarrow> []
      | Some (left1, res) \<Rightarrow>
          (case closestInner qs nodes excluded left1 [] of
             None \<Rightarrow> []
           | Some (left2, resInternals) \<Rightarrow>
               (let res' = (if of_nat (length res) > left2 then take (unat left2) res else res)
                in closestTake (left2 - of_nat (length res')) res' resInternals)))"
| "closestInner [] nodes excluded left resInternals = Some (left, resInternals)"
| "closestInner (q # qs) nodes excluded left resInternals =
     (let v = findClosestVBlocking q nodes excluded in
      if length v = 0 then
        (let left' = left - 1 in
         if left' = 0 then None else closestInner qs nodes excluded left' resInternals)
      else closestInner qs nodes excluded left (insertBySize v resInternals))"

definition findClosestVBlockingMap ::
  "SCPQuorumSet \<Rightarrow> (NodeID \<times> SCPEnvelope) list \<Rightarrow> (SCPStatement \<Rightarrow> bool) \<Rightarrow> NodeID option \<Rightarrow> NodeID list"
  where
  "findClosestVBlockingMap qset m flt excluded =
     findClosestVBlocking qset (set_from (filterNodes m flt)) excluded"


subsection \<open>Specification: slices as thresholds\<close>

text \<open>
  The abstract meaning of a quorum set: a set of nodes satisfies it when it satisfies at least
  the threshold of its entries. A zero threshold is only met after the 32-bit counter has wrapped
  around, so it stands for \<open>2 ^ 32\<close>.
\<close>

definition need :: "uint32 \<Rightarrow> nat" where
  "need t = (if t = 0 then 2 ^ 32 else unat t)"

fun slice_ok :: "SCPQuorumSet \<Rightarrow> NodeID set \<Rightarrow> bool" where
  "slice_ok (SCPQuorumSet t vs qs) N \<longleftrightarrow>
     need t \<le> length (filter (\<lambda>v. v \<in> N) vs) + length (filter (\<lambda>q. slice_ok q N) qs)"

text \<open>The nodes a quorum set mentions, in the order in which \<open>forAllNodes\<close> visits them.\<close>

fun allNodes :: "SCPQuorumSet \<Rightarrow> NodeID list" where
  "allNodes (SCPQuorumSet t vs qs) = vs @ concat (map allNodes qs)"

text \<open>Thresholds between 1 and the number of entries at every level.\<close>

fun wf_thresholds :: "SCPQuorumSet \<Rightarrow> bool" where
  "wf_thresholds (SCPQuorumSet t vs qs) \<longleftrightarrow>
     0 < unat t \<and> unat t \<le> length vs + length qs \<and> length vs + length qs < 2 ^ 31 - 1 \<and>
     (\<forall>q \<in> set qs. wf_thresholds q)"

lemma need_pos: "0 < need t"
  by (simp add: need_def unat_gt_0)

lemma need_one: "t - 1 \<le> 0 \<longleftrightarrow> need t = 1"
proof -
  have "t - 1 \<le> 0 \<longleftrightarrow> t = 1" by simp
  moreover have "unat t = 1 \<longleftrightarrow> t = 1" by (simp add: word_unat_eq_iff)
  ultimately show ?thesis by (auto simp: need_def)
qed

lemma need_minus_one: "need t \<noteq> 1 \<Longrightarrow> need (t - 1) = need t - 1"
proof (cases "t = 0")
  case True
  then show ?thesis by (simp add: need_def unsigned_minus_1_eq_mask mask_eq_exp_minus_1)
next
  case False
  moreover assume "need t \<noteq> 1"
  ultimately have "unat t \<noteq> 1" "t - 1 \<noteq> 0" using need_one [of t] by (auto simp: need_def)
  then show ?thesis using False by (simp add: need_def unat_minus_one)
qed

lemma need_wf: "0 < unat t \<Longrightarrow> need t = unat t"
  by (auto simp: need_def)

lemma sliceValidators_count:
  "(case sliceValidators vs ns left of
      None \<Rightarrow> need left \<le> length (filter (\<lambda>v. v \<in> set ns) vs)
    | Some left' \<Rightarrow> need left = need left' + length (filter (\<lambda>v. v \<in> set ns) vs))"
proof (induction vs ns left rule: sliceValidators.induct)
  case (2 v vs ns left)
  then show ?case
    using need_pos [of left] need_minus_one [of left] need_one [of left]
    by (auto simp: Let_def split: option.splits)
qed simp

lemma sliceInner_count:
  "sliceInner qs ns left \<longleftrightarrow> need left \<le> length (filter (\<lambda>q. isQuorumSliceInternal q ns) qs)"
proof (induction qs arbitrary: left)
  case (Cons q qs)
  then show ?case
    using need_pos [of left] need_minus_one [of left] need_one [of left] by (auto simp: Let_def)
qed (use need_pos in auto)

lemma isQuorumSliceInternal_iff: "isQuorumSliceInternal q ns \<longleftrightarrow> slice_ok q (set ns)"
proof (induction q)
  case (SCPQuorumSet t vs qs)
  then have "filter (\<lambda>q. isQuorumSliceInternal q ns) qs = filter (\<lambda>q. slice_ok q (set ns)) qs"
    by (intro filter_cong) auto
  then show ?case
    using sliceValidators_count [where vs = vs and ns = ns and left = t] need_pos
    by (auto simp: sliceInner_count split: option.splits)
qed

lemma isQuorumSlice_iff: "isQuorumSlice q ns \<longleftrightarrow> slice_ok q (set ns)"
  by (simp add: isQuorumSlice_def isQuorumSliceInternal_iff)

lemma length_filter_mono: "(\<And>x. x \<in> set xs \<Longrightarrow> P x \<Longrightarrow> Q x) \<Longrightarrow> length (filter P xs) \<le> length (filter Q xs)"
  by (induction xs) (auto simp: le_Suc_eq)

lemma slice_ok_mono: "M \<subseteq> N \<Longrightarrow> slice_ok q M \<Longrightarrow> slice_ok q N"
proof (induction q)
  case (SCPQuorumSet t vs qs)
  have "length (filter (\<lambda>v. v \<in> M) vs) \<le> length (filter (\<lambda>v. v \<in> N) vs)"
    using SCPQuorumSet.prems by (intro length_filter_mono) auto
  moreover have "length (filter (\<lambda>q. slice_ok q M) qs) \<le> length (filter (\<lambda>q. slice_ok q N) qs)"
    using SCPQuorumSet by (intro length_filter_mono) auto
  ultimately show ?case using SCPQuorumSet.prems by simp
qed

lemma slice_ok_Int_allNodes: "slice_ok q (N \<inter> set (allNodes q)) \<longleftrightarrow> slice_ok q N"
proof -
  have "slice_ok q (N \<inter> M) \<longleftrightarrow> slice_ok q N" if "set (allNodes q) \<subseteq> M" for M
    using that
  proof (induction q)
    case (SCPQuorumSet t vs qs)
    have v: "filter (\<lambda>v. v \<in> N \<inter> M) vs = filter (\<lambda>v. v \<in> N) vs"
      using SCPQuorumSet.prems by (intro filter_cong) auto
    have "filter (\<lambda>q. slice_ok q (N \<inter> M)) qs = filter (\<lambda>q. slice_ok q N) qs"
      using SCPQuorumSet by (intro filter_cong) (auto simp: subset_iff)
    with v show ?case by (simp only: slice_ok.simps)
  qed
  then show ?thesis by blast
qed

subsection \<open>Counting the v-blocking loops\<close>

lemma leftTillBlock_wf:
  assumes "unat t \<le> n" "n < 2 ^ 31 - 1"
  shows "sint (of_nat (1 + n) - t :: uint32) = 1 + int n - int (unat t)"
proof -
  have "t = of_nat (unat t)" by simp
  then have "of_nat (1 + n) - t = (of_nat (1 + n - unat t) :: uint32)"
    using assms(1) by (metis of_nat_diff trans_le_add2)
  moreover have "sint (of_nat (1 + n - unat t) :: uint32) = int (1 + n - unat t)"
    using assms(2) by (simp add: signed_of_nat signed_take_bit_int_eq_self)
  ultimately show ?thesis using assms(1) by simp
qed

lemma blockValidators_count:
  "1 \<le> left \<Longrightarrow>
   (case blockValidators vs ns left of
      None \<Rightarrow> left \<le> int (length (filter (\<lambda>v. v \<in> set ns) vs))
    | Some left' \<Rightarrow> 1 \<le> left' \<and> left = left' + int (length (filter (\<lambda>v. v \<in> set ns) vs)))"
proof (induction vs ns left rule: blockValidators.induct)
  case (2 v vs ns left)
  then show ?case by (auto simp: Let_def split: option.splits)
qed simp

lemma blockInner_count:
  "1 \<le> left \<Longrightarrow>
   blockInner qs ns left \<longleftrightarrow> left \<le> int (length (filter (\<lambda>q. isVBlockingInternal q ns) qs))"
  by (induction qs arbitrary: left) (auto simp: Let_def)

lemma length_filter_compl: "length (filter (\<lambda>x. \<not> P x) xs) = length xs - length (filter P xs)"
  using sum_length_filter_compl [of P xs] by simp

lemma isVBlockingInternal_iff:
  "wf_thresholds q \<Longrightarrow> isVBlockingInternal q ns \<longleftrightarrow> \<not> slice_ok q (- set ns)"
proof (induction q)
  case (SCPQuorumSet t vs qs)
  let ?v = "length (filter (\<lambda>v. v \<in> set ns) vs)"
  let ?q = "length (filter (\<lambda>q. isVBlockingInternal q ns) qs)"
  have t: "0 < unat t" "unat t \<le> length vs + length qs" "length vs + length qs < 2 ^ 31 - 1" "t \<noteq> 0"
    using SCPQuorumSet.prems by auto
  have "filter (\<lambda>q. slice_ok q (- set ns)) qs = filter (\<lambda>q. \<not> isVBlockingInternal q ns) qs"
    using SCPQuorumSet by (intro filter_cong) auto
  then have q: "length (filter (\<lambda>q. slice_ok q (- set ns)) qs) = length qs - ?q"
    by (simp add: length_filter_compl)
  have v: "length (filter (\<lambda>v. v \<in> - set ns) vs) = length vs - ?v"
    by (simp add: length_filter_compl)
  have left: "sint (of_nat (1 + length vs + length qs) - t :: uint32) = 1 + int (length vs + length qs) - int (unat t)"
    using leftTillBlock_wf [OF t(2,3)] by (simp add: add.assoc)
  let ?L = "1 + int (length vs + length qs) - int (unat t)"
  have one: "1 \<le> ?L" using t(2) by linarith
  have "isVBlockingInternal (SCPQuorumSet t vs qs) ns =
      (case blockValidators vs ns ?L of None \<Rightarrow> True | Some left' \<Rightarrow> blockInner qs ns left')"
    by (simp only: isVBlockingInternal.simps left t(4) if_False Let_def)
  also have "\<dots> \<longleftrightarrow> ?L \<le> int (?v + ?q)"
    using blockValidators_count [OF one, where vs = vs and ns = ns]
    by (auto simp: blockInner_count split: option.splits)
  finally have "isVBlockingInternal (SCPQuorumSet t vs qs) ns \<longleftrightarrow> ?L \<le> int (?v + ?q)" .
  moreover have "?v \<le> length vs" "?q \<le> length qs" by (rule length_filter_le)+
  moreover have "slice_ok (SCPQuorumSet t vs qs) (- set ns) \<longleftrightarrow> unat t \<le> (length vs - ?v) + (length qs - ?q)"
    by (simp only: slice_ok.simps q v need_wf [OF t(1)])
  ultimately show ?case using t(2) by linarith
qed


locale quorum_slices =
  fixes sat :: "'q \<Rightarrow> 'n set \<Rightarrow> bool"
  assumes sat_mono: "M \<subseteq> N \<Longrightarrow> sat q M \<Longrightarrow> sat q N"
begin

definition quorum :: "('n \<rightharpoonup> 'q) \<Rightarrow> 'n set \<Rightarrow> bool" where
  "quorum Q S \<longleftrightarrow> (\<forall>n \<in> S. \<exists>q. Q n = Some q \<and> sat q S)"

definition blocks :: "'q \<Rightarrow> 'n set \<Rightarrow> bool" where
  "blocks q B \<longleftrightarrow> (\<forall>S. sat q S \<longrightarrow> S \<inter> B \<noteq> {})"

lemma quorumI: "(\<And>n. n \<in> S \<Longrightarrow> \<exists>q. Q n = Some q \<and> sat q S) \<Longrightarrow> quorum Q S"
  by (simp add: quorum_def)

lemma quorum_empty [simp]: "quorum Q {}"
  by (simp add: quorum_def)

lemma quorum_Union:
  assumes "\<And>S. S \<in> F \<Longrightarrow> quorum Q S"
  shows "quorum Q (\<Union>F)"
proof (rule quorumI)
  fix n
  assume "n \<in> \<Union>F"
  then obtain S where S: "S \<in> F" "n \<in> S" by blast
  with assms obtain q where "Q n = Some q" "sat q S" by (fastforce simp: quorum_def)
  moreover have "S \<subseteq> \<Union>F" using S by blast
  ultimately show "\<exists>q. Q n = Some q \<and> sat q (\<Union>F)" using sat_mono by blast
qed

lemma quorum_member_kept:
  assumes "quorum Q S" and "S \<subseteq> P"
  shows "S \<subseteq> {n \<in> P. \<exists>q. Q n = Some q \<and> sat q P}"
  using assms sat_mono [OF assms(2)] by (fastforce simp: quorum_def)

lemma blocks_iff: "blocks q B \<longleftrightarrow> \<not> sat q (- B)"
proof
  show "blocks q B \<Longrightarrow> \<not> sat q (- B)" by (auto simp: blocks_def)
  assume n: "\<not> sat q (- B)"
  show "blocks q B"
    unfolding blocks_def
  proof (intro allI impI notI)
    fix S
    assume "sat q S" "S \<inter> B = {}"
    then have "sat q (- B)" using sat_mono [of S "- B"] by blast
    with n show False by contradiction
  qed
qed

lemma blocks_mono: "A \<subseteq> B \<Longrightarrow> blocks q A \<Longrightarrow> blocks q B"
  by (fastforce simp: blocks_def)

text \<open>
  A blocking set meets every quorum of the node it blocks: this is why a node may accept what
  a v-blocking set has accepted.
\<close>

lemma blocking_meets_quorum: "quorum Q S \<Longrightarrow> n \<in> S \<Longrightarrow> Q n = Some q \<Longrightarrow> blocks q B \<Longrightarrow> S \<inter> B \<noteq> {}"
  by (auto simp: quorum_def blocks_def)

end

interpretation qset_slices: quorum_slices slice_ok
  by unfold_locales (rule slice_ok_mono)

subsection \<open>V-blocking sets meet every slice\<close>

lemma isVBlocking_iff:
  assumes "wf_thresholds q"
  shows "isVBlocking q ns \<longleftrightarrow> (\<forall>S. slice_ok q S \<longrightarrow> S \<inter> set ns \<noteq> {})"
  using qset_slices.blocks_iff [of q "set ns"] isVBlockingInternal_iff [OF assms]
  by (simp add: isVBlocking_def qset_slices.blocks_def)

subsection \<open>Quorums as greatest fixpoints\<close>

definition qsetOf ::
  "(NodeID \<times> SCPEnvelope) list \<Rightarrow> (SCPStatement \<Rightarrow> SCPQuorumSet option) \<Rightarrow> NodeID \<Rightarrow> SCPQuorumSet option"
  where
  "qsetOf m qfun n = Option.bind (map_of m n) (\<lambda>e. qfun (envStatement e))"

lemma quorumFilter_iff:
  "quorumFilter m qfun p n \<longleftrightarrow> (\<exists>q. qsetOf m qfun n = Some q \<and> slice_ok q (set p))"
  by (auto simp: quorumFilter_def qsetOf_def isQuorumSlice_iff split: option.splits)

lemma filter_same_length: "length (filter P xs) = length xs \<Longrightarrow> filter P xs = xs"
  by (metis filter_True length_filter_less less_irrefl)

lemma quorumLoop_subset: "set (quorumLoop m qfun p) \<subseteq> set p"
proof (induction m qfun p rule: quorumLoop.induct)
  case (1 m qfun p)
  then show ?case by (subst quorumLoop.simps) (auto simp: Let_def)
qed

lemma quorumLoop_quorum: "qset_slices.quorum (qsetOf m qfun) (set (quorumLoop m qfun p))"
proof (induction m qfun p rule: quorumLoop.induct)
  case (1 m qfun p)
  let ?f = "filter (quorumFilter m qfun p) p"
  show ?case
  proof (cases "length p = length ?f")
    case True
    then have f: "?f = p" by (intro filter_same_length) simp
    then have "\<forall>n \<in> set p. quorumFilter m qfun p n" by (metis filter_id_conv)
    then have "qset_slices.quorum (qsetOf m qfun) (set p)"
      by (simp add: qset_slices.quorum_def quorumFilter_iff)
    then show ?thesis using f by (subst quorumLoop.simps) simp
  next
    case False
    then show ?thesis using 1 by (subst quorumLoop.simps) (simp add: Let_def)
  qed
qed

lemma quorumLoop_greatest:
  "qset_slices.quorum (qsetOf m qfun) S \<Longrightarrow> S \<subseteq> set p \<Longrightarrow> S \<subseteq> set (quorumLoop m qfun p)"
proof (induction m qfun p rule: quorumLoop.induct)
  case (1 m qfun p)
  let ?f = "filter (quorumFilter m qfun p) p"
  have "S \<subseteq> set ?f"
    using qset_slices.quorum_member_kept [OF "1.prems"] by (auto simp: quorumFilter_iff)
  then show ?case
    using 1 by (subst quorumLoop.simps) (auto simp: Let_def)
qed

lemma isQuorum_iff:
  "isQuorum qSet m qfun flt \<longleftrightarrow>
     (\<exists>S \<subseteq> set (filterNodes m flt).
        (\<forall>n \<in> S. \<exists>q. qsetOf m qfun n = Some q \<and> slice_ok q S) \<and> slice_ok qSet S)"
  (is "?l \<longleftrightarrow> (\<exists>S \<subseteq> ?F. ?quorum S \<and> slice_ok qSet S)")
proof
  let ?S = "set (quorumLoop m qfun (filterNodes m flt))"
  assume ?l
  then have "slice_ok qSet ?S" by (simp add: isQuorum_def isQuorumSlice_iff)
  moreover have "?quorum ?S" using quorumLoop_quorum by (simp add: qset_slices.quorum_def)
  moreover have "?S \<subseteq> ?F" by (rule quorumLoop_subset)
  ultimately show "\<exists>S \<subseteq> ?F. ?quorum S \<and> slice_ok qSet S" by blast
next
  assume "\<exists>S \<subseteq> ?F. ?quorum S \<and> slice_ok qSet S"
  then obtain S where S: "S \<subseteq> ?F" "qset_slices.quorum (qsetOf m qfun) S" "slice_ok qSet S"
    by (auto simp: qset_slices.quorum_def)
  then have "S \<subseteq> set (quorumLoop m qfun (filterNodes m flt))" by (intro quorumLoop_greatest)
  then show ?l using S(3) slice_ok_mono by (simp add: isQuorum_def isQuorumSlice_iff)
qed

lemma filterNodes_mono:
  "(\<And>e. e \<in> snd ` set m \<Longrightarrow> f (envStatement e) \<Longrightarrow> g (envStatement e)) \<Longrightarrow>
   set (filterNodes m f) \<subseteq> set (filterNodes m g)"
  by (force simp: filterNodes_def)

lemma isQuorum_mono:
  "(\<And>e. e \<in> snd ` set m \<Longrightarrow> f (envStatement e) \<Longrightarrow> g (envStatement e)) \<Longrightarrow>
   isQuorum qSet m qfun f \<Longrightarrow> isQuorum qSet m qfun g"
  using filterNodes_mono [of m f g] by (fastforce simp: isQuorum_iff)

subsection \<open>Properties\<close>

text \<open>
  C9: \<open>isQuorum\<close> removes nodes until nothing changes; its answer is exactly that some set of
  nodes that passed the filter satisfies the quorum set of each of its members and the
  given quorum set.
\<close>

theorem isQuorum_correct:
  "isQuorum qSet m qfun flt \<longleftrightarrow>
     (\<exists>S \<subseteq> set (filterNodes m flt).
        (\<forall>n \<in> S. \<exists>q. qsetOf m qfun n = Some q \<and> slice_ok q S) \<and> slice_ok qSet S)"
  by (rule isQuorum_iff)

definition sampleStatement :: "NodeID \<Rightarrow> SCPPledges \<Rightarrow> SCPStatement" where
  "sampleStatement n p = \<lparr>nodeID = n, slotIndex = 1, pledges = p\<rparr>"

definition sampleEnvelope :: "NodeID \<Rightarrow> SCPPledges \<Rightarrow> SCPEnvelope" where
  "sampleEnvelope n p = \<lparr>envStatement = sampleStatement n p, envSignature = []\<rparr>"

definition sampleNomination :: "Value list \<Rightarrow> Value list \<Rightarrow> SCPPledges" where
  "sampleNomination vs acc = SCP_ST_NOMINATE \<lparr>nomQuorumSetHash = 0, votes = vs, accepted = acc\<rparr>"

theorem isQuorum_witness:
  "isQuorum (SCPQuorumSet 2 [1, 2, 3] [])
     [(1, sampleEnvelope 1 (sampleNomination [] [])), (2, sampleEnvelope 2 (sampleNomination [] []))]
     (\<lambda>st. Some (SCPQuorumSet 2 [1, 2, 3] [])) (\<lambda>st. True)"
  unfolding isQuorum_correct
  by (rule exI [of _ "{1, 2}"]) (auto simp: filterNodes_def qsetOf_def need_def)

end
