(* ===== verification/QuorumSetUtils.thy ===== *)
theory QuorumSetUtils
  imports LocalNode "HOL-Library.Multiset"
begin

text \<open>
  \<open>src/src/scp/QuorumSetUtils.cpp\<close>: the sanity check of quorum sets received from the network
  and their normal form. The error strings of the sanity check are the constructors of
  \<open>qset_error\<close>; \<open>Inr\<close> stands for returning true.
\<close>

subsection \<open>Sanity check\<close>

datatype qset_error =
  NestingLevelExceeded | ThresholdZero | ThresholdExceedsEntries | ThresholdBelowVBlocking
| DuplicateNode | NodeCountOutOfRange

definition MAXIMUM_QUORUM_NESTING_LEVEL :: nat where
  "MAXIMUM_QUORUM_NESTING_LEVEL = 4"

fun insertKnown :: "NodeID list \<Rightarrow> NodeID list \<Rightarrow> qset_error + NodeID list" where
  "insertKnown [] known = Inr known"
| "insertKnown (n # ns) known =
     (if n \<in> set known then Inl DuplicateNode else insertKnown ns (set_insert n known))"

text \<open>The state of the checker is \<open>(mKnownNodes, mCount)\<close>.\<close>

fun checkSanity :: "bool \<Rightarrow> SCPQuorumSet \<Rightarrow> nat \<Rightarrow> NodeID list \<times> nat \<Rightarrow> qset_error + (NodeID list \<times> nat)"
  and checkInnerSanity ::
    "bool \<Rightarrow> SCPQuorumSet list \<Rightarrow> nat \<Rightarrow> NodeID list \<times> nat \<Rightarrow> qset_error + (NodeID list \<times> nat)" where
  "checkSanity extraChecks (SCPQuorumSet t vs qs) depth (known, cnt) =
     (if depth > MAXIMUM_QUORUM_NESTING_LEVEL then Inl NestingLevelExceeded
      else if t < 1 then Inl ThresholdZero
      else
        let totEntries = length vs + length qs;
            vBlockingSize = totEntries + 1 - unat t;
            cnt' = cnt + length vs
        in if unat t > totEntries then Inl ThresholdExceedsEntries
           else if extraChecks \<and> unat t < vBlockingSize then Inl ThresholdBelowVBlocking
           else case insertKnown vs known of
                  Inl e \<Rightarrow> Inl e
                | Inr known' \<Rightarrow> checkInnerSanity extraChecks qs (depth + 1) (known', cnt'))"
| "checkInnerSanity extraChecks [] depth st = Inr st"
| "checkInnerSanity extraChecks (q # qs) depth st =
     (case checkSanity extraChecks q depth st of
        Inl e \<Rightarrow> Inl e
      | Inr st' \<Rightarrow> checkInnerSanity extraChecks qs depth st')"

definition isQuorumSetSane :: "SCPQuorumSet \<Rightarrow> bool \<Rightarrow> qset_error + unit" where
  "isQuorumSetSane qSet extraChecks =
     (case checkSanity extraChecks qSet 0 ([], 0) of
        Inl e \<Rightarrow> Inl e
      | Inr (known, cnt) \<Rightarrow> if cnt < 1 \<or> cnt > 1000 then Inl NodeCountOutOfRange else Inr ())"

subsection \<open>Normal form\<close>

text \<open>
  The loop over the inner sets moves singletons to the end of the validators and keeps the
  other sets; \<open>simplifyInner\<close> returns both lists.
\<close>

definition removeNode :: "NodeID option \<Rightarrow> uint32 \<Rightarrow> NodeID list \<Rightarrow> uint32 \<times> NodeID list" where
  "removeNode idToRemove t vs =
     (case idToRemove of
        None \<Rightarrow> (t, vs)
      | Some i \<Rightarrow>
          let vs' = filter (\<lambda>n. n \<noteq> i) vs in (t - of_nat (length vs - length vs'), vs'))"

fun normalizeQSetSimplify :: "NodeID option \<Rightarrow> SCPQuorumSet \<Rightarrow> SCPQuorumSet"
  and simplifyInner ::
    "NodeID option \<Rightarrow> SCPQuorumSet list \<Rightarrow> NodeID list \<Rightarrow> NodeID list \<times> SCPQuorumSet list" where
  "normalizeQSetSimplify idToRemove (SCPQuorumSet t vs qs) =
     (case removeNode idToRemove t vs of
        (t', vs') \<Rightarrow>
          (case simplifyInner idToRemove qs vs' of
             (v, i) \<Rightarrow>
               if t' = 1 \<and> length v = 0 \<and> length i = 1 then last i
               else SCPQuorumSet t' v i))"
| "simplifyInner idToRemove [] v = (v, [])"
| "simplifyInner idToRemove (q # qs) v =
     (case normalizeQSetSimplify idToRemove q of
        SCPQuorumSet t' vs' qs' \<Rightarrow>
          if t' = 1 \<and> length vs' = 1 \<and> length qs' = 0
          then simplifyInner idToRemove qs (v @ [hd vs'])
          else (case simplifyInner idToRemove qs v of
                  (v', i) \<Rightarrow> (v', SCPQuorumSet t' vs' qs' # i)))"

fun intLexicographicalCompare :: "('a \<Rightarrow> 'b \<Rightarrow> int) \<Rightarrow> 'a list \<Rightarrow> 'b list \<Rightarrow> int" where
  "intLexicographicalCompare cmp (x # xs) (y # ys) =
     (let c = cmp x y in if c \<noteq> 0 then c else intLexicographicalCompare cmp xs ys)"
| "intLexicographicalCompare cmp [] (y # ys) = - 1"
| "intLexicographicalCompare cmp (x # xs) [] = 1"
| "intLexicographicalCompare cmp [] [] = 0"

lemma intLexicographicalCompare_cong [fundef_cong]:
  assumes "xs = xs'" "ys = ys'" "\<And>x y. x \<in> set xs' \<Longrightarrow> y \<in> set ys' \<Longrightarrow> cmp x y = cmp' x y"
  shows "intLexicographicalCompare cmp xs ys = intLexicographicalCompare cmp' xs' ys'"
  using assms(3) unfolding assms(1,2)
  by (induction cmp' xs' ys' rule: intLexicographicalCompare.induct) (auto simp: Let_def)

definition compareKeys :: "'a::linorder \<Rightarrow> 'a \<Rightarrow> int" where
  "compareKeys l r = (if l < r then - 1 else if r < l then 1 else 0)"

fun qSetCompareInt :: "SCPQuorumSet \<Rightarrow> SCPQuorumSet \<Rightarrow> int" where
  "qSetCompareInt (SCPQuorumSet lt lv li) (SCPQuorumSet rt rv ri) =
     (let res = intLexicographicalCompare compareKeys lv rv in
      if res \<noteq> 0 then res
      else
        let res = intLexicographicalCompare qSetCompareInt li ri in
        if res \<noteq> 0 then res
        else if lt < rt then - 1 else if lt = rt then 0 else 1)"

text \<open>Three-way comparisons that come from a linear order on the elements of \<open>A\<close>.\<close>

definition is_comparison :: "'a set \<Rightarrow> ('a \<Rightarrow> 'a \<Rightarrow> int) \<Rightarrow> bool" where
  "is_comparison A c \<longleftrightarrow>
     (\<forall>x \<in> A. \<forall>y \<in> A. (c x y = 0 \<longleftrightarrow> x = y) \<and> c y x = - c x y) \<and>
     (\<forall>x \<in> A. \<forall>y \<in> A. \<forall>z \<in> A. c x y \<le> 0 \<longrightarrow> c y z \<le> 0 \<longrightarrow> c x z \<le> 0)"

lemma is_comparisonD:
  assumes "is_comparison A c" "x \<in> A" "y \<in> A"
  shows "c x y = 0 \<longleftrightarrow> x = y" "c y x = - c x y"
    "z \<in> A \<Longrightarrow> c x y \<le> 0 \<Longrightarrow> c y z \<le> 0 \<Longrightarrow> c x z \<le> 0"
  using assms unfolding is_comparison_def by blast+

lemma is_comparisonI:
  assumes eq: "\<And>x y. x \<in> A \<Longrightarrow> y \<in> A \<Longrightarrow> c x y = 0 \<longleftrightarrow> x = y"
    and flip: "\<And>x y. x \<in> A \<Longrightarrow> y \<in> A \<Longrightarrow> c y x = - c x y"
    and trans: "\<And>x y z. x \<in> A \<Longrightarrow> y \<in> A \<Longrightarrow> z \<in> A \<Longrightarrow> c x y \<le> 0 \<Longrightarrow> c y z \<le> 0 \<Longrightarrow> c x z \<le> 0"
  shows "is_comparison A c"
  unfolding is_comparison_def
proof (intro conjI ballI impI)
  fix x y z
  assume A: "x \<in> A" "y \<in> A" "z \<in> A" and le: "c x y \<le> 0" "c y z \<le> 0"
  show "c x z \<le> 0" by (rule trans [OF A le])
qed (rule eq flip; assumption)+

lemma compareKeys_laws:
  "compareKeys x y = 0 \<longleftrightarrow> x = y" "compareKeys y x = - compareKeys x y"
  "compareKeys x y \<le> 0 \<Longrightarrow> compareKeys y z \<le> 0 \<Longrightarrow> compareKeys x z \<le> 0"
  for x y z :: "'a::linorder"
  by (auto simp: compareKeys_def split: if_splits)

lemma is_comparison_keys: "is_comparison UNIV (compareKeys :: 'a::linorder \<Rightarrow> 'a \<Rightarrow> int)"
  by (intro is_comparisonI) (rule compareKeys_laws; assumption?)+

lemma intLex_eq_0:
  assumes "is_comparison A c"
  shows "set xs \<subseteq> A \<Longrightarrow> set ys \<subseteq> A \<Longrightarrow> intLexicographicalCompare c xs ys = 0 \<longleftrightarrow> xs = ys"
proof (induction xs arbitrary: ys)
  case (Cons x xs)
  then show ?case using is_comparisonD(1) [OF assms, of x "hd ys"] by (cases ys) (auto simp: Let_def)
next
  case Nil
  then show ?case by (cases ys) auto
qed

lemma intLex_flip:
  assumes "is_comparison A c"
  shows "set xs \<subseteq> A \<Longrightarrow> set ys \<subseteq> A \<Longrightarrow>
    intLexicographicalCompare c ys xs = - intLexicographicalCompare c xs ys"
proof (induction xs arbitrary: ys)
  case (Cons x xs)
  then show ?case
    using is_comparisonD(1,2) [OF assms, of x "hd ys"] by (cases ys) (auto simp: Let_def)
next
  case Nil
  then show ?case by (cases ys) auto
qed

lemma intLex_trans:
  assumes "is_comparison A c"
  shows "set xs \<subseteq> A \<Longrightarrow> set ys \<subseteq> A \<Longrightarrow> set zs \<subseteq> A \<Longrightarrow>
    intLexicographicalCompare c xs ys \<le> 0 \<Longrightarrow> intLexicographicalCompare c ys zs \<le> 0 \<Longrightarrow>
    intLexicographicalCompare c xs zs \<le> 0"
proof (induction xs arbitrary: ys zs)
  case (Cons x xs)
  then obtain y ys' where ys: "ys = y # ys'" by (cases ys) auto
  with Cons.prems obtain z zs' where zs: "zs = z # zs'" by (cases zs) auto
  have A: "x \<in> A" "y \<in> A" "z \<in> A" using Cons.prems ys zs by auto
  note D = is_comparisonD [OF assms]
  have le: "c x y \<le> 0" "c y z \<le> 0"
    using Cons.prems ys zs by (auto simp: Let_def split: if_splits)
  then have xz: "c x z \<le> 0" using D(3) A by blast
  show ?case
  proof (cases "c x z = 0")
    case True
    then have "x = z" using D(1) A by blast
    then have "c x y = 0" using le D(2) [of x y] A by simp
    then have "x = y" using D(1) A by blast
    have "intLexicographicalCompare c xs zs' \<le> 0"
    proof (rule Cons.IH)
      show "intLexicographicalCompare c xs ys' \<le> 0"
        using Cons.prems(4) \<open>c x y = 0\<close> by (simp add: ys)
      show "intLexicographicalCompare c ys' zs' \<le> 0"
        using Cons.prems(5) \<open>c x y = 0\<close> \<open>x = y\<close> \<open>x = z\<close> by (simp add: ys zs)
    qed (use Cons.prems(1-3) ys zs in auto)
    then show ?thesis using True by (simp add: zs)
  next
    case False
    then show ?thesis using xz zs by (simp add: Let_def)
  qed
next
  case Nil
  then show ?case by (cases zs) auto
qed

lemma is_comparison_lex:
  "is_comparison A c \<Longrightarrow> is_comparison {xs. set xs \<subseteq> A} (intLexicographicalCompare c)"
  by (rule is_comparisonI; elim CollectE)
    (erule intLex_eq_0 intLex_flip intLex_trans; assumption)+

definition thenCompare :: "('a \<Rightarrow> 'a \<Rightarrow> int) \<Rightarrow> ('b \<Rightarrow> 'b \<Rightarrow> int) \<Rightarrow> 'a \<times> 'b \<Rightarrow> 'a \<times> 'b \<Rightarrow> int" where
  "thenCompare c d l r = (if c (fst l) (fst r) \<noteq> 0 then c (fst l) (fst r) else d (snd l) (snd r))"

lemma is_comparison_then:
  assumes c: "is_comparison A c" and d: "is_comparison B d"
  shows "is_comparison (A \<times> B) (thenCompare c d)"
proof (rule is_comparisonI)
  fix x y z
  assume x: "x \<in> A \<times> B" and y: "y \<in> A \<times> B"
  then have xA: "fst x \<in> A" "snd x \<in> B" and yA: "fst y \<in> A" "snd y \<in> B" by auto
  note C = is_comparisonD [OF c] and D = is_comparisonD [OF d]
  show "thenCompare c d x y = 0 \<longleftrightarrow> x = y"
    using C(1) [OF xA(1) yA(1)] D(1) [OF xA(2) yA(2)] by (auto simp: thenCompare_def prod_eq_iff)
  show "thenCompare c d y x = - thenCompare c d x y"
    unfolding thenCompare_def C(2) [OF xA(1) yA(1)] D(2) [OF xA(2) yA(2)] by simp
  assume z: "z \<in> A \<times> B" and xy: "thenCompare c d x y \<le> 0" and yz: "thenCompare c d y z \<le> 0"
  then have zA: "fst z \<in> A" "snd z \<in> B" by auto
  have le: "c (fst x) (fst y) \<le> 0" "c (fst y) (fst z) \<le> 0"
    using xy yz by (auto simp: thenCompare_def split: if_splits)
  note xz = C(3) [OF xA(1) yA(1) zA(1) le]
  show "thenCompare c d x z \<le> 0"
  proof (cases "c (fst x) (fst z) = 0")
    case True
    then have eq: "fst x = fst z" using C(1) [OF xA(1) zA(1)] by simp
    then have "c (fst x) (fst y) = 0" using le C(2) [OF xA(1) yA(1)] by simp
    moreover from this have "c (fst y) (fst z) = 0" using eq C(2) [OF xA(1) yA(1)] by simp
    ultimately have "d (snd x) (snd y) \<le> 0" "d (snd y) (snd z) \<le> 0"
      using xy yz by (simp_all add: thenCompare_def)
    then have "d (snd x) (snd z) \<le> 0" by (rule D(3) [OF xA(2) yA(2) zA(2)])
    then show ?thesis using True by (simp add: thenCompare_def)
  next
    case False
    then show ?thesis using xz by (simp add: thenCompare_def)
  qed
qed

lemma is_comparison_inj:
  assumes "is_comparison A c" "\<And>x. x \<in> B \<Longrightarrow> f x \<in> A" "\<And>x y. f x = f y \<Longrightarrow> x = y"
  shows "is_comparison B (\<lambda>x y. c (f x) (f y))"
proof (rule is_comparisonI)
  fix x y z
  assume B: "x \<in> B" "y \<in> B"
  then have A: "f x \<in> A" "f y \<in> A" using assms(2) by blast+
  show "c (f x) (f y) = 0 \<longleftrightarrow> x = y" using is_comparisonD(1) [OF assms(1) A] assms(3) [of x y] by auto
  show "c (f y) (f x) = - c (f x) (f y)" by (rule is_comparisonD(2) [OF assms(1) A])
  assume "z \<in> B" "c (f x) (f y) \<le> 0" "c (f y) (f z) \<le> 0"
  then show "c (f x) (f z) \<le> 0" using is_comparisonD(3) [OF assms(1) A] assms(2) by blast
qed

lemma is_comparison_qset_step:
  assumes "is_comparison A qSetCompareInt" "\<And>q. q \<in> B \<Longrightarrow> set (innerSets q) \<subseteq> A"
  shows "is_comparison B qSetCompareInt"
proof -
  let ?c = "thenCompare (intLexicographicalCompare (compareKeys :: NodeID \<Rightarrow> NodeID \<Rightarrow> int))
    (thenCompare (intLexicographicalCompare qSetCompareInt) (compareKeys :: uint32 \<Rightarrow> uint32 \<Rightarrow> int))"
  let ?f = "\<lambda>q. (validators q, innerSets q, threshold q)"
  note C = is_comparison_then [OF is_comparison_lex [OF is_comparison_keys]
    is_comparison_then [OF is_comparison_lex [OF assms(1)] is_comparison_keys]]
  have "qSetCompareInt a b = ?c (?f a) (?f b)" for a b
    by (cases a; cases b) (simp add: Let_def thenCompare_def compareKeys_def)
  then have "qSetCompareInt = (\<lambda>a b. ?c (?f a) (?f b))" by blast
  moreover have "is_comparison B (\<lambda>a b. ?c (?f a) (?f b))"
    by (rule is_comparison_inj [OF C]) (use assms(2) in \<open>auto intro: SCPQuorumSet.expand\<close>)
  ultimately show ?thesis by simp
qed

lemma is_comparison_qset_size: "is_comparison {q. size q < n} qSetCompareInt"
proof (induction n)
  case 0
  then show ?case by (simp add: is_comparison_def)
next
  case (Suc n)
  have *: "set (innerSets q) \<subseteq> {q. size q < n}" if "q \<in> {q. size q < Suc n}" for q
  proof
    fix x
    assume x: "x \<in> set (innerSets q)"
    have "size x \<le> size_list size (innerSets q)"
      using x by (rule size_list_estimation') simp
    then show "x \<in> {q. size q < n}" using that by (cases q) simp
  qed
  show ?case by (rule is_comparison_qset_step [OF Suc *])
qed

lemma is_comparison_qset: "is_comparison UNIV qSetCompareInt"
proof -
  have *: "is_comparison {q. size q < Suc (size x + size y + size z)} qSetCompareInt" for x y z :: SCPQuorumSet
    by (rule is_comparison_qset_size)
  show ?thesis
  proof (rule is_comparisonI)
    fix x y z
    show "qSetCompareInt x y = 0 \<longleftrightarrow> x = y" "qSetCompareInt y x = - qSetCompareInt x y"
      by (rule is_comparisonD(1,2) [OF * [of x y x]]; simp)+
    show "qSetCompareInt x y \<le> 0 \<Longrightarrow> qSetCompareInt y z \<le> 0 \<Longrightarrow> qSetCompareInt x z \<le> 0"
      by (rule is_comparisonD(3) [OF * [of x y z]]; simp)
  qed
qed

instantiation SCPQuorumSet :: linorder
begin

definition less_eq_SCPQuorumSet :: "SCPQuorumSet \<Rightarrow> SCPQuorumSet \<Rightarrow> bool" where
  "less_eq_SCPQuorumSet l r \<longleftrightarrow> qSetCompareInt l r \<le> 0"

definition less_SCPQuorumSet :: "SCPQuorumSet \<Rightarrow> SCPQuorumSet \<Rightarrow> bool" where
  "less_SCPQuorumSet l r \<longleftrightarrow> qSetCompareInt l r < 0"

instance
proof
  fix x y z :: SCPQuorumSet
  note D = is_comparisonD [OF is_comparison_qset UNIV_I UNIV_I]
  show "x < y \<longleftrightarrow> x \<le> y \<and> \<not> y \<le> x" "x \<le> x" "x \<le> y \<or> y \<le> x" "x \<le> y \<Longrightarrow> y \<le> x \<Longrightarrow> x = y"
    using D(2) [of x y] D(1) [of x y] D(1) [of x x]
    by (auto simp: less_eq_SCPQuorumSet_def less_SCPQuorumSet_def)
  show "x \<le> y \<Longrightarrow> y \<le> z \<Longrightarrow> x \<le> z"
    using D(3) [OF UNIV_I, of x y z] by (simp add: less_eq_SCPQuorumSet_def)
qed

end

text \<open>
  \<open>std::sort\<close> with a comparison that is a linear order has one possible result, the sorted list.
\<close>

fun normalizeQuorumSetReorder :: "SCPQuorumSet \<Rightarrow> SCPQuorumSet" where
  "normalizeQuorumSetReorder (SCPQuorumSet t vs qs) =
     SCPQuorumSet t (sort vs) (sort (map normalizeQuorumSetReorder qs))"

definition normalizeQSet :: "NodeID option \<Rightarrow> SCPQuorumSet \<Rightarrow> SCPQuorumSet" where
  "normalizeQSet idToRemove qSet = normalizeQuorumSetReorder (normalizeQSetSimplify idToRemove qSet)"

subsection \<open>What the sanity check accepts\<close>

text \<open>
  The declarative reading of the check: at most five levels of sets, every threshold between 1
  and the number of entries (and above half of them when \<open>extraChecks\<close> is set).
\<close>

fun sane_levels :: "bool \<Rightarrow> nat \<Rightarrow> SCPQuorumSet \<Rightarrow> bool" where
  "sane_levels extraChecks depth (SCPQuorumSet t vs qs) \<longleftrightarrow>
     depth \<le> 4 \<and> 0 < unat t \<and> unat t \<le> length vs + length qs \<and>
     (extraChecks \<longrightarrow> length vs + length qs < 2 * unat t) \<and>
     (\<forall>q \<in> set qs. sane_levels extraChecks (depth + 1) q)"

abbreviation addNodes :: "NodeID list \<Rightarrow> NodeID list \<Rightarrow> NodeID list" where
  "addNodes \<equiv> foldl (\<lambda>acc n. set_insert n acc)"

lemma insertKnown_eq:
  "insertKnown ns known =
     (if distinct ns \<and> set ns \<inter> set known = {} then Inr (addNodes known ns) else Inl DuplicateNode)"
  by (induction ns known rule: insertKnown.induct) auto

definition sanity_result ::
  "bool \<Rightarrow> NodeID list \<Rightarrow> NodeID list \<times> nat \<Rightarrow> qset_error + (NodeID list \<times> nat) \<Rightarrow> bool" where
  "sanity_result ok ns st r \<longleftrightarrow>
     (if ok \<and> distinct ns \<and> set ns \<inter> set (fst st) = {}
      then r = Inr (addNodes (fst st) ns, snd st + length ns) else isl r)"

lemma sanity_result_append:
  assumes "sanity_result a ns st r" "\<And>st'. r = Inr st' \<Longrightarrow> sanity_result b ms st' (f st')"
  shows "sanity_result (a \<and> b) (ns @ ms) st (case r of Inl e \<Rightarrow> Inl e | Inr st' \<Rightarrow> f st')"
  using assms by (cases r) (auto simp: sanity_result_def set_foldl_set_insert add.assoc split: if_splits)

lemma checkInnerSanity_result:
  "(\<And>q st. q \<in> set qs \<Longrightarrow> sanity_result (sane_levels extra d q) (allNodes q) st (checkSanity extra q d st)) \<Longrightarrow>
   sanity_result (\<forall>q \<in> set qs. sane_levels extra d q) (concat (map allNodes qs)) st
     (checkInnerSanity extra qs d st)"
proof (induction qs arbitrary: st)
  case Nil
  then show ?case by (cases st) (simp add: sanity_result_def)
next
  case (Cons q qs)
  have "sanity_result (sane_levels extra d q \<and> (\<forall>q \<in> set qs. sane_levels extra d q))
      (allNodes q @ concat (map allNodes qs)) st (checkInnerSanity extra (q # qs) d st)"
    unfolding checkInnerSanity.simps by (intro sanity_result_append Cons) auto
  then show ?case by simp
qed

lemma checkSanity_result:
  "sanity_result (sane_levels extra d q) (allNodes q) st (checkSanity extra q d st)"
proof (induction q arbitrary: d st)
  case (SCPQuorumSet t vs qs)
  obtain known cnt where st: "st = (known, cnt)" by (cases st)
  let ?ok = "d \<le> 4 \<and> 0 < unat t \<and> unat t \<le> length vs + length qs \<and>
    (extra \<longrightarrow> length vs + length qs < 2 * unat t)"
  have rest: "sanity_result (\<forall>q \<in> set qs. sane_levels extra (d + 1) q) (concat (map allNodes qs)) st'
      (checkInnerSanity extra qs (d + 1) st')" for st'
    by (rule checkInnerSanity_result) (rule SCPQuorumSet.IH)
  show ?case
  proof (cases "?ok \<and> distinct vs \<and> set vs \<inter> set known = {}")
    case True
    then have "checkSanity extra (SCPQuorumSet t vs qs) d st =
        checkInnerSanity extra qs (d + 1) (addNodes known vs, cnt + length vs)"
      by (auto simp: st MAXIMUM_QUORUM_NESTING_LEVEL_def insertKnown_eq Let_def)
    then show ?thesis
      using True rest [of "(addNodes known vs, cnt + length vs)"]
      by (auto simp: sanity_result_def st set_foldl_set_insert add.assoc split: if_splits)
  next
    case False
    then have "isl (checkSanity extra (SCPQuorumSet t vs qs) d st)"
      by (auto simp: st MAXIMUM_QUORUM_NESTING_LEVEL_def insertKnown_eq Let_def unat_gt_0)
    then show ?thesis using False by (auto simp: sanity_result_def st)
  qed
qed

lemma isQuorumSetSane_spec:
  "isQuorumSetSane q extra = Inr () \<longleftrightarrow>
     sane_levels extra 0 q \<and> distinct (allNodes q) \<and> length (allNodes q) \<in> {1..1000}"
  using checkSanity_result [of extra 0 q "([], 0)"]
  by (auto simp: isQuorumSetSane_def sanity_result_def Suc_le_eq split: if_splits sum.splits)

lemma sane_levels_mono_depth: "sane_levels extra d q \<Longrightarrow> e \<le> d \<Longrightarrow> sane_levels extra e q"
proof (induction q arbitrary: d e)
  case (SCPQuorumSet t vs qs)
  have "sane_levels extra (Suc e) q" if "q \<in> set qs" for q
    using SCPQuorumSet.IH [OF that, of "Suc d" "Suc e"] SCPQuorumSet.prems that by simp
  then show ?case using SCPQuorumSet.prems by simp
qed

lemma set_of_inner_allNodes: "q \<in> set qs \<Longrightarrow> length (allNodes q) \<le> length (concat (map allNodes qs))"
  by (induction qs) auto

lemma sane_levels_nonempty: "sane_levels extra d q \<Longrightarrow> allNodes q \<noteq> []"
proof (induction q arbitrary: d)
  case (SCPQuorumSet t vs qs)
  show ?case
  proof (cases vs)
    case Nil
    then obtain q qs' where "qs = q # qs'" using SCPQuorumSet.prems by (cases qs) auto
    then show ?thesis using SCPQuorumSet by auto
  qed simp
qed

lemma length_concat_nonempty: "(\<And>x. x \<in> set xs \<Longrightarrow> f x \<noteq> []) \<Longrightarrow> length xs \<le> length (concat (map f xs))"
proof (induction xs)
  case (Cons x xs)
  then have "f x \<noteq> []" "length xs \<le> length (concat (map f xs))" by auto
  then show ?case by (cases "f x") auto
qed simp

lemma sane_levels_wf:
  "sane_levels extra d q \<Longrightarrow> length (allNodes q) \<le> 1000 \<Longrightarrow> wf_thresholds q"
proof (induction q arbitrary: d)
  case (SCPQuorumSet t vs qs)
  have "length qs \<le> length (concat (map allNodes qs))"
    using SCPQuorumSet.prems(1) by (intro length_concat_nonempty) (auto dest: sane_levels_nonempty)
  then have "length vs + length qs \<le> 1000" using SCPQuorumSet.prems(2) by simp
  moreover have "wf_thresholds q" if "q \<in> set qs" for q
    using SCPQuorumSet set_of_inner_allNodes [OF that] that by auto
  ultimately show ?case using SCPQuorumSet.prems(1) by simp
qed

lemma sane_wf_thresholds: "isQuorumSetSane q extra = Inr () \<Longrightarrow> wf_thresholds q"
  by (auto simp: isQuorumSetSane_spec intro: sane_levels_wf)

subsection \<open>Normalization keeps the meaning\<close>

lemma need_1 [simp]: "need 1 = 1"
  by (simp add: need_def)

definition isSingleton :: "SCPQuorumSet \<Rightarrow> bool" where
  "isSingleton q \<longleftrightarrow> threshold q = 1 \<and> length (validators q) = 1 \<and> innerSets q = []"

lemma isSingletonE:
  assumes "isSingleton q"
  obtains x where "q = SCPQuorumSet 1 [x] []" "hd (validators q) = x"
  using assms by (cases q) (auto simp: isSingleton_def length_Suc_conv)

lemma simplifyInner_eq:
  "simplifyInner i qs v =
     (let ns = map (normalizeQSetSimplify i) qs in
      (v @ map (\<lambda>q. hd (validators q)) (filter isSingleton ns), filter (\<lambda>q. \<not> isSingleton q) ns))"
proof (induction qs arbitrary: v)
  case (Cons q qs)
  then show ?case
    by (cases "normalizeQSetSimplify i q") (simp add: isSingleton_def Let_def)
qed simp

lemma simplify_None:
  "normalizeQSetSimplify None (SCPQuorumSet t vs qs) =
     (let ns = map (normalizeQSetSimplify None) qs;
          v = vs @ map (\<lambda>q. hd (validators q)) (filter isSingleton ns);
          i = filter (\<lambda>q. \<not> isSingleton q) ns
      in if t = 1 \<and> v = [] \<and> length i = 1 then hd i else SCPQuorumSet t v i)"
  by (auto simp: removeNode_def simplifyInner_eq Let_def length_Suc_conv)

lemma filter_singletons_slice:
  "length (filter (\<lambda>n. n \<in> N) (map (\<lambda>q. hd (validators q)) (filter isSingleton ns))) +
   length (filter (\<lambda>q. slice_ok q N) (filter (\<lambda>q. \<not> isSingleton q) ns)) =
   length (filter (\<lambda>q. slice_ok q N) ns)"
  by (induction ns) (auto elim: isSingletonE)

text \<open>
  The shape of one simplification step, for inner sets that are simplified already: the
  singletons move to the validators, and a set around a single set disappears.
\<close>

declare normalizeQSetSimplify.simps [simp del]

lemma simplify_cases:
  assumes "normalizeQSetSimplify None (SCPQuorumSet t vs qs) = r"
    and "ns = map (normalizeQSetSimplify None) qs"
  obtains q where "t = 1" "vs = []" "filter isSingleton ns = []" "filter (\<lambda>q. \<not> isSingleton q) ns = [q]" "r = q"
    | "\<not> (t = 1 \<and> vs = [] \<and> filter isSingleton ns = [] \<and> length (filter (\<lambda>q. \<not> isSingleton q) ns) = 1)"
      "r = SCPQuorumSet t (vs @ map (\<lambda>q. hd (validators q)) (filter isSingleton ns))
             (filter (\<lambda>q. \<not> isSingleton q) ns)"
proof (cases "t = 1 \<and> vs = [] \<and> filter isSingleton ns = [] \<and> length (filter (\<lambda>q. \<not> isSingleton q) ns) = 1")
  case True
  then obtain q where "filter (\<lambda>q. \<not> isSingleton q) ns = [q]" by (auto simp: length_Suc_conv)
  moreover from this True have "r = q"
    using assms(1) unfolding simplify_None Let_def assms(2) [symmetric] by simp
  ultimately show ?thesis using True that(1) by blast
next
  case False
  then show ?thesis using assms(1) unfolding simplify_None Let_def assms(2) [symmetric]
    by (intro that(2)) (auto simp del: filter_map)
qed

lemma simplify_slice_ok: "slice_ok (normalizeQSetSimplify None q) N \<longleftrightarrow> slice_ok q N"
proof (induction q)
  case (SCPQuorumSet t vs qs)
  define ns where "ns = map (normalizeQSetSimplify None) qs"
  have ns: "length (filter (\<lambda>q. slice_ok q N) ns) = length (filter (\<lambda>q. slice_ok q N) qs)"
    using SCPQuorumSet.IH unfolding ns_def by (induction qs) auto
  note f = filter_singletons_slice [of N ns]
  show ?case
  proof (rule simplify_cases [OF refl ns_def, of t vs])
    fix q
    assume *: "t = 1" "vs = []" "filter isSingleton ns = []" "filter (\<lambda>q. \<not> isSingleton q) ns = [q]"
      "normalizeQSetSimplify None (SCPQuorumSet t vs qs) = q"
    show ?thesis unfolding *(5) using f ns by (simp add: *(1-4) split: if_splits)
  next
    assume *: "normalizeQSetSimplify None (SCPQuorumSet t vs qs) =
      SCPQuorumSet t (vs @ map (\<lambda>q. hd (validators q)) (filter isSingleton ns))
        (filter (\<lambda>q. \<not> isSingleton q) ns)"
    show ?thesis unfolding * slice_ok.simps using f ns by (simp only: filter_append length_append add.assoc)
  qed
qed

lemma reorder_slice_ok: "slice_ok (normalizeQuorumSetReorder q) N \<longleftrightarrow> slice_ok q N"
proof (induction q)
  case (SCPQuorumSet t vs qs)
  have "length (filter (\<lambda>q. slice_ok q N) (map normalizeQuorumSetReorder qs)) =
      length (filter (\<lambda>q. slice_ok q N) qs)"
    using SCPQuorumSet.IH by (induction qs) auto
  then show ?case by (simp add: filter_sort)
qed

lemma normalizeQSet_slice_ok: "slice_ok (normalizeQSet None q) N \<longleftrightarrow> slice_ok q N"
  by (simp add: normalizeQSet_def reorder_slice_ok simplify_slice_ok)


subsection \<open>Normalization keeps the nodes and the sanity of a set\<close>

lemma length_filter_both: "length (filter P xs) + length (filter (\<lambda>x. \<not> P x) xs) = length xs"
  by (simp add: sum_length_filter_compl)

lemma simplify_sane: "sane_levels extra d q \<Longrightarrow> sane_levels extra d (normalizeQSetSimplify None q)"
proof (induction q arbitrary: d)
  case (SCPQuorumSet t vs qs)
  define ns where "ns = map (normalizeQSetSimplify None) qs"
  have sane: "sane_levels extra (d + 1) q" if "q \<in> set ns" for q
    using that SCPQuorumSet by (auto simp: ns_def)
  have len: "length qs = length (filter isSingleton ns) + length (filter (\<lambda>q. \<not> isSingleton q) ns)"
    by (simp add: length_filter_both) (simp add: ns_def)
  show ?case
  proof (rule simplify_cases [OF refl ns_def, of t vs])
    fix q
    assume "filter (\<lambda>q. \<not> isSingleton q) ns = [q]" and eq: "normalizeQSetSimplify None (SCPQuorumSet t vs qs) = q"
    then have "q \<in> set ns" by (auto simp: filter_eq_Cons_iff)
    then show ?thesis unfolding eq by (intro sane_levels_mono_depth [OF sane]) auto
  next
    assume *: "normalizeQSetSimplify None (SCPQuorumSet t vs qs) =
      SCPQuorumSet t (vs @ map (\<lambda>q. hd (validators q)) (filter isSingleton ns))
        (filter (\<lambda>q. \<not> isSingleton q) ns)"
    show ?thesis unfolding * using SCPQuorumSet.prems sane by (auto simp: len add.assoc)
  qed
qed

lemma mset_singletons:
  "mset (map (\<lambda>q. hd (validators q)) (filter isSingleton ns)) +
   mset (concat (map allNodes (filter (\<lambda>q. \<not> isSingleton q) ns))) = mset (concat (map allNodes ns))"
  by (induction ns) (auto elim: isSingletonE)

lemma simplify_nodes: "mset (allNodes (normalizeQSetSimplify None q)) = mset (allNodes q)"
proof (induction q)
  case (SCPQuorumSet t vs qs)
  define ns where "ns = map (normalizeQSetSimplify None) qs"
  have ns: "mset (concat (map allNodes ns)) = mset (concat (map allNodes qs))"
    using SCPQuorumSet.IH unfolding ns_def by (induction qs) auto
  note f = mset_singletons [of ns]
  show ?case
  proof (rule simplify_cases [OF refl ns_def, of t vs])
    fix q
    assume *: "vs = []" "filter isSingleton ns = []" "filter (\<lambda>q. \<not> isSingleton q) ns = [q]"
      "normalizeQSetSimplify None (SCPQuorumSet t vs qs) = q"
    show ?thesis unfolding *(4) using f ns by (simp add: *(1-3))
  next
    assume *: "normalizeQSetSimplify None (SCPQuorumSet t vs qs) =
      SCPQuorumSet t (vs @ map (\<lambda>q. hd (validators q)) (filter isSingleton ns))
        (filter (\<lambda>q. \<not> isSingleton q) ns)"
    show ?thesis unfolding * using f ns by simp
  qed
qed

lemma reorder_sane: "sane_levels extra d q \<Longrightarrow> sane_levels extra d (normalizeQuorumSetReorder q)"
  by (induction q arbitrary: d) auto

lemma mset_concat_sort: "mset (concat (map f (sort xs))) = mset (concat (map f xs))"
  by (simp add: mset_concat flip: sum_mset_sum_list)

lemma reorder_nodes: "mset (allNodes (normalizeQuorumSetReorder q)) = mset (allNodes q)"
proof (induction q)
  case (SCPQuorumSet t vs qs)
  have "mset (concat (map allNodes (map normalizeQuorumSetReorder qs))) = mset (concat (map allNodes qs))"
    using SCPQuorumSet.IH by (induction qs) auto
  then show ?case by (simp add: mset_concat_sort del: map_map)
qed

lemma normalizeQSet_nodes: "mset (allNodes (normalizeQSet None q)) = mset (allNodes q)"
  by (simp add: normalizeQSet_def reorder_nodes simplify_nodes)

lemma normalizeQSet_sane:
  assumes "isQuorumSetSane q extra = Inr ()"
  shows "isQuorumSetSane (normalizeQSet None q) extra = Inr ()"
proof -
  note m = normalizeQSet_nodes [of q]
  have "distinct (allNodes (normalizeQSet None q)) = distinct (allNodes q)"
    using m by (metis mset_eq_imp_distinct_iff)
  moreover have "length (allNodes (normalizeQSet None q)) = length (allNodes q)"
    using m by (rule mset_eq_length)
  moreover have "sane_levels extra 0 (normalizeQSet None q)"
    using assms by (simp add: normalizeQSet_def isQuorumSetSane_spec reorder_sane simplify_sane)
  ultimately show ?thesis using assms by (simp add: isQuorumSetSane_spec)
qed

subsection \<open>Normal forms\<close>

fun simplified :: "SCPQuorumSet \<Rightarrow> bool" where
  "simplified (SCPQuorumSet t vs qs) \<longleftrightarrow>
     \<not> (t = 1 \<and> vs = [] \<and> length qs = 1) \<and> (\<forall>q \<in> set qs. \<not> isSingleton q \<and> simplified q)"

lemma simplify_simplified: "simplified (normalizeQSetSimplify None q)"
proof (induction q)
  case (SCPQuorumSet t vs qs)
  define ns where "ns = map (normalizeQSetSimplify None) qs"
  have simp: "simplified q" if "q \<in> set ns" for q
    using that SCPQuorumSet by (auto simp: ns_def)
  show ?case
  proof (rule simplify_cases [OF refl ns_def, of t vs])
    fix q
    assume "filter (\<lambda>q. \<not> isSingleton q) ns = [q]" and eq: "normalizeQSetSimplify None (SCPQuorumSet t vs qs) = q"
    then have "q \<in> set ns" by (auto simp: filter_eq_Cons_iff)
    then show ?thesis unfolding eq by (rule simp)
  next
    assume n: "\<not> (t = 1 \<and> vs = [] \<and> filter isSingleton ns = [] \<and> length (filter (\<lambda>q. \<not> isSingleton q) ns) = 1)"
      and *: "normalizeQSetSimplify None (SCPQuorumSet t vs qs) =
      SCPQuorumSet t (vs @ map (\<lambda>q. hd (validators q)) (filter isSingleton ns))
        (filter (\<lambda>q. \<not> isSingleton q) ns)"
    show ?thesis unfolding * using n simp by auto
  qed
qed

lemma simplified_id: "simplified q \<Longrightarrow> normalizeQSetSimplify None q = q"
proof (induction q)
  case (SCPQuorumSet t vs qs)
  have ns: "map (normalizeQSetSimplify None) qs = qs" using SCPQuorumSet by (simp add: map_idI)
  moreover have "filter isSingleton qs = []" "filter (\<lambda>q. \<not> isSingleton q) qs = qs"
    using SCPQuorumSet.prems by (auto simp: filter_empty_conv filter_id_conv)
  ultimately show ?case using SCPQuorumSet.prems by (auto simp: simplify_None Let_def)
qed

lemma reorder_singleton: "isSingleton (normalizeQuorumSetReorder q) \<longleftrightarrow> isSingleton q"
proof -
  have "sort (map normalizeQuorumSetReorder qs) = [] \<longleftrightarrow> qs = []" for qs
    by (metis length_0_conv length_map length_sort)
  then show ?thesis by (cases q) (auto simp: isSingleton_def)
qed

lemma reorder_simplified: "simplified q \<Longrightarrow> simplified (normalizeQuorumSetReorder q)"
proof (induction q)
  case (SCPQuorumSet t vs qs)
  have "sort vs = [] \<longleftrightarrow> vs = []" by (metis length_0_conv length_sort)
  then show ?case using SCPQuorumSet by (auto simp: reorder_singleton)
qed

lemma reorder_idem: "normalizeQuorumSetReorder (normalizeQuorumSetReorder q) = normalizeQuorumSetReorder q"
proof (induction q)
  case (SCPQuorumSet t vs qs)
  have "map normalizeQuorumSetReorder (sort (map normalizeQuorumSetReorder qs)) = sort (map normalizeQuorumSetReorder qs)"
    using SCPQuorumSet.IH by (intro map_idI) auto
  then show ?case by (simp add: sorted_sort_id)
qed

lemma normalizeQSet_idem: "normalizeQSet None (normalizeQSet None q) = normalizeQSet None q"
  by (simp add: normalizeQSet_def reorder_simplified simplify_simplified simplified_id reorder_idem)

subsection \<open>Properties\<close>

text \<open>
  C33: \<open>isQuorumSetSane\<close> accepts a quorum set exactly when it has at most five levels, every
  threshold lies between 1 and the number of entries (and above half of them with
  \<open>extraChecks\<close>), no node occurs twice in the whole tree, and it has 1 to 1000 nodes.
\<close>

theorem isQuorumSetSane_correct:
  "isQuorumSetSane q extra = Inr () \<longleftrightarrow>
     sane_levels extra 0 q \<and> distinct (allNodes q) \<and> length (allNodes q) \<in> {1..1000}"
  by (rule isQuorumSetSane_spec)

text \<open>
  C10: for every quorum set that passes the sanity check, \<open>isVBlocking\<close> (which counts with 32-bit
  signed arithmetic) answers whether the nodes meet every set of nodes that satisfies it.
\<close>

theorem isVBlocking_correct:
  assumes "isQuorumSetSane q extra = Inr ()"
  shows "isVBlocking q ns \<longleftrightarrow> (\<forall>S. slice_ok q S \<longrightarrow> S \<inter> set ns \<noteq> {})"
  by (rule isVBlocking_iff [OF sane_wf_thresholds [OF assms]])

theorem isVBlocking_witness: "isVBlocking (SCPQuorumSet 2 [1, 2] [SCPQuorumSet 1 [3] []]) [1, 3]"
proof -
  have sane: "isQuorumSetSane (SCPQuorumSet 2 [1, 2] [SCPQuorumSet 1 [3] []]) False = Inr ()"
    by code_simp
  show ?thesis unfolding isVBlocking_correct [OF sane] by (auto simp: need_def split: if_splits)
qed

text \<open>
  C32: normalizing a quorum set changes neither which sets of nodes satisfy it nor the multiset of
  its nodes, and a normalized set is a fixed point of normalization.
\<close>

theorem normalizeQSet_correct:
  "isQuorumSlice (normalizeQSet None q) ns = isQuorumSlice q ns \<and>
   mset (allNodes (normalizeQSet None q)) = mset (allNodes q) \<and>
   normalizeQSet None (normalizeQSet None q) = normalizeQSet None q"
  by (simp add: isQuorumSlice_iff normalizeQSet_slice_ok normalizeQSet_nodes normalizeQSet_idem)

text \<open>a quorum set that passes the sanity check still passes it after normalization.\<close>

lemma normalizeQSet_keeps_sanity:
  assumes "isQuorumSetSane q extra = Inr ()"
  shows "isQuorumSetSane (normalizeQSet None q) extra = Inr ()"
  by (rule normalizeQSet_sane [OF assms])

lemma normalizeQSet_keeps_sanity_witness:
  "isQuorumSetSane (normalizeQSet None (SCPQuorumSet 2 [2, 1] [SCPQuorumSet 1 [3] []])) True = Inr ()"
  by (rule normalizeQSet_keeps_sanity) code_simp

end
