(* ===== verification/QuorumReports.thy ===== *)
theory QuorumReports
  imports QuorumSetUtils
begin

text \<open>
  Lemmas on the parts of \<open>LocalNode\<close> that other components and the operators use: visiting all
  nodes of a quorum set, node weights, and the closest v-blocking set.
\<close>

subsection \<open>Visiting all nodes\<close>

lemma forAllValidators_fold:
  "(\<And>n s. fst (proc n s)) \<Longrightarrow> forAllValidators vs proc s = (True, fold (\<lambda>n s. snd (proc n s)) vs s)"
  by (induction vs arbitrary: s) (auto simp: case_prod_beta)

lemma forAllInner_fold:
  assumes "\<And>q s. q \<in> set qs \<Longrightarrow> forAllNodes q proc s = (True, fold (\<lambda>n s. snd (proc n s)) (allNodes q) s)"
  shows "forAllInner qs proc s = (True, fold (\<lambda>n s. snd (proc n s)) (concat (map allNodes qs)) s)"
  using assms by (induction qs arbitrary: s) auto

lemma forAllNodes_fold:
  assumes "\<And>n s. fst (proc n s)"
  shows "forAllNodes q proc s = (True, fold (\<lambda>n s. snd (proc n s)) (allNodes q) s)"
proof (induction q arbitrary: s)
  case (SCPQuorumSet t vs qs)
  then show ?case using assms by (simp add: forAllValidators_fold forAllInner_fold)
qed

subsection \<open>Weights\<close>

lemma computeWeight_returns:
  assumes "0 < thr" "thr \<le> tot"
  shows "\<exists>w. computeWeight m tot thr = Inr w \<and>
    unat w = round_div ROUND_UP (unat m * unat thr) (unat tot) \<and> w \<le> m \<and> (w = 0 \<longleftrightarrow> m = 0)"
proof -
  have t: "0 < unat thr" "unat thr \<le> unat tot" "0 < unat tot" "0 < tot"
    using assms by (auto simp: word_less_nat_alt word_le_nat_alt)
  let ?q = "round_div ROUND_UP (unat m * unat thr) (unat tot)"
  have up: "?q \<le> unat m"
  proof (cases "unat m = 0")
    case True
    then show ?thesis using t by (simp add: round_div_def)
  next
    case False
    then have "(?q - 1) * unat tot < unat m * unat thr"
      using round_up_div_bounds(2) [OF t(3), of "unat m * unat thr"] t(1) by simp
    also have "\<dots> \<le> unat m * unat tot" using t(2) by simp
    finally show ?thesis using t(3) by auto
  qed
  have "unat m * unat thr \<le> ?q * unat tot" by (rule round_up_div_bounds(1) [OF t(3)])
  then have "?q = 0 \<longleftrightarrow> unat m = 0" using t(1) up by (metis le_zero_eq mult_0 mult_eq_0_iff neq0_conv)
  moreover have "?q \<le> 18446744073709551615" using up u64_bound [of m] by simp
  moreover from this have "unat (word_of_nat ?q :: uint64) = ?q"
    by (simp add: unsigned_of_nat take_bit_nat_eq_self)
  moreover have "computeWeight m tot thr = Inr (word_of_nat ?q)"
    using assms calculation bigDivideUnsigned_exact [OF t(4), of m thr ROUND_UP]
    by (simp add: computeWeight_def)
  moreover from calculation have "(word_of_nat ?q :: uint64) \<le> m" "(word_of_nat ?q :: uint64) = 0 \<longleftrightarrow> m = 0"
    using up by (simp_all add: word_le_nat_alt word_unat_eq_iff)
  ultimately show ?thesis by blast
qed

lemma unat_ucast_32_64: "unat (ucast (t :: uint32) :: uint64) = unat t"
  using unsigned_less [of t, where ?'a = nat] by (simp add: unsigned_ucast_eq take_bit_nat_eq_self)

lemma wf_weight_params:
  assumes "wf_thresholds (SCPQuorumSet t vs qs)"
  shows "0 < (ucast t :: uint64)" "ucast t \<le> (of_nat (length qs + length vs) :: uint64)"
proof -
  note u = unat_ucast_32_64 [of t]
  have "unat (of_nat (length qs + length vs) :: uint64) = length qs + length vs"
    using assms by (simp add: unsigned_of_nat take_bit_nat_eq_self del: of_nat_add)
  then show "0 < (ucast t :: uint64)" "ucast t \<le> (of_nat (length qs + length vs) :: uint64)"
    using assms u by (auto simp: word_less_nat_alt word_le_nat_alt simp del: of_nat_add)
qed

lemma innerWeight_returns:
  assumes "0 < n" "n \<le> d"
    and "\<And>q. q \<in> set qs \<Longrightarrow> \<exists>w. getNodeWeight nid q = Inr w \<and> (w = 0 \<longleftrightarrow> nid \<notin> set (allNodes q))"
  shows "\<exists>w. innerWeight nid qs d n = Inr w \<and> (w = 0 \<longleftrightarrow> nid \<notin> set (concat (map allNodes qs)))"
  using assms(3)
proof (induction qs)
  case (Cons q qs)
  then obtain w where w: "getNodeWeight nid q = Inr w" "w = 0 \<longleftrightarrow> nid \<notin> set (allNodes q)"
    by auto
  show ?case
  proof (cases "w = 0")
    case True
    then show ?thesis using w Cons by auto
  next
    case False
    then show ?thesis using w computeWeight_returns [OF assms(1,2), of w] by auto
  qed
qed simp

lemma getNodeWeight_returns:
  "wf_thresholds q \<Longrightarrow> \<exists>w. getNodeWeight nid q = Inr w \<and> (w = 0 \<longleftrightarrow> nid \<notin> set (allNodes q))"
proof (induction q)
  case (SCPQuorumSet t vs qs)
  note p = wf_weight_params [OF SCPQuorumSet.prems]
  show ?case
  proof (cases "nid \<in> set vs")
    case True
    then show ?thesis using computeWeight_returns [OF p, of UINT64_MAX] by (auto simp: Let_def)
  next
    case False
    moreover have "\<exists>w. innerWeight nid qs (of_nat (length qs + length vs)) (ucast t) = Inr w \<and>
        (w = 0 \<longleftrightarrow> nid \<notin> set (concat (map allNodes qs)))"
      using SCPQuorumSet by (intro innerWeight_returns [OF p]) auto
    ultimately show ?thesis by (auto simp: Let_def)
  qed
qed

subsection \<open>The closest v-blocking set\<close>

lemma unat_minus_one_0: "0 < unat (x :: uint64) \<Longrightarrow> x - 1 = 0 \<longleftrightarrow> unat x = 1"
proof -
  have "x - 1 = 0 \<longleftrightarrow> x = 1" by simp
  then show ?thesis by (simp add: word_unat_eq_iff [of x 1])
qed

lemma unat_minus_one_pos: "0 < unat (x :: uint64) \<Longrightarrow> unat (x - 1) = unat x - 1"
  by (subst unat_minus_one) auto

lemma closestValidators_count:
  "0 < unat left \<Longrightarrow>
   (case closestValidators vs nodes None left res of
      None \<Rightarrow> unat left \<le> length (filter (\<lambda>v. v \<notin> set nodes) vs)
    | Some (left', res') \<Rightarrow> 0 < unat left' \<and>
        unat left = unat left' + length (filter (\<lambda>v. v \<notin> set nodes) vs) \<and>
        res' = res @ filter (\<lambda>v. v \<in> set nodes) vs)"
proof (induction vs arbitrary: left res)
  case (Cons v vs)
  show ?case
  proof (cases "v \<in> set nodes \<or> left - 1 = 0")
    case True
    then show ?thesis using Cons.prems Cons.IH [of left "res @ [v]"] unat_minus_one_0 [OF Cons.prems]
      by (auto simp: Let_def split: option.splits prod.splits)
  next
    case False
    then have "0 < unat (left - 1)" "unat left = Suc (unat (left - 1))"
      using unat_minus_one_0 [OF Cons.prems] unat_minus_one_pos [OF Cons.prems] Cons.prems by auto
    then show ?thesis using False Cons.IH [of "left - 1" res]
      by (auto simp: Let_def split: option.splits prod.splits)
  qed
qed simp

lemma mset_insertBySize [simp]: "mset (insertBySize v ws) = add_mset v (mset ws)"
  by (induction v ws rule: insertBySize.induct) auto

lemma closestInner_count:
  "0 < unat left \<Longrightarrow>
   (case closestInner qs nodes None left acc of
      None \<Rightarrow> unat left \<le> length (filter (\<lambda>q. findClosestVBlocking q nodes None = []) qs)
    | Some (left', acc') \<Rightarrow> 0 < unat left' \<and>
        unat left = unat left' + length (filter (\<lambda>q. findClosestVBlocking q nodes None = []) qs) \<and>
        mset acc' = mset acc + mset (filter (\<lambda>v. v \<noteq> []) (map (\<lambda>q. findClosestVBlocking q nodes None) qs)))"
proof (induction qs arbitrary: left acc)
  case (Cons q qs)
  let ?v = "findClosestVBlocking q nodes None"
  show ?case
  proof (cases "?v \<noteq> [] \<or> left - 1 = 0")
    case True
    then show ?thesis using Cons.prems Cons.IH [of left "insertBySize ?v acc"] unat_minus_one_0 [OF Cons.prems]
      by (auto simp: Let_def split: option.splits prod.splits)
  next
    case False
    then have "0 < unat (left - 1)" "unat left = Suc (unat (left - 1))"
      using unat_minus_one_0 [OF Cons.prems] unat_minus_one_pos [OF Cons.prems] Cons.prems by auto
    then show ?thesis using False Cons.IH [of "left - 1" acc]
      by (auto simp: Let_def split: option.splits prod.splits)
  qed
qed simp

lemma closestTake_concat: "closestTake left res vs = res @ concat (take (unat left) vs)"
proof (induction left res vs rule: closestTake.induct)
  case (2 left res v vs)
  show ?case
  proof (cases "left = 0")
    case False
    then have "unat left = Suc (unat (left - 1))" by (simp add: unat_minus_one unat_gt_0)
    then show ?thesis using 2 False by simp
  qed simp
qed simp


lemma length_filter_mset_eq: "mset xs = mset ys \<Longrightarrow> length (filter P xs) = length (filter P ys)"
  by (metis mset_filter size_mset)

lemma length_filter_take_le: "length (filter P (take k xs)) \<le> length (filter P xs)"
  by (metis append_take_drop_id filter_append le_add1 length_append)

lemma blocked_inner_count:
  fixes c :: "SCPQuorumSet \<Rightarrow> NodeID list"
  assumes acc: "mset acc = mset (filter (\<lambda>v. v \<noteq> []) (map c qs))"
    and bl: "\<And>q r. q \<in> set qs \<Longrightarrow> set (c q) \<subseteq> r \<Longrightarrow> \<not> slice_ok q (N - r)"
    and r: "set (concat (take k acc)) \<subseteq> r"
  shows "length (filter (\<lambda>q. c q = []) qs) + min k (length acc)
    \<le> length (filter (\<lambda>q. \<not> slice_ok q (N - r)) qs)"
proof -
  let ?P = "\<lambda>v. set v \<subseteq> r"
  have "min k (length acc) = length (filter ?P (take k acc))"
    using r by (subst filter_True) (auto simp: min.commute)
  also have "\<dots> \<le> length (filter ?P acc)" by (rule length_filter_take_le)
  also have "\<dots> = length (filter ?P (filter (\<lambda>v. v \<noteq> []) (map c qs)))"
    by (rule length_filter_mset_eq [OF acc])
  also have "\<dots> = length (filter (\<lambda>q. set (c q) \<subseteq> r \<and> c q \<noteq> []) qs)"
    by (simp add: filter_map o_def conj_commute)
  finally have "length (filter (\<lambda>q. c q = []) qs) + min k (length acc)
    \<le> length (filter (\<lambda>q. c q = []) qs) + length (filter (\<lambda>q. set (c q) \<subseteq> r \<and> c q \<noteq> []) qs)"
    by simp
  also have "\<dots> \<le> length (filter (\<lambda>q. set (c q) \<subseteq> r) qs)"
    by (induction qs) auto
  also have "\<dots> \<le> length (filter (\<lambda>q. \<not> slice_ok q (N - r)) qs)"
    using bl by (intro length_filter_mono) auto
  finally show ?thesis .
qed

lemma blocked_entries:
  assumes "0 < unat t" "unat t \<le> length vs + length qs"
    and "1 + length vs + length qs - unat t \<le>
      length (filter (\<lambda>v. v \<notin> N) vs) + length (filter (\<lambda>q. \<not> slice_ok q N) qs)"
  shows "\<not> slice_ok (SCPQuorumSet t vs qs) N"
proof -
  have "length (filter (\<lambda>v. v \<notin> N) vs) = length vs - length (filter (\<lambda>v. v \<in> N) vs)"
    "length (filter (\<lambda>q. \<not> slice_ok q N) qs) = length qs - length (filter (\<lambda>q. slice_ok q N) qs)"
    by (rule length_filter_compl)+
  moreover have "length (filter (\<lambda>v. v \<in> N) vs) \<le> length vs" "length (filter (\<lambda>q. slice_ok q N) qs) \<le> length qs"
    by (rule length_filter_le)+
  ultimately show ?thesis
    using assms need_wf [OF assms(1)] by (simp only: slice_ok.simps)
qed

lemma closest_start:
  fixes t :: uint32
  assumes "0 < unat t" "unat t \<le> n" "n < 2 ^ 31 - 1"
  shows "unat (of_nat (1 + n) - ucast t :: uint64) = 1 + n - unat t"
proof -
  note u = unat_ucast_32_64 [of t]
  have n: "unat (of_nat (1 + n) :: uint64) = 1 + n"
    using assms(3) by (simp add: unsigned_of_nat take_bit_nat_eq_self del: of_nat_Suc of_nat_add)
  then show ?thesis using assms u by (subst unat_sub) (auto simp: word_le_nat_alt)
qed

lemma filter_split_le:
  "length (filter (\<lambda>v. v \<notin> N) vs) + length (filter (\<lambda>v. v \<in> N \<and> v \<in> r) vs) \<le> length (filter (\<lambda>v. v \<notin> N - r) vs)"
  by (induction vs) auto

lemma take_min_filter: "length (filter (\<lambda>v. v \<notin> N - set (take k (filter (\<lambda>v. v \<in> N) vs))) vs)
   \<ge> length (filter (\<lambda>v. v \<notin> N) vs) + min k (length (filter (\<lambda>v. v \<in> N) vs))"
proof -
  let ?in = "filter (\<lambda>v. v \<in> N) vs" and ?r = "set (take k (filter (\<lambda>v. v \<in> N) vs))"
  have "min k (length ?in) = length (filter (\<lambda>v. v \<in> ?r) (take k ?in))"
    by (subst filter_True) (auto simp: min.commute)
  also have "\<dots> \<le> length (filter (\<lambda>v. v \<in> ?r) ?in)" by (rule length_filter_take_le)
  also have "\<dots> = length (filter (\<lambda>v. v \<in> N \<and> v \<in> ?r) vs)" by (simp add: conj_commute)
  finally have "length (filter (\<lambda>v. v \<notin> N) vs) + min k (length ?in)
    \<le> length (filter (\<lambda>v. v \<notin> N) vs) + length (filter (\<lambda>v. v \<in> N \<and> v \<in> ?r) vs)" by simp
  also have "\<dots> \<le> length (filter (\<lambda>v. v \<notin> N - ?r) vs)" by (rule filter_split_le)
  finally show ?thesis .
qed


lemma findClosest_blocks_step:
  fixes N :: "NodeID set" and vs :: "NodeID list"
  defines "present \<equiv> filter (\<lambda>v. v \<in> N) vs"
  assumes t: "0 < unat t" "unat t \<le> length vs + length qs"
    and left: "1 + length vs + length qs - unat t =
      l2 + length (filter (\<lambda>q. c q = []) qs) + length (filter (\<lambda>v. v \<notin> N) vs)" "0 < l2"
    and acc: "mset acc = mset (filter (\<lambda>v. v \<noteq> []) (map c qs))"
    and bl: "\<And>q r. q \<in> set qs \<Longrightarrow> set (c q) \<subseteq> r \<Longrightarrow> \<not> slice_ok q (N - r)"
    and sub: "\<And>q. q \<in> set qs \<Longrightarrow> set (c q) \<subseteq> N"
    and r: "r = take l2 present @ concat (take (l2 - length (take l2 present)) acc)"
  shows "\<not> slice_ok (SCPQuorumSet t vs qs) (N - set r) \<and> set r \<subseteq> N \<and> r \<noteq> []"
proof -
  let ?k = "l2 - length (take l2 present)"
  have len: "length acc = length (filter (\<lambda>q. c q \<noteq> []) qs)"
    using arg_cong [OF acc, of size] by (simp only: size_mset filter_map length_map o_def)
  then have total: "length acc + length (filter (\<lambda>q. c q = []) qs) = length qs"
    using sum_length_filter_compl [of "\<lambda>q. c q = []" qs] by simp
  have total': "length present + length (filter (\<lambda>v. v \<notin> N) vs) = length vs"
    using sum_length_filter_compl [of "\<lambda>v. v \<in> N" vs] by (simp add: present_def)
  have enough: "l2 \<le> length present + length acc" using t left total total' by linarith
  have "length (filter (\<lambda>v. v \<notin> N - set (take l2 present)) vs) \<le> length (filter (\<lambda>v. v \<notin> N - set r) vs)"
    using r by (intro length_filter_mono) auto
  then have v: "length (filter (\<lambda>v. v \<notin> N) vs) + min l2 (length present) \<le> length (filter (\<lambda>v. v \<notin> N - set r) vs)"
    using take_min_filter [where N = N and k = l2 and vs = vs] by (simp add: present_def)
  have q: "length (filter (\<lambda>q. c q = []) qs) + min ?k (length acc) \<le> length (filter (\<lambda>q. \<not> slice_ok q (N - set r)) qs)"
    using r by (intro blocked_inner_count [OF acc bl]) auto
  have "\<not> slice_ok (SCPQuorumSet t vs qs) (N - set r)"
    using v q [unfolded length_take] enough left by (intro blocked_entries [OF t]) linarith
  moreover have acc_set: "set acc = {v \<in> c ` set qs. v \<noteq> []}"
    using arg_cong [OF acc, of set_mset] by auto
  have "set r \<subseteq> N"
    using sub acc_set by (auto simp: r present_def dest!: in_set_takeD) (meson subsetD)
  moreover have "r \<noteq> []"
  proof (cases "present = []")
    case True
    then have "acc \<noteq> []" using enough left(2) by auto
    then obtain a as where "acc = a # as" by (cases acc) auto
    moreover from this have "a \<noteq> []" using acc_set by auto
    ultimately show ?thesis using True left(2) by (cases l2) (auto simp: r)
  next
    case False
    then show ?thesis using left(2) by (simp add: r)
  qed
  ultimately show ?thesis by blast
qed

lemma findClosest_already:
  fixes N :: "NodeID set"
  assumes t: "0 < unat t" "unat t \<le> length vs + length qs"
    and "1 + length vs + length qs - unat t \<le>
      length (filter (\<lambda>v. v \<notin> N) vs) + length (filter (\<lambda>q. c q = []) qs)"
    and bl: "\<And>q r. q \<in> set qs \<Longrightarrow> set (c q) \<subseteq> r \<Longrightarrow> \<not> slice_ok q (N - r)"
  shows "\<not> slice_ok (SCPQuorumSet t vs qs) N"
proof (rule blocked_entries [OF t])
  have "length (filter (\<lambda>q. c q = []) qs) \<le> length (filter (\<lambda>q. \<not> slice_ok q N) qs)"
    using bl [of _ "{}"] by (intro length_filter_mono) auto
  then show "1 + length vs + length qs - unat t \<le>
      length (filter (\<lambda>v. v \<notin> N) vs) + length (filter (\<lambda>q. \<not> slice_ok q N) qs)"
    using assms(3) by linarith
qed

lemma findClosest_main:
  "wf_thresholds q \<Longrightarrow>
   \<not> slice_ok q (set nodes - set (findClosestVBlocking q nodes None)) \<and>
   set (findClosestVBlocking q nodes None) \<subseteq> set nodes"
proof (induction q)
  case (SCPQuorumSet t vs qs)
  let ?c = "\<lambda>q. findClosestVBlocking q nodes None"
  let ?N = "set nodes"
  let ?left = "of_nat (1 + length vs + length qs) - ucast t :: uint64"
  have t: "0 < unat t" "unat t \<le> length vs + length qs" "length vs + length qs < 2 ^ 31 - 1"
    using SCPQuorumSet.prems by auto
  have left: "unat ?left = 1 + length vs + length qs - unat t"
    using closest_start [OF t] by (simp only: add.assoc)
  then have left0: "0 < unat ?left" using t by simp
  have bl: "\<not> slice_ok q (?N - r)" if "q \<in> set qs" "set (?c q) \<subseteq> r" for q r
  proof -
    have "wf_thresholds q" using that(1) SCPQuorumSet.prems by simp
    then have "\<not> slice_ok q (?N - set (?c q))" using SCPQuorumSet.IH that(1) by blast
    moreover have "?N - r \<subseteq> ?N - set (?c q)" using that(2) by blast
    ultimately show ?thesis using slice_ok_mono by blast
  qed
  have sub: "set (?c q) \<subseteq> ?N" if "q \<in> set qs" for q
    using that SCPQuorumSet by auto
  note cv = closestValidators_count [OF left0, where vs = vs and nodes = nodes and res = "[]"]
  show ?case
  proof (cases "closestValidators vs nodes None ?left []")
    case None
    then have "?c (SCPQuorumSet t vs qs) = []" by (simp only: findClosestVBlocking.simps Let_def option.case)
    moreover have "\<not> slice_ok (SCPQuorumSet t vs qs) ?N"
      using None cv left by (intro findClosest_already [OF t(1,2) _ bl]) auto
    ultimately show ?thesis by simp
  next
    case (Some p)
    then obtain l1 where l1: "closestValidators vs nodes None ?left [] = Some (l1, filter (\<lambda>v. v \<in> ?N) vs)"
      "0 < unat l1" "unat ?left = unat l1 + length (filter (\<lambda>v. v \<notin> ?N) vs)"
      using cv by (cases p) auto
    note ci = closestInner_count [OF l1(2), where qs = qs and nodes = nodes and acc = "[]"]
    show ?thesis
    proof (cases "closestInner qs nodes None l1 []")
      case None
      then have "?c (SCPQuorumSet t vs qs) = []"
        using l1(1) by (simp only: findClosestVBlocking.simps Let_def option.case prod.case)
      moreover have "\<not> slice_ok (SCPQuorumSet t vs qs) ?N"
        using None ci left l1(3) by (intro findClosest_already [OF t(1,2) _ bl]) auto
      ultimately show ?thesis by simp
    next
      case (Some p2)
      then obtain l2 acc where l2: "closestInner qs nodes None l1 [] = Some (l2, acc)"
        "0 < unat l2" "unat l1 = unat l2 + length (filter (\<lambda>q. ?c q = []) qs)"
        "mset acc = mset (filter (\<lambda>v. v \<noteq> []) (map ?c qs))"
        using ci by (cases p2) auto
      let ?p = "filter (\<lambda>v. v \<in> ?N) vs"
      have small: "unat (of_nat (length ?p) :: uint64) = length ?p"
        using t(3) length_filter_le [of "\<lambda>v. v \<in> ?N" vs]
        by (simp add: unsigned_of_nat take_bit_nat_eq_self del: length_filter_le)
      let ?res = "if of_nat (length ?p) > l2 then take (unat l2) ?p else ?p"
      have res: "?res = take (unat l2) ?p"
        using small by (simp add: word_less_nat_alt)
      have "unat (of_nat (length (take (unat l2) ?p)) :: uint64) = length (take (unat l2) ?p)"
        using unsigned_less [of l2, where ?'a = nat]
        by (simp add: unsigned_of_nat take_bit_nat_eq_self min_def)
      then have l3: "unat (l2 - of_nat (length (take (unat l2) ?p))) = unat l2 - length (take (unat l2) ?p)"
        by (subst unat_sub) (simp_all add: word_le_nat_alt)
      have "?c (SCPQuorumSet t vs qs) = take (unat l2) ?p @ concat (take (unat l2 - length (take (unat l2) ?p)) acc)"
        by (simp only: findClosestVBlocking.simps Let_def l1(1) l2(1) option.case prod.case res closestTake_concat l3)
      then show ?thesis
        using findClosest_blocks_step [OF t(1,2) _ l2(2,4) bl sub] left l1(3) l2(3) by simp
    qed
  qed
qed


lemma findClosestVBlocking_blocks:
  assumes "wf_thresholds q"
  shows "set (findClosestVBlocking q nodes None) \<subseteq> set nodes \<and>
    isVBlocking q (filter (\<lambda>n. n \<notin> set nodes \<or> n \<in> set (findClosestVBlocking q nodes None)) (allNodes q))"
proof -
  let ?r = "findClosestVBlocking q nodes None"
  let ?B = "filter (\<lambda>n. n \<notin> set nodes \<or> n \<in> set ?r) (allNodes q)"
  note main = findClosest_main [OF assms, of nodes]
  have "- set ?B \<inter> set (allNodes q) \<subseteq> set nodes - set ?r" by auto
  then have "\<not> slice_ok q (- set ?B \<inter> set (allNodes q))" using main slice_ok_mono by blast
  then have "\<not> slice_ok q (- set ?B)" by (simp only: slice_ok_Int_allNodes not_False_eq_True)
  then show ?thesis using main isVBlockingInternal_iff [OF assms] by (simp only: isVBlocking_def) simp
qed

subsection \<open>Properties\<close>

text \<open>
  for a sane quorum set \<open>getNodeWeight\<close> never trips the assertion of the 128-bit division,
  and the weight is 0 exactly for the nodes that do not occur in the set.
\<close>

lemma getNodeWeight_correct:
  assumes "isQuorumSetSane q extra = Inr ()"
  shows "\<exists>w. getNodeWeight nid q = Inr w \<and> (w = 0 \<longleftrightarrow> nid \<notin> set (allNodes q))"
  by (rule getNodeWeight_returns [OF sane_wf_thresholds [OF assms]])

theorem getNodeWeight_witness:
  "\<exists>w. getNodeWeight 3 (SCPQuorumSet 2 [1, 2] [SCPQuorumSet 1 [3] []]) = Inr w \<and> w \<noteq> 0"
proof -
  have "isQuorumSetSane (SCPQuorumSet 2 [1, 2] [SCPQuorumSet 1 [3] []]) False = Inr ()" by code_simp
  from getNodeWeight_correct [OF this, of 3] show ?thesis by auto
qed

text \<open>
  \<open>findClosestVBlocking\<close> (with no excluded node) returns nodes of \<open>nodes\<close> whose loss, on top
  of the nodes that are already missing, blocks the quorum set.
\<close>

lemma findClosestVBlocking_correct:
  assumes "isQuorumSetSane q extra = Inr ()"
  shows "set (findClosestVBlocking q nodes None) \<subseteq> set nodes \<and>
    isVBlocking q (filter (\<lambda>n. n \<notin> set nodes \<or> n \<in> set (findClosestVBlocking q nodes None)) (allNodes q))"
  by (rule findClosestVBlocking_blocks [OF sane_wf_thresholds [OF assms]])

theorem findClosestVBlocking_witness:
  "set (findClosestVBlocking (SCPQuorumSet 2 [1, 2] [SCPQuorumSet 1 [3] []]) [1, 2, 3] None) \<subseteq> {1, 2, 3} \<and>
   isQuorumSetSane (SCPQuorumSet 2 [1, 2] [SCPQuorumSet 1 [3] []]) False = Inr ()"
proof -
  have "isQuorumSetSane (SCPQuorumSet 2 [1, 2] [SCPQuorumSet 1 [3] []]) False = Inr ()" by code_simp
  with findClosestVBlocking_correct [OF this, of "[1, 2, 3]"] show ?thesis by auto
qed

end
