(* ===== verification/SCPState.thy ===== *)
theory SCPState
  imports QuorumReports
begin

text \<open>
  The state of one consensus slot and what the two protocols running in it share: the driver
  they call (\<open>SCPDriver\<close>), the fields of \<open>BallotProtocol\<close>, \<open>NominationProtocol\<close> and \<open>Slot\<close>,
  federated voting and the helpers of \<open>src/src/scp/Slot.cpp\<close>.

  The virtual methods of \<open>SCPDriver\<close> that return something are fields of \<open>SCPContext\<close>; those that
  only notify append an event to \<open>mEvents\<close>. Throws, failed assertions and dereferences of a null
  pointer are the values of \<open>scp_error\<close>.
\<close>

subsection \<open>Errors, levels, phases\<close>

datatype scp_error =
  DbgAssert | DbgAbort | NullDeref | BadState | MaxTransitions | CannotSetState
| NumericError numeric_error | OutOfFuel | Diverges

definition dbgAssert :: "bool \<Rightarrow> scp_error + unit" where
  "dbgAssert b = (if b then Inr () else Inl DbgAssert)"

definition deref :: "'a option \<Rightarrow> scp_error + 'a" where
  "deref p = (case p of None \<Rightarrow> Inl NullDeref | Some x \<Rightarrow> Inr x)"

datatype SCPPhase = SCP_PHASE_PREPARE | SCP_PHASE_CONFIRM | SCP_PHASE_EXTERNALIZE

datatype ValidationLevel = kInvalidValue | kMaybeValidValue | kFullyValidatedValue

datatype EnvelopeState = INVALID | VALID

datatype SCPStatementType = TYPE_PREPARE | TYPE_CONFIRM | TYPE_EXTERNALIZE | TYPE_NOMINATE

definition pledgesType :: "SCPPledges \<Rightarrow> SCPStatementType" where
  "pledgesType p =
     (case p of
        SCP_ST_PREPARE _ \<Rightarrow> TYPE_PREPARE
      | SCP_ST_CONFIRM _ \<Rightarrow> TYPE_CONFIRM
      | SCP_ST_EXTERNALIZE _ \<Rightarrow> TYPE_EXTERNALIZE
      | SCP_ST_NOMINATE _ \<Rightarrow> TYPE_NOMINATE)"

text \<open>The enumerations are ordered by their numeric values.\<close>

primrec phaseRank :: "SCPPhase \<Rightarrow> nat" where
  "phaseRank SCP_PHASE_PREPARE = 0"
| "phaseRank SCP_PHASE_CONFIRM = 1"
| "phaseRank SCP_PHASE_EXTERNALIZE = 2"

primrec typeRank :: "SCPStatementType \<Rightarrow> nat" where
  "typeRank TYPE_PREPARE = 0"
| "typeRank TYPE_CONFIRM = 1"
| "typeRank TYPE_EXTERNALIZE = 2"
| "typeRank TYPE_NOMINATE = 3"

primrec levelRank :: "ValidationLevel \<Rightarrow> nat" where
  "levelRank kInvalidValue = 0"
| "levelRank kMaybeValidValue = 1"
| "levelRank kFullyValidatedValue = 2"

instantiation SCPPhase :: linorder
begin

definition less_eq_SCPPhase :: "SCPPhase \<Rightarrow> SCPPhase \<Rightarrow> bool" where
  "less_eq_SCPPhase a b \<longleftrightarrow> phaseRank a \<le> phaseRank b"

definition less_SCPPhase :: "SCPPhase \<Rightarrow> SCPPhase \<Rightarrow> bool" where
  "less_SCPPhase a b \<longleftrightarrow> phaseRank a < phaseRank b"

instance
proof
  fix x y z :: SCPPhase
  show "x \<le> y \<Longrightarrow> y \<le> x \<Longrightarrow> x = y"
    by (cases x; cases y) (simp_all add: less_eq_SCPPhase_def)
qed (auto simp: less_eq_SCPPhase_def less_SCPPhase_def)

end

instantiation SCPStatementType :: linorder
begin

definition less_eq_SCPStatementType :: "SCPStatementType \<Rightarrow> SCPStatementType \<Rightarrow> bool" where
  "less_eq_SCPStatementType a b \<longleftrightarrow> typeRank a \<le> typeRank b"

definition less_SCPStatementType :: "SCPStatementType \<Rightarrow> SCPStatementType \<Rightarrow> bool" where
  "less_SCPStatementType a b \<longleftrightarrow> typeRank a < typeRank b"

instance
proof
  fix x y z :: SCPStatementType
  show "x \<le> y \<Longrightarrow> y \<le> x \<Longrightarrow> x = y"
    by (cases x; cases y) (simp_all add: less_eq_SCPStatementType_def)
qed (auto simp: less_eq_SCPStatementType_def less_SCPStatementType_def)

end

instantiation ValidationLevel :: linorder
begin

definition less_eq_ValidationLevel :: "ValidationLevel \<Rightarrow> ValidationLevel \<Rightarrow> bool" where
  "less_eq_ValidationLevel a b \<longleftrightarrow> levelRank a \<le> levelRank b"

definition less_ValidationLevel :: "ValidationLevel \<Rightarrow> ValidationLevel \<Rightarrow> bool" where
  "less_ValidationLevel a b \<longleftrightarrow> levelRank a < levelRank b"

instance
proof
  fix x y z :: ValidationLevel
  show "x \<le> y \<Longrightarrow> y \<le> x \<Longrightarrow> x = y"
    by (cases x; cases y) (simp_all add: less_eq_ValidationLevel_def)
qed (auto simp: less_eq_ValidationLevel_def less_ValidationLevel_def)

end

subsection \<open>The driver and its events\<close>

text \<open>
  The arguments that are hashed for leader election, before their XDR encoding
  (\<open>xdr_to_opaque\<close>, a library function, is a field of the context).
\<close>

datatype hash_input =
  HashSlot uint64 | HashValue Value | HashTag uint32 | HashRound int | HashNode NodeID

record SCPContext =
  localNodeID :: NodeID
  localIsValidator :: bool
  localQSet :: SCPQuorumSet
  localQSetHash :: Hash
  slotIdx :: uint64
  signEnvelope :: "SCPStatement \<Rightarrow> Signature"
  getQSet :: "Hash \<Rightarrow> SCPQuorumSet option"
  validateValue :: "uint64 \<Rightarrow> Value \<Rightarrow> bool \<Rightarrow> ValidationLevel"
  extractValidValue :: "uint64 \<Rightarrow> Value \<Rightarrow> Value option"
  combineCandidates :: "uint64 \<Rightarrow> Value list \<Rightarrow> Value option"
  xdr_to_opaque :: "hash_input \<Rightarrow> uint8 list"
  getHashOf :: "uint8 list list \<Rightarrow> Hash"

datatype timerIDs = NOMINATION_TIMER | BALLOT_PROTOCOL_TIMER

datatype timer_callback = BallotProtocolTimerExpired | NominateTimedOut Value Value

datatype driver_event =
  EmitEnvelope SCPEnvelope
| SetupTimer timerIDs nat "timer_callback option"
| ValueExternalized Value
| NominatingValue Value
| UpdatedCandidateValue Value
| StartedBallotProtocol SCPBallot
| AcceptedBallotPrepared SCPBallot
| ConfirmedBallotPrepared SCPBallot
| AcceptedCommit SCPBallot
| BallotDidHearFromQuorum SCPBallot

subsection \<open>The state of a slot\<close>

text \<open>
  The fields of the three classes in one record, extended class by class. Smart pointers are
  options; \<open>ValueWrapper\<close> and \<open>SCPBallotWrapper\<close> only cache their contents.
\<close>

record BallotProtocol =
  mHeardFromQuorum :: bool
  mCurrentBallot :: "SCPBallot option"
  mPrepared :: "SCPBallot option"
  mPreparedPrime :: "SCPBallot option"
  mHighBallot :: "SCPBallot option"
  mCommit :: "SCPBallot option"
  mLatestEnvelopes :: "(NodeID \<times> SCPEnvelope) list"
  mPhase :: SCPPhase
  mValueOverride :: "Value option"
  mCurrentMessageLevel :: nat
  mTimerExpCount :: nat
  mLastEnvelope :: "SCPEnvelope option"
  mLastEnvelopeEmit :: "SCPEnvelope option"

record NominationProtocol = BallotProtocol +
  mRoundNumber :: int
  mVotes :: "Value list"
  mAccepted :: "Value list"
  mCandidates :: "Value list"
  mLatestNominations :: "(NodeID \<times> SCPEnvelope) list"
  mNominationLastEnvelope :: "SCPEnvelope option"
  mRoundLeaders :: "NodeID list"
  mNominationStarted :: bool
  mLatestCompositeCandidate :: "Value option"
  mPreviousValue :: Value
  mNominationTimerExpCount :: nat

record Slot = NominationProtocol +
  mStatementsHistory :: "(SCPStatement \<times> bool) list"
  mFullyValidated :: bool
  mGotVBlocking :: bool
  mEvents :: "driver_event list"

type_synonym 'a action = "Slot \<Rightarrow> scp_error + ('a \<times> Slot)"

definition newSlot :: "SCPContext \<Rightarrow> Slot" where
  "newSlot ctx = \<lparr>
     mHeardFromQuorum = False, mCurrentBallot = None, mPrepared = None, mPreparedPrime = None,
     mHighBallot = None, mCommit = None, mLatestEnvelopes = [], mPhase = SCP_PHASE_PREPARE,
     mValueOverride = None, mCurrentMessageLevel = 0, mTimerExpCount = 0, mLastEnvelope = None,
     mLastEnvelopeEmit = None,
     mRoundNumber = 0, mVotes = [], mAccepted = [], mCandidates = [], mLatestNominations = [],
     mNominationLastEnvelope = None, mRoundLeaders = [], mNominationStarted = False,
     mLatestCompositeCandidate = None, mPreviousValue = [], mNominationTimerExpCount = 0,
     mStatementsHistory = [], mFullyValidated = localIsValidator ctx, mGotVBlocking = False,
     mEvents = []\<rparr>"

definition notify :: "driver_event \<Rightarrow> Slot \<Rightarrow> Slot" where
  "notify e s = s\<lparr>mEvents := mEvents s @ [e]\<rparr>"

definition recordStatement :: "SCPStatement \<Rightarrow> Slot \<Rightarrow> Slot" where
  "recordStatement st s = s\<lparr>mStatementsHistory := mStatementsHistory s @ [(st, mFullyValidated s)]\<rparr>"

definition stopNomination :: "Slot \<Rightarrow> Slot" where
  "stopNomination s = s\<lparr>mNominationStarted := False\<rparr>"

subsection \<open>Timeouts and leader hashes\<close>

definition MAX_TIMEOUT_SECONDS :: uint32 where
  "MAX_TIMEOUT_SECONDS = 30 * 60"

definition computeTimeout :: "uint32 \<Rightarrow> nat" where
  "computeTimeout roundNumber =
     (if roundNumber > MAX_TIMEOUT_SECONDS then unat MAX_TIMEOUT_SECONDS else unat roundNumber)"

definition hash_N :: uint32 where "hash_N = 1"
definition hash_P :: uint32 where "hash_P = 2"
definition hash_K :: uint32 where "hash_K = 3"

definition hashByte :: "Hash \<Rightarrow> nat \<Rightarrow> uint64" where
  "hashByte t i = ucast (take_bit 8 (drop_bit (8 * (31 - i)) t))"

definition hashHelper :: "SCPContext \<Rightarrow> uint64 \<Rightarrow> Value \<Rightarrow> hash_input list \<Rightarrow> uint64" where
  "hashHelper ctx slot prev extra =
     (let t = getHashOf ctx (map (xdr_to_opaque ctx) ([HashSlot slot, HashValue prev] @ extra))
      in foldl (\<lambda>res i. or (push_bit 8 res) (hashByte t i)) 0 [0..<8])"

definition computeHashNode :: "SCPContext \<Rightarrow> uint64 \<Rightarrow> Value \<Rightarrow> bool \<Rightarrow> int \<Rightarrow> NodeID \<Rightarrow> uint64" where
  "computeHashNode ctx slot prev isPriority roundNumber node =
     hashHelper ctx slot prev
       [HashTag (if isPriority then hash_P else hash_N), HashRound roundNumber, HashNode node]"

definition computeValueHash :: "SCPContext \<Rightarrow> uint64 \<Rightarrow> Value \<Rightarrow> int \<Rightarrow> Value \<Rightarrow> uint64" where
  "computeValueHash ctx slot prev roundNumber v =
     hashHelper ctx slot prev [HashTag hash_K, HashRound roundNumber, HashValue v]"

subsection \<open>Helpers of \<open>Slot\<close>\<close>

definition createEnvelope :: "SCPContext \<Rightarrow> SCPStatement \<Rightarrow> SCPEnvelope" where
  "createEnvelope ctx st =
     (let mySt = st\<lparr>nodeID := localNodeID ctx, slotIndex := slotIdx ctx\<rparr>
      in \<lparr>envStatement = mySt, envSignature = signEnvelope ctx mySt\<rparr>)"

definition getCompanionQuorumSetHashFromStatement :: "SCPStatement \<Rightarrow> Hash" where
  "getCompanionQuorumSetHashFromStatement st =
     (case pledges st of
        SCP_ST_PREPARE p \<Rightarrow> prepQuorumSetHash p
      | SCP_ST_CONFIRM c \<Rightarrow> confQuorumSetHash c
      | SCP_ST_EXTERNALIZE e \<Rightarrow> extCommitQuorumSetHash e
      | SCP_ST_NOMINATE n \<Rightarrow> nomQuorumSetHash n)"

definition getQuorumSetFromStatement :: "SCPContext \<Rightarrow> SCPStatement \<Rightarrow> SCPQuorumSet option" where
  "getQuorumSetFromStatement ctx st =
     (case pledges st of
        SCP_ST_EXTERNALIZE e \<Rightarrow> Some (getSingletonQSet (nodeID st))
      | SCP_ST_PREPARE p \<Rightarrow> getQSet ctx (prepQuorumSetHash p)
      | SCP_ST_CONFIRM c \<Rightarrow> getQSet ctx (confQuorumSetHash c)
      | SCP_ST_NOMINATE n \<Rightarrow> getQSet ctx (nomQuorumSetHash n))"

definition federatedAccept ::
  "SCPContext \<Rightarrow> (SCPStatement \<Rightarrow> bool) \<Rightarrow> (SCPStatement \<Rightarrow> bool) \<Rightarrow> (NodeID \<times> SCPEnvelope) list \<Rightarrow> bool"
  where
  "federatedAccept ctx voted acceptedP envs \<longleftrightarrow>
     isVBlockingMap (localQSet ctx) envs acceptedP \<or>
     isQuorum (localQSet ctx) envs (getQuorumSetFromStatement ctx) (\<lambda>st. acceptedP st \<or> voted st)"

definition federatedRatify ::
  "SCPContext \<Rightarrow> (SCPStatement \<Rightarrow> bool) \<Rightarrow> (NodeID \<times> SCPEnvelope) list \<Rightarrow> bool" where
  "federatedRatify ctx voted envs \<longleftrightarrow>
     isQuorum (localQSet ctx) envs (getQuorumSetFromStatement ctx) voted"

definition getLatestMessage :: "NodeID \<Rightarrow> Slot \<Rightarrow> SCPEnvelope option" where
  "getLatestMessage n s =
     (case map_of (mLatestEnvelopes s) n of
        Some m \<Rightarrow> Some m
      | None \<Rightarrow> map_of (mLatestNominations s) n)"

text \<open>\<open>forAllNodes\<close> visits all nodes since the visitor always returns true.\<close>

definition maybeSetGotVBlocking :: "SCPContext \<Rightarrow> Slot \<Rightarrow> Slot" where
  "maybeSetGotVBlocking ctx s =
     (if mGotVBlocking s then s
      else
        let nodes = snd (forAllNodes (localQSet ctx)
              (\<lambda>n acc. (True, if getLatestMessage n s \<noteq> None then acc @ [n] else acc)) [])
        in s\<lparr>mGotVBlocking := isVBlocking (localQSet ctx) nodes\<rparr>)"

text \<open>
  \<open>Slot::processEnvelope\<close> dispatches to the handlers of the two protocols, which are arguments
  because they call it back for the statements of the local node.
\<close>

definition slotProcessEnvelope ::
  "(SCPEnvelope \<Rightarrow> EnvelopeState action) \<Rightarrow> (SCPEnvelope \<Rightarrow> bool \<Rightarrow> EnvelopeState action) \<Rightarrow>
   SCPContext \<Rightarrow> SCPEnvelope \<Rightarrow> bool \<Rightarrow> EnvelopeState action" where
  "slotProcessEnvelope nomination ballot ctx env self s =
     (if slotIndex (envStatement env) \<noteq> slotIdx ctx then Inl DbgAssert
      else
        let prev = getLatestMessage (nodeID (envStatement env)) s \<noteq> None
        in bindE (case pledges (envStatement env) of
                    SCP_ST_NOMINATE _ \<Rightarrow> nomination env s
                  | _ \<Rightarrow> ballot env self s)
             (\<lambda>(res, s'). Inr (res, if \<not> prev \<and> res = VALID then maybeSetGotVBlocking ctx s' else s')))"

end
