(* ===== verification/BallotProtocol.thy ===== *)
theory BallotProtocol
  imports SCPState "HOL-Library.While_Combinator"
begin

text \<open>
  \<open>src/src/scp/BallotProtocol.cpp\<close>, method by method. A method that changes the state takes the
  slot and returns it updated, or an error.

  The methods call each other in a cycle: a state change makes \<open>emitCurrentStateStatement\<close> process the node's
  own envelope, which calls \<open>advanceSlot\<close> again. Methods on this cycle take \<open>proc\<close>, the call of
  \<open>Slot::processEnvelope\<close>, as their first argument; \<open>advanceSlot\<close> closes the cycle by recursion
  on a fuel argument. The code bounds the nesting itself: \<open>mCurrentMessageLevel\<close> never exceeds
  \<open>MAX_ADVANCE_SLOT_RECURSION\<close>, so that this number of levels is enough.

  The statements in \<open>mLatestEnvelopes\<close> are never nominations (\<open>isStatementSane\<close> aborts on
  them before anything is recorded), so the branches that abort on one are unreachable in the
  functions below; they give \<open>False\<close> or a default there.
\<close>

subsection \<open>Comparing statements\<close>

definition isNewerStatement :: "SCPStatement \<Rightarrow> SCPStatement \<Rightarrow> bool" where
  "isNewerStatement oldst st =
     (case (pledges oldst, pledges st) of
        (SCP_ST_EXTERNALIZE _, SCP_ST_EXTERNALIZE _) \<Rightarrow> False
      | (SCP_ST_CONFIRM oldC, SCP_ST_CONFIRM c) \<Rightarrow>
          (let compBallot = compareBallots (confBallot oldC) (confBallot c) in
           if compBallot < 0 then True
           else if compBallot = 0 then
             (if confNPrepared oldC = confNPrepared c then confNH oldC < confNH c
              else confNPrepared oldC < confNPrepared c)
           else False)
      | (SCP_ST_PREPARE oldPrep, SCP_ST_PREPARE prep) \<Rightarrow>
          (let compBallot = compareBallots (prepBallot oldPrep) (prepBallot prep) in
           if compBallot < 0 then True
           else if compBallot = 0 then
             (let compBallot = compareBallotsOpt (prepared oldPrep) (prepared prep) in
              if compBallot < 0 then True
              else if compBallot = 0 then
                (let compBallot = compareBallotsOpt (preparedPrime oldPrep) (preparedPrime prep) in
                 if compBallot < 0 then True
                 else if compBallot = 0 then nH oldPrep < nH prep
                 else False)
              else False)
           else False)
      | (oldp, p) \<Rightarrow> pledgesType oldp < pledgesType p)"

definition isNewerStatementFrom :: "NodeID \<Rightarrow> SCPStatement \<Rightarrow> Slot \<Rightarrow> bool" where
  "isNewerStatementFrom n st s =
     (case map_of (mLatestEnvelopes s) n of
        None \<Rightarrow> True
      | Some e \<Rightarrow> isNewerStatement (envStatement e) st)"

definition getWorkingBallot :: "SCPStatement \<Rightarrow> SCPBallot" where
  "getWorkingBallot st =
     (case pledges st of
        SCP_ST_PREPARE p \<Rightarrow> prepBallot p
      | SCP_ST_CONFIRM c \<Rightarrow> SCPBallot (confNCommit c) (ballotValue (confBallot c))
      | SCP_ST_EXTERNALIZE e \<Rightarrow> extCommit e
      | SCP_ST_NOMINATE _ \<Rightarrow> nullBallot)"

definition statementBallotCounter :: "SCPStatement \<Rightarrow> uint32" where
  "statementBallotCounter st =
     (case pledges st of
        SCP_ST_PREPARE p \<Rightarrow> counter (prepBallot p)
      | SCP_ST_CONFIRM c \<Rightarrow> counter (confBallot c)
      | SCP_ST_EXTERNALIZE _ \<Rightarrow> UINT32_MAX
      | SCP_ST_NOMINATE _ \<Rightarrow> 0)"

subsection \<open>Checking received statements\<close>

definition preparePledgeSane :: "bool \<Rightarrow> SCPPrepare \<Rightarrow> bool" where
  "preparePledgeSane self p \<longleftrightarrow>
     (self \<or> counter (prepBallot p) > 0) \<and>
     (case (preparedPrime p, prepared p) of
        (Some q, Some r) \<Rightarrow> areBallotsLessAndIncompatible q r
      | _ \<Rightarrow> True) \<and>
     (nH p = 0 \<or> (case prepared p of None \<Rightarrow> False | Some r \<Rightarrow> nH p \<le> counter r)) \<and>
     (nC p = 0 \<or> nH p \<noteq> 0 \<and> counter (prepBallot p) \<ge> nH p \<and> nH p \<ge> nC p)"

definition confirmPledgeSane :: "SCPConfirm \<Rightarrow> bool" where
  "confirmPledgeSane c \<longleftrightarrow>
     counter (confBallot c) > 0 \<and> confNH c \<le> counter (confBallot c) \<and> confNCommit c \<le> confNH c"

definition externalizePledgeSane :: "SCPExternalize \<Rightarrow> bool" where
  "externalizePledgeSane e \<longleftrightarrow> counter (extCommit e) > 0 \<and> extNH e \<ge> counter (extCommit e)"

definition isStatementSane :: "SCPContext \<Rightarrow> SCPStatement \<Rightarrow> bool \<Rightarrow> scp_error + bool" where
  "isStatementSane ctx st self =
     (case getQuorumSetFromStatement ctx st of
        None \<Rightarrow> Inr False
      | Some qSet \<Rightarrow>
          if isQuorumSetSane qSet False \<noteq> Inr () then Inr False
          else (case pledges st of
                  SCP_ST_PREPARE p \<Rightarrow> Inr (preparePledgeSane self p)
                | SCP_ST_CONFIRM c \<Rightarrow> Inr (confirmPledgeSane c)
                | SCP_ST_EXTERNALIZE e \<Rightarrow> Inr (externalizePledgeSane e)
                | SCP_ST_NOMINATE _ \<Rightarrow> Inl DbgAbort))"

definition ballotStatementValues :: "SCPStatement \<Rightarrow> Value list" where
  "ballotStatementValues st =
     (case pledges st of
        SCP_ST_PREPARE p \<Rightarrow>
          set_from ((if counter (prepBallot p) \<noteq> 0 then [ballotValue (prepBallot p)] else []) @
            (case prepared p of None \<Rightarrow> [] | Some b \<Rightarrow> [ballotValue b]) @
            (case preparedPrime p of None \<Rightarrow> [] | Some b \<Rightarrow> [ballotValue b]))
      | SCP_ST_CONFIRM c \<Rightarrow> [ballotValue (confBallot c)]
      | SCP_ST_EXTERNALIZE e \<Rightarrow> [ballotValue (extCommit e)]
      | SCP_ST_NOMINATE _ \<Rightarrow> [])"

definition validateValues :: "SCPContext \<Rightarrow> SCPStatement \<Rightarrow> ValidationLevel" where
  "validateValues ctx st =
     (let values = ballotStatementValues st in
      if values = [] then kInvalidValue
      else foldl (\<lambda>lv v. if lv > kInvalidValue then min (validateValue ctx (slotIdx ctx) v False) lv else lv)
             kFullyValidatedValue values)"

subsection \<open>Small state changes\<close>

definition recordEnvelope :: "SCPEnvelope \<Rightarrow> Slot \<Rightarrow> Slot" where
  "recordEnvelope env s =
     recordStatement (envStatement env)
       (s\<lparr>mLatestEnvelopes := map_put (nodeID (envStatement env)) env (mLatestEnvelopes s)\<rparr>)"

definition checkInvariants :: "Slot \<Rightarrow> scp_error + unit" where
  "checkInvariants s =
     bindE (case mPhase s of
              SCP_PHASE_PREPARE \<Rightarrow> Inr ()
            | _ \<Rightarrow> dbgAssert (mCurrentBallot s \<noteq> None \<and> mPrepared s \<noteq> None \<and>
                              mCommit s \<noteq> None \<and> mHighBallot s \<noteq> None)) (\<lambda>_.
     bindE (case mCurrentBallot s of
              None \<Rightarrow> Inr ()
            | Some b \<Rightarrow> dbgAssert (counter b \<noteq> 0)) (\<lambda>_.
     bindE (case (mPrepared s, mPreparedPrime s) of
              (Some p, Some p') \<Rightarrow> dbgAssert (areBallotsLessAndIncompatible p' p)
            | _ \<Rightarrow> Inr ()) (\<lambda>_.
     bindE (case mHighBallot s of
              None \<Rightarrow> Inr ()
            | Some h \<Rightarrow>
                (case mCurrentBallot s of
                   None \<Rightarrow> Inl DbgAssert
                 | Some b \<Rightarrow> dbgAssert (areBallotsLessAndCompatible h b))) (\<lambda>_.
     case mCommit s of
       None \<Rightarrow> Inr ()
     | Some c \<Rightarrow>
         (case mCurrentBallot s of
            None \<Rightarrow> Inl DbgAssert
          | Some b \<Rightarrow>
              bindE (deref (mHighBallot s)) (\<lambda>h.
                dbgAssert (areBallotsLessAndCompatible c h \<and> areBallotsLessAndCompatible h b))))))) "

definition bumpToBallot :: "SCPBallot \<Rightarrow> bool \<Rightarrow> Slot \<Rightarrow> scp_error + Slot" where
  "bumpToBallot ballot check s =
     (if mPhase s = SCP_PHASE_EXTERNALIZE then Inl DbgAssert
      else if check \<and> (case mCurrentBallot s of None \<Rightarrow> False | Some b \<Rightarrow> \<not> compareBallots ballot b \<ge> 0)
      then Inl DbgAssert
      else
        let gotBumped = (case mCurrentBallot s of None \<Rightarrow> True | Some b \<Rightarrow> counter b \<noteq> counter ballot);
            s1 = (if mCurrentBallot s = None then notify (StartedBallotProtocol ballot) s else s);
            s2 = s1\<lparr>mCurrentBallot := Some ballot\<rparr>;
            s3 = (case mHighBallot s2 of
                    Some h \<Rightarrow>
                      if \<not> areBallotsCompatible ballot h
                      then s2\<lparr>mHighBallot := None, mCommit := None\<rparr> else s2
                  | None \<Rightarrow> s2)
        in Inr (if gotBumped then s3\<lparr>mHeardFromQuorum := False\<rparr> else s3))"

definition updateCurrentIfNeeded :: "SCPBallot \<Rightarrow> bool action" where
  "updateCurrentIfNeeded h s =
     (if (case mCurrentBallot s of None \<Rightarrow> True | Some b \<Rightarrow> compareBallots b h < 0)
      then bindE (bumpToBallot h True s) (\<lambda>s'. Inr (True, s'))
      else Inr (False, s))"

definition updateCurrentValue :: "SCPBallot \<Rightarrow> bool action" where
  "updateCurrentValue ballot s =
     (if mPhase s \<noteq> SCP_PHASE_PREPARE \<and> mPhase s \<noteq> SCP_PHASE_CONFIRM then Inr (False, s)
      else
        case mCurrentBallot s of
          None \<Rightarrow>
            bindE (bumpToBallot ballot True s) (\<lambda>s'. bindE (checkInvariants s') (\<lambda>_. Inr (True, s')))
        | Some b \<Rightarrow>
            if \<not> compareBallots b ballot \<le> 0 then Inl DbgAssert
            else if (case mCommit s of None \<Rightarrow> False | Some c \<Rightarrow> \<not> areBallotsCompatible c ballot)
            then Inr (False, s)
            else if compareBallots b ballot < 0
            then bindE (bumpToBallot ballot True s) (\<lambda>s'. bindE (checkInvariants s') (\<lambda>_. Inr (True, s')))
            else if compareBallots b ballot > 0 then Inr (False, s)
            else bindE (checkInvariants s) (\<lambda>_. Inr (False, s)))"

definition startBallotProtocolTimer :: "Slot \<Rightarrow> scp_error + Slot" where
  "startBallotProtocolTimer s =
     bindE (deref (mCurrentBallot s)) (\<lambda>b.
       Inr (notify (SetupTimer BALLOT_PROTOCOL_TIMER (computeTimeout (counter b))
         (Some BallotProtocolTimerExpired)) s))"

definition stopBallotProtocolTimer :: "Slot \<Rightarrow> Slot" where
  "stopBallotProtocolTimer s = notify (SetupTimer BALLOT_PROTOCOL_TIMER 0 None) s"

text \<open>
  The pointers \<open>mLastEnvelope\<close> and \<open>mLastEnvelopeEmit\<close> are compared by value: \<open>mLastEnvelope\<close> is only
  ever replaced by a strictly newer statement, so different pointers have different contents.
\<close>

definition sendLatestEnvelope :: "Slot \<Rightarrow> Slot" where
  "sendLatestEnvelope s =
     (case mLastEnvelope s of
        None \<Rightarrow> s
      | Some e \<Rightarrow>
          if mCurrentMessageLevel s = 0 \<and> mFullyValidated s \<and> mLastEnvelopeEmit s \<noteq> Some e
          then notify (EmitEnvelope e) (s\<lparr>mLastEnvelopeEmit := Some e\<rparr>)
          else s)"

definition checkHeardFromQuorum :: "SCPContext \<Rightarrow> Slot \<Rightarrow> scp_error + Slot" where
  "checkHeardFromQuorum ctx s =
     (case mCurrentBallot s of
        None \<Rightarrow> Inr s
      | Some b \<Rightarrow>
          if isQuorum (localQSet ctx) (mLatestEnvelopes s) (getQuorumSetFromStatement ctx)
               (\<lambda>st. case pledges st of
                       SCP_ST_PREPARE p \<Rightarrow> counter b \<le> counter (prepBallot p)
                     | _ \<Rightarrow> True)
          then
            let oldHQ = mHeardFromQuorum s;
                s1 = s\<lparr>mHeardFromQuorum := True\<rparr>
            in bindE (if \<not> oldHQ
                      then
                        let s2 = notify (BallotDidHearFromQuorum b) s1
                        in if mPhase s2 \<noteq> SCP_PHASE_EXTERNALIZE then startBallotProtocolTimer s2 else Inr s2
                      else Inr s1)
                 (\<lambda>s3. Inr (if mPhase s3 = SCP_PHASE_EXTERNALIZE then stopBallotProtocolTimer s3 else s3))
          else Inr (stopBallotProtocolTimer (s\<lparr>mHeardFromQuorum := False\<rparr>)))"

subsection \<open>Producing statements\<close>

definition createStatement :: "SCPContext \<Rightarrow> SCPStatementType \<Rightarrow> Slot \<Rightarrow> scp_error + SCPStatement" where
  "createStatement ctx t s =
     bindE (checkInvariants s) (\<lambda>_.
     bindE (case t of
       TYPE_PREPARE \<Rightarrow>
         Inr (SCP_ST_PREPARE \<lparr>
           prepQuorumSetHash = localQSetHash ctx,
           prepBallot = (case mCurrentBallot s of None \<Rightarrow> nullBallot | Some b \<Rightarrow> b),
           prepared = mPrepared s,
           preparedPrime = mPreparedPrime s,
           nC = (case mCommit s of None \<Rightarrow> 0 | Some c \<Rightarrow> counter c),
           nH = (case mHighBallot s of None \<Rightarrow> 0 | Some h \<Rightarrow> counter h)\<rparr>)
     | TYPE_CONFIRM \<Rightarrow>
         bindE (deref (mCurrentBallot s)) (\<lambda>b.
         bindE (deref (mPrepared s)) (\<lambda>p.
         bindE (deref (mCommit s)) (\<lambda>c.
         bindE (deref (mHighBallot s)) (\<lambda>h.
         Inr (SCP_ST_CONFIRM \<lparr>
           confBallot = b, confNPrepared = counter p, confNCommit = counter c, confNH = counter h,
           confQuorumSetHash = localQSetHash ctx\<rparr>)))))
     | TYPE_EXTERNALIZE \<Rightarrow>
         bindE (deref (mCommit s)) (\<lambda>c.
         bindE (deref (mHighBallot s)) (\<lambda>h.
         Inr (SCP_ST_EXTERNALIZE \<lparr>
           extCommit = c, extNH = counter h, extCommitQuorumSetHash = localQSetHash ctx\<rparr>)))
     | TYPE_NOMINATE \<Rightarrow> Inl DbgAbort) (\<lambda>pl.
     Inr \<lparr>nodeID = 0, slotIndex = 0, pledges = pl\<rparr>))"

definition phaseType :: "SCPPhase \<Rightarrow> SCPStatementType" where
  "phaseType ph =
     (case ph of
        SCP_PHASE_PREPARE \<Rightarrow> TYPE_PREPARE
      | SCP_PHASE_CONFIRM \<Rightarrow> TYPE_CONFIRM
      | SCP_PHASE_EXTERNALIZE \<Rightarrow> TYPE_EXTERNALIZE)"

type_synonym process_envelope = "SCPEnvelope \<Rightarrow> bool \<Rightarrow> EnvelopeState action"

definition emitCurrentStateStatement :: "process_envelope \<Rightarrow> SCPContext \<Rightarrow> Slot \<Rightarrow> scp_error + Slot" where
  "emitCurrentStateStatement proc ctx s =
     bindE (createStatement ctx (phaseType (mPhase s)) s) (\<lambda>statement.
       let envelope = createEnvelope ctx statement;
           canEmit = (mCurrentBallot s \<noteq> None)
       in if map_of (mLatestEnvelopes s) (localNodeID ctx) \<noteq> Some envelope
          then
            bindE (proc envelope True s) (\<lambda>(res, s1).
              if res = VALID
              then
                if canEmit \<and>
                   (case mLastEnvelope s1 of
                      None \<Rightarrow> True
                    | Some l \<Rightarrow> isNewerStatement (envStatement l) (envStatement envelope))
                then Inr (sendLatestEnvelope (s1\<lparr>mLastEnvelope := Some envelope\<rparr>))
                else Inr s1
              else Inl BadState)
          else Inr s)"

definition bumpState :: "process_envelope \<Rightarrow> SCPContext \<Rightarrow> Value \<Rightarrow> uint32 \<Rightarrow> bool action" where
  "bumpState proc ctx v n s =
     (if mPhase s \<noteq> SCP_PHASE_PREPARE \<and> mPhase s \<noteq> SCP_PHASE_CONFIRM then Inr (False, s)
      else
        let newb = SCPBallot n (case mValueOverride s of Some z \<Rightarrow> z | None \<Rightarrow> v)
        in bindE (updateCurrentValue newb s) (\<lambda>(updated, s1).
             if updated
             then bindE (emitCurrentStateStatement proc ctx s1) (\<lambda>s2.
                  bindE (checkHeardFromQuorum ctx s2) (\<lambda>s3. Inr (True, s3)))
             else Inr (False, s1)))"

definition bumpStateForce :: "process_envelope \<Rightarrow> SCPContext \<Rightarrow> Value \<Rightarrow> bool \<Rightarrow> bool action" where
  "bumpStateForce proc ctx v force s =
     (if \<not> force \<and> mCurrentBallot s \<noteq> None then Inr (False, s)
      else bumpState proc ctx v (case mCurrentBallot s of Some b \<Rightarrow> counter b + 1 | None \<Rightarrow> 1) s)"

definition abandonBallot :: "process_envelope \<Rightarrow> SCPContext \<Rightarrow> uint32 \<Rightarrow> bool action" where
  "abandonBallot proc ctx n s =
     (let v = (if mLatestCompositeCandidate s = None \<or> mLatestCompositeCandidate s = Some []
               then (case mCurrentBallot s of
                       Some b \<Rightarrow> Some (ballotValue b)
                     | None \<Rightarrow> mLatestCompositeCandidate s)
               else mLatestCompositeCandidate s)
      in case v of
           Some x \<Rightarrow>
             if x \<noteq> [] then (if n = 0 then bumpStateForce proc ctx x True s else bumpState proc ctx x n s)
             else Inr (False, s)
         | None \<Rightarrow> Inr (False, s))"

definition ballotProtocolTimerExpired :: "process_envelope \<Rightarrow> SCPContext \<Rightarrow> bool action" where
  "ballotProtocolTimerExpired proc ctx s =
     abandonBallot proc ctx 0 (s\<lparr>mTimerExpCount := mTimerExpCount s + 1\<rparr>)"

subsection \<open>Accepting and confirming prepared ballots\<close>

definition hintBallots :: "SCPStatement \<Rightarrow> SCPBallot list" where
  "hintBallots hint =
     (case pledges hint of
        SCP_ST_PREPARE p \<Rightarrow>
          set_from ([prepBallot p] @
            (case prepared p of None \<Rightarrow> [] | Some b \<Rightarrow> [b]) @
            (case preparedPrime p of None \<Rightarrow> [] | Some b \<Rightarrow> [b]))
      | SCP_ST_CONFIRM c \<Rightarrow>
          set_from [SCPBallot (confNPrepared c) (ballotValue (confBallot c)),
                    SCPBallot UINT32_MAX (ballotValue (confBallot c))]
      | SCP_ST_EXTERNALIZE e \<Rightarrow> [SCPBallot UINT32_MAX (ballotValue (extCommit e))]
      | SCP_ST_NOMINATE _ \<Rightarrow> [])"

definition candidatesFrom :: "SCPBallot \<Rightarrow> SCPStatement \<Rightarrow> SCPBallot list" where
  "candidatesFrom topVote st =
     (case pledges st of
        SCP_ST_PREPARE p \<Rightarrow>
          (if areBallotsLessAndCompatible (prepBallot p) topVote then [prepBallot p] else []) @
          (case prepared p of
             None \<Rightarrow> []
           | Some b \<Rightarrow> if areBallotsLessAndCompatible b topVote then [b] else []) @
          (case preparedPrime p of
             None \<Rightarrow> []
           | Some b \<Rightarrow> if areBallotsLessAndCompatible b topVote then [b] else [])
      | SCP_ST_CONFIRM c \<Rightarrow>
          if areBallotsCompatible topVote (confBallot c)
          then topVote #
            (if confNPrepared c < counter topVote then [SCPBallot (confNPrepared c) (ballotValue topVote)] else [])
          else []
      | SCP_ST_EXTERNALIZE e \<Rightarrow> if areBallotsCompatible topVote (extCommit e) then [topVote] else []
      | SCP_ST_NOMINATE _ \<Rightarrow> [])"

definition getPrepareCandidates :: "SCPStatement \<Rightarrow> Slot \<Rightarrow> SCPBallot list" where
  "getPrepareCandidates hint s =
     set_from (concat (map (\<lambda>topVote.
       concat (map (\<lambda>e. candidatesFrom topVote (envStatement (snd e))) (mLatestEnvelopes s)))
       (rev (hintBallots hint))))"

definition votedPrepared :: "SCPBallot \<Rightarrow> SCPStatement \<Rightarrow> bool" where
  "votedPrepared ballot st =
     (case pledges st of
        SCP_ST_PREPARE p \<Rightarrow> areBallotsLessAndCompatible ballot (prepBallot p)
      | SCP_ST_CONFIRM c \<Rightarrow> areBallotsCompatible ballot (confBallot c)
      | SCP_ST_EXTERNALIZE e \<Rightarrow> areBallotsCompatible ballot (extCommit e)
      | SCP_ST_NOMINATE _ \<Rightarrow> False)"

definition hasPreparedBallot :: "SCPBallot \<Rightarrow> SCPStatement \<Rightarrow> bool" where
  "hasPreparedBallot ballot st =
     (case pledges st of
        SCP_ST_PREPARE p \<Rightarrow>
          (case prepared p of None \<Rightarrow> False | Some b \<Rightarrow> areBallotsLessAndCompatible ballot b) \<or>
          (case preparedPrime p of None \<Rightarrow> False | Some b \<Rightarrow> areBallotsLessAndCompatible ballot b)
      | SCP_ST_CONFIRM c \<Rightarrow>
          areBallotsLessAndCompatible ballot (SCPBallot (confNPrepared c) (ballotValue (confBallot c)))
      | SCP_ST_EXTERNALIZE e \<Rightarrow> areBallotsCompatible ballot (extCommit e)
      | SCP_ST_NOMINATE _ \<Rightarrow> False)"

text \<open>\<open>setPrepared\<close> keeps in \<open>p\<close> and \<open>p'\<close> the two highest prepared and incompatible ballots.\<close>

definition setPrepared :: "SCPBallot \<Rightarrow> Slot \<Rightarrow> bool \<times> Slot" where
  "setPrepared ballot s =
     (case mPrepared s of
        Some p \<Rightarrow>
          if compareBallots p ballot < 0
          then (True,
                (if \<not> areBallotsCompatible p ballot then s\<lparr>mPreparedPrime := Some p\<rparr> else s)
                  \<lparr>mPrepared := Some ballot\<rparr>)
          else if compareBallots p ballot > 0
          then
            if (case mPreparedPrime s of
                  None \<Rightarrow> True
                | Some p' \<Rightarrow> compareBallots p' ballot < 0 \<and> \<not> areBallotsCompatible p ballot)
            then (True, s\<lparr>mPreparedPrime := Some ballot\<rparr>)
            else (False, s)
          else (False, s)
      | None \<Rightarrow> (True, s\<lparr>mPrepared := Some ballot\<rparr>))"

definition lessAndIncompatibleOpt :: "SCPBallot \<Rightarrow> SCPBallot option \<Rightarrow> bool" where
  "lessAndIncompatibleOpt b q = (case q of None \<Rightarrow> False | Some x \<Rightarrow> areBallotsLessAndIncompatible b x)"

definition setAcceptPrepared :: "process_envelope \<Rightarrow> SCPContext \<Rightarrow> SCPBallot \<Rightarrow> bool action" where
  "setAcceptPrepared proc ctx ballot s =
     (case setPrepared ballot s of (didWork, s1) \<Rightarrow>
      bindE (case (mCommit s1, mHighBallot s1) of
               (Some c, Some h) \<Rightarrow>
                 if lessAndIncompatibleOpt h (mPrepared s1) \<or> lessAndIncompatibleOpt h (mPreparedPrime s1)
                 then if mPhase s1 = SCP_PHASE_PREPARE then Inr (True, s1\<lparr>mCommit := None\<rparr>) else Inl DbgAssert
                 else Inr (didWork, s1)
             | _ \<Rightarrow> Inr (didWork, s1))
        (\<lambda>(didWork', s2).
          if didWork'
          then bindE (emitCurrentStateStatement proc ctx (notify (AcceptedBallotPrepared ballot) s2))
                 (\<lambda>s3. Inr (True, s3))
          else Inr (False, s2)))"

text \<open>The body of the loop over the candidates: is \<open>ballot\<close> the one to accept?\<close>

definition acceptPreparedCandidate :: "SCPContext \<Rightarrow> Slot \<Rightarrow> SCPBallot \<Rightarrow> scp_error + bool" where
  "acceptPreparedCandidate ctx s ballot =
     bindE (if mPhase s = SCP_PHASE_CONFIRM
            then bindE (deref (mPrepared s)) (\<lambda>p.
                   if \<not> areBallotsLessAndCompatible p ballot then Inr False
                   else bindE (deref (mCommit s)) (\<lambda>c.
                     if areBallotsCompatible c ballot then Inr True else Inl DbgAssert))
            else Inr True)
       (\<lambda>consider.
         Inr (consider \<and>
           \<not> (case mPreparedPrime s of None \<Rightarrow> False | Some p' \<Rightarrow> compareBallots ballot p' \<le> 0) \<and>
           \<not> (case mPrepared s of None \<Rightarrow> False | Some p \<Rightarrow> areBallotsLessAndCompatible ballot p) \<and>
           federatedAccept ctx (votedPrepared ballot) (hasPreparedBallot ballot) (mLatestEnvelopes s)))"

primrec firstE :: "('a \<Rightarrow> 'e + bool) \<Rightarrow> 'a list \<Rightarrow> 'e + 'a option" where
  "firstE f [] = Inr None"
| "firstE f (x # xs) = bindE (f x) (\<lambda>b. if b then Inr (Some x) else firstE f xs)"

definition attemptAcceptPrepared :: "process_envelope \<Rightarrow> SCPContext \<Rightarrow> SCPStatement \<Rightarrow> bool action" where
  "attemptAcceptPrepared proc ctx hint s =
     (if mPhase s \<noteq> SCP_PHASE_PREPARE \<and> mPhase s \<noteq> SCP_PHASE_CONFIRM then Inr (False, s)
      else
        bindE (firstE (acceptPreparedCandidate ctx s) (rev (getPrepareCandidates hint s))) (\<lambda>found.
          case found of
            None \<Rightarrow> Inr (False, s)
          | Some ballot \<Rightarrow> setAcceptPrepared proc ctx ballot s))"

text \<open>The changes of \<open>h\<close> and \<open>c\<close> in \<open>setConfirmPrepared\<close>, with whether there were any.\<close>

definition confirmPreparedUpdate :: "SCPBallot \<Rightarrow> SCPBallot \<Rightarrow> bool action" where
  "confirmPreparedUpdate newC newH s =
     (let s0 = s\<lparr>mValueOverride := Some (ballotValue newH)\<rparr>
      in if (case mCurrentBallot s0 of None \<Rightarrow> True | Some b \<Rightarrow> areBallotsCompatible b newH)
         then
           let raise = (case mHighBallot s0 of None \<Rightarrow> True | Some h \<Rightarrow> compareBallots newH h > 0);
               s1 = (if raise then s0\<lparr>mHighBallot := Some newH\<rparr> else s0)
           in if counter newC \<noteq> 0
              then if mCommit s1 \<noteq> None then Inl DbgAssert
                   else Inr (True, notify (ConfirmedBallotPrepared newH) (s1\<lparr>mCommit := Some newC\<rparr>))
              else Inr (raise, if raise then notify (ConfirmedBallotPrepared newH) s1 else s1)
         else Inr (False, s0))"

definition setConfirmPrepared :: "process_envelope \<Rightarrow> SCPContext \<Rightarrow> SCPBallot \<Rightarrow> SCPBallot \<Rightarrow> bool action" where
  "setConfirmPrepared proc ctx newC newH s =
     bindE (confirmPreparedUpdate newC newH s) (\<lambda>(didWork, s2).
     bindE (updateCurrentIfNeeded newH s2) (\<lambda>(updated, s3).
       if updated \<or> didWork
       then bindE (emitCurrentStateStatement proc ctx s3) (\<lambda>s4. Inr (True, s4))
       else Inr (False, s3)))"

text \<open>
  The first loop of \<open>attemptConfirmPrepared\<close> returns the candidates from the new \<open>h\<close> downwards
  (where the iterator stopped), the second one the new \<open>c\<close>.
\<close>

primrec confirmPreparedHigh :: "SCPContext \<Rightarrow> Slot \<Rightarrow> SCPBallot list \<Rightarrow> SCPBallot list" where
  "confirmPreparedHigh ctx s [] = []"
| "confirmPreparedHigh ctx s (ballot # cur) =
     (if (case mHighBallot s of None \<Rightarrow> False | Some h \<Rightarrow> compareBallots h ballot \<ge> 0) then []
      else if federatedRatify ctx (hasPreparedBallot ballot) (mLatestEnvelopes s) then ballot # cur
      else confirmPreparedHigh ctx s cur)"

primrec confirmPreparedCommit ::
  "SCPContext \<Rightarrow> Slot \<Rightarrow> SCPBallot \<Rightarrow> SCPBallot \<Rightarrow> SCPBallot \<Rightarrow> SCPBallot list \<Rightarrow> SCPBallot" where
  "confirmPreparedCommit ctx s b newH newC [] = newC"
| "confirmPreparedCommit ctx s b newH newC (ballot # cur) =
     (if compareBallots ballot b < 0 then newC
      else if \<not> areBallotsLessAndCompatible ballot newH then confirmPreparedCommit ctx s b newH newC cur
      else if federatedRatify ctx (hasPreparedBallot ballot) (mLatestEnvelopes s)
      then confirmPreparedCommit ctx s b newH ballot cur
      else newC)"

definition attemptConfirmPrepared :: "process_envelope \<Rightarrow> SCPContext \<Rightarrow> SCPStatement \<Rightarrow> bool action" where
  "attemptConfirmPrepared proc ctx hint s =
     (if mPhase s \<noteq> SCP_PHASE_PREPARE then Inr (False, s)
      else if mPrepared s = None then Inr (False, s)
      else
        case confirmPreparedHigh ctx s (rev (getPrepareCandidates hint s)) of
          [] \<Rightarrow> Inr (False, s)
        | newH # cur \<Rightarrow>
            let b = (case mCurrentBallot s of Some b \<Rightarrow> b | None \<Rightarrow> nullBallot);
                newC = (if mCommit s = None \<and> \<not> lessAndIncompatibleOpt newH (mPrepared s) \<and>
                           \<not> lessAndIncompatibleOpt newH (mPreparedPrime s)
                        then confirmPreparedCommit ctx s b newH nullBallot (newH # cur)
                        else nullBallot)
            in setConfirmPrepared proc ctx newC newH s)"

subsection \<open>Accepting and confirming commits\<close>

type_synonym Interval = "uint32 \<times> uint32"

definition commitPredicate :: "SCPBallot \<Rightarrow> Interval \<Rightarrow> SCPStatement \<Rightarrow> bool" where
  "commitPredicate ballot check st =
     (case pledges st of
        SCP_ST_PREPARE _ \<Rightarrow> False
      | SCP_ST_CONFIRM c \<Rightarrow>
          areBallotsCompatible ballot (confBallot c) \<and> confNCommit c \<le> fst check \<and> snd check \<le> confNH c
      | SCP_ST_EXTERNALIZE e \<Rightarrow>
          areBallotsCompatible ballot (extCommit e) \<and> counter (extCommit e) \<le> fst check
      | SCP_ST_NOMINATE _ \<Rightarrow> False)"

definition votedCommit :: "SCPBallot \<Rightarrow> Interval \<Rightarrow> SCPStatement \<Rightarrow> bool" where
  "votedCommit ballot cur st =
     (case pledges st of
        SCP_ST_PREPARE p \<Rightarrow>
          areBallotsCompatible ballot (prepBallot p) \<and> nC p \<noteq> 0 \<and> nC p \<le> fst cur \<and> snd cur \<le> nH p
      | SCP_ST_CONFIRM c \<Rightarrow> areBallotsCompatible ballot (confBallot c) \<and> confNCommit c \<le> fst cur
      | SCP_ST_EXTERNALIZE e \<Rightarrow> areBallotsCompatible ballot (extCommit e) \<and> counter (extCommit e) \<le> fst cur
      | SCP_ST_NOMINATE _ \<Rightarrow> False)"

text \<open>The boundaries are scanned from the top; \<open>(0, 0)\<close> means that no interval was found yet.\<close>

primrec extendInterval :: "(Interval \<Rightarrow> bool) \<Rightarrow> Interval \<Rightarrow> uint32 list \<Rightarrow> Interval" where
  "extendInterval P candidate [] = candidate"
| "extendInterval P candidate (b # bs) =
     (if fst candidate = 0 then extendInterval P (if P (b, b) then (b, b) else candidate) bs
      else if b > snd candidate then extendInterval P candidate bs
      else if P (b, snd candidate) then extendInterval P (b, snd candidate) bs
      else candidate)"

definition findExtendedInterval :: "Interval \<Rightarrow> uint32 list \<Rightarrow> (Interval \<Rightarrow> bool) \<Rightarrow> Interval" where
  "findExtendedInterval candidate boundaries P = extendInterval P candidate (rev boundaries)"

definition commitBoundaries :: "SCPBallot \<Rightarrow> SCPStatement \<Rightarrow> uint32 list" where
  "commitBoundaries ballot st =
     (case pledges st of
        SCP_ST_PREPARE p \<Rightarrow>
          if areBallotsCompatible ballot (prepBallot p) \<and> nC p \<noteq> 0 then [nC p, nH p] else []
      | SCP_ST_CONFIRM c \<Rightarrow>
          if areBallotsCompatible ballot (confBallot c) then [confNCommit c, confNH c] else []
      | SCP_ST_EXTERNALIZE e \<Rightarrow>
          if areBallotsCompatible ballot (extCommit e) then [counter (extCommit e), extNH e, UINT32_MAX] else []
      | SCP_ST_NOMINATE _ \<Rightarrow> [])"

definition getCommitBoundariesFromStatements :: "SCPBallot \<Rightarrow> Slot \<Rightarrow> uint32 list" where
  "getCommitBoundariesFromStatements ballot s =
     set_from (concat (map (\<lambda>e. commitBoundaries ballot (envStatement (snd e))) (mLatestEnvelopes s)))"

text \<open>The changes of \<open>c\<close>, \<open>h\<close> and the phase in \<open>setAcceptCommit\<close>, with whether there were any.\<close>

definition acceptCommitUpdate :: "SCPBallot \<Rightarrow> SCPBallot \<Rightarrow> bool action" where
  "acceptCommitUpdate c h s =
     (let s0 = s\<lparr>mValueOverride := Some (ballotValue h)\<rparr>;
          changed = (case (mHighBallot s0, mCommit s0) of
                       (Some h', Some c') \<Rightarrow> compareBallots h' h \<noteq> 0 \<or> compareBallots c' c \<noteq> 0
                     | _ \<Rightarrow> True);
          s1 = (if changed then s0\<lparr>mCommit := Some c, mHighBallot := Some h\<rparr> else s0)
      in if mPhase s1 = SCP_PHASE_PREPARE
         then
           let s2 = s1\<lparr>mPhase := SCP_PHASE_CONFIRM\<rparr>
           in bindE (if (case mCurrentBallot s2 of
                           None \<Rightarrow> False
                         | Some b \<Rightarrow> \<not> areBallotsLessAndCompatible h b)
                     then bumpToBallot h False s2 else Inr s2)
                (\<lambda>s3. Inr (True, s3\<lparr>mPreparedPrime := None\<rparr>))
         else Inr (changed, s1))"

definition setAcceptCommit :: "process_envelope \<Rightarrow> SCPContext \<Rightarrow> SCPBallot \<Rightarrow> SCPBallot \<Rightarrow> bool action" where
  "setAcceptCommit proc ctx c h s =
     bindE (acceptCommitUpdate c h s) (\<lambda>(didWork, s4).
       if didWork
       then bindE (deref (mHighBallot s4)) (\<lambda>h'.
            bindE (updateCurrentIfNeeded h' s4) (\<lambda>(_, s5).
            bindE (emitCurrentStateStatement proc ctx (notify (AcceptedCommit h) s5)) (\<lambda>s6.
            Inr (True, s6))))
       else Inr (False, s4))"

definition commitHint :: "SCPStatement \<Rightarrow> SCPBallot option" where
  "commitHint hint =
     (case pledges hint of
        SCP_ST_PREPARE p \<Rightarrow> if nC p \<noteq> 0 then Some (SCPBallot (nH p) (ballotValue (prepBallot p))) else None
      | SCP_ST_CONFIRM c \<Rightarrow> Some (SCPBallot (confNH c) (ballotValue (confBallot c)))
      | SCP_ST_EXTERNALIZE e \<Rightarrow> Some (SCPBallot (extNH e) (ballotValue (extCommit e)))
      | SCP_ST_NOMINATE _ \<Rightarrow> None)"

definition attemptAcceptCommit :: "process_envelope \<Rightarrow> SCPContext \<Rightarrow> SCPStatement \<Rightarrow> bool action" where
  "attemptAcceptCommit proc ctx hint s =
     (if mPhase s \<noteq> SCP_PHASE_PREPARE \<and> mPhase s \<noteq> SCP_PHASE_CONFIRM then Inr (False, s)
      else case commitHint hint of
        None \<Rightarrow> Inr (False, s)
      | Some ballot \<Rightarrow>
          bindE (if mPhase s = SCP_PHASE_CONFIRM
                 then bindE (deref (mHighBallot s)) (\<lambda>h. Inr (areBallotsCompatible ballot h))
                 else Inr True) (\<lambda>proceed.
          if \<not> proceed then Inr (False, s)
          else
            let P = (\<lambda>cur. federatedAccept ctx (votedCommit ballot cur) (commitPredicate ballot cur)
                             (mLatestEnvelopes s));
                boundaries = getCommitBoundariesFromStatements ballot s
            in if boundaries = [] then Inr (False, s)
               else
                 let candidate = findExtendedInterval (0, 0) boundaries P
                 in if fst candidate \<noteq> 0
                    then
                      bindE (if mPhase s \<noteq> SCP_PHASE_CONFIRM then Inr True
                             else bindE (deref (mHighBallot s)) (\<lambda>h. Inr (snd candidate > counter h)))
                        (\<lambda>better.
                          if better
                          then setAcceptCommit proc ctx (SCPBallot (fst candidate) (ballotValue ballot))
                                 (SCPBallot (snd candidate) (ballotValue ballot)) s
                          else Inr (False, s))
                    else Inr (False, s)))"

definition setConfirmCommit :: "process_envelope \<Rightarrow> SCPContext \<Rightarrow> SCPBallot \<Rightarrow> SCPBallot \<Rightarrow> bool action" where
  "setConfirmCommit proc ctx c h s =
     bindE (updateCurrentIfNeeded h (s\<lparr>mCommit := Some c, mHighBallot := Some h\<rparr>)) (\<lambda>(_, s1).
     bindE (emitCurrentStateStatement proc ctx (s1\<lparr>mPhase := SCP_PHASE_EXTERNALIZE\<rparr>)) (\<lambda>s2.
     bindE (deref (mCommit s2)) (\<lambda>c'.
     Inr (True, notify (ValueExternalized (ballotValue c')) (stopNomination s2)))))"

definition attemptConfirmCommit :: "process_envelope \<Rightarrow> SCPContext \<Rightarrow> SCPStatement \<Rightarrow> bool action" where
  "attemptConfirmCommit proc ctx hint s =
     (if mPhase s \<noteq> SCP_PHASE_CONFIRM then Inr (False, s)
      else case (mHighBallot s, mCommit s) of
        (Some _, Some c0) \<Rightarrow>
          (case pledges hint of
             SCP_ST_PREPARE _ \<Rightarrow> Inr (False, s)
           | _ \<Rightarrow>
               (case commitHint hint of
                  None \<Rightarrow> Inr (False, s)
                | Some ballot \<Rightarrow>
                    if \<not> areBallotsCompatible ballot c0 then Inr (False, s)
                    else
                      let candidate = findExtendedInterval (0, 0) (getCommitBoundariesFromStatements ballot s)
                            (\<lambda>cur. federatedRatify ctx (commitPredicate ballot cur) (mLatestEnvelopes s))
                      in if fst candidate \<noteq> 0
                         then setConfirmCommit proc ctx (SCPBallot (fst candidate) (ballotValue ballot))
                                (SCPBallot (snd candidate) (ballotValue ballot)) s
                         else Inr (False, s)))
      | _ \<Rightarrow> Inr (False, s))"

subsection \<open>Bumping the counter\<close>

definition hasVBlockingSubsetStrictlyAheadOf :: "SCPContext \<Rightarrow> (NodeID \<times> SCPEnvelope) list \<Rightarrow> uint32 \<Rightarrow> bool" where
  "hasVBlockingSubsetStrictlyAheadOf ctx m n =
     isVBlockingMap (localQSet ctx) m (\<lambda>st. statementBallotCounter st > n)"

definition currentCounter :: "Slot \<Rightarrow> uint32" where
  "currentCounter s = (case mCurrentBallot s of Some b \<Rightarrow> counter b | None \<Rightarrow> 0)"

definition countersAbove :: "(NodeID \<times> SCPEnvelope) list \<Rightarrow> uint32 \<Rightarrow> uint32 list" where
  "countersAbove m n =
     set_from (filter (\<lambda>c. c > n) (map (\<lambda>e. statementBallotCounter (envStatement (snd e))) m))"

definition bumpTarget :: "SCPContext \<Rightarrow> Slot \<Rightarrow> uint32 option" where
  "bumpTarget ctx s =
     (if \<not> hasVBlockingSubsetStrictlyAheadOf ctx (mLatestEnvelopes s) (currentCounter s) then None
      else find (\<lambda>n. \<not> hasVBlockingSubsetStrictlyAheadOf ctx (mLatestEnvelopes s) n)
             (countersAbove (mLatestEnvelopes s) (currentCounter s)))"

definition attemptBump :: "process_envelope \<Rightarrow> SCPContext \<Rightarrow> bool action" where
  "attemptBump proc ctx s =
     (if mPhase s = SCP_PHASE_PREPARE \<or> mPhase s = SCP_PHASE_CONFIRM
      then case bumpTarget ctx s of
             None \<Rightarrow> Inr (False, s)
           | Some n \<Rightarrow> abandonBallot proc ctx n s
      else Inr (False, s))"

text \<open>
  The loop \<open>do didBump = attemptBump(); while (didBump)\<close>. \<open>Diverges\<close> stands for a loop that
  never ends.
\<close>

definition bumpLoop :: "process_envelope \<Rightarrow> SCPContext \<Rightarrow> bool action" where
  "bumpLoop proc ctx s =
     (case while_option (\<lambda>r. case r of Inl _ \<Rightarrow> False | Inr (didBump, _, _) \<Rightarrow> didBump)
             (\<lambda>r. bindE r (\<lambda>(_, didWork, s1).
                bindE (attemptBump proc ctx s1) (\<lambda>(didBump, s2). Inr (didBump, didBump \<or> didWork, s2))))
             (bindE (attemptBump proc ctx s) (\<lambda>(didBump, s2). Inr (didBump, didBump, s2))) of
        None \<Rightarrow> Inl Diverges
      | Some r \<Rightarrow> bindE r (\<lambda>(_, didWork, s'). Inr (didWork, s')))"

subsection \<open>Advancing the slot\<close>

definition MAX_ADVANCE_SLOT_RECURSION :: nat where
  "MAX_ADVANCE_SLOT_RECURSION = 50"

text \<open>The four attempts in the order of the white paper, then the bumps on the outermost level.\<close>

definition attemptAll :: "process_envelope \<Rightarrow> SCPContext \<Rightarrow> SCPStatement \<Rightarrow> bool action" where
  "attemptAll proc ctx hint s =
     bindE (attemptAcceptPrepared proc ctx hint s) (\<lambda>(w1, s1).
     bindE (attemptConfirmPrepared proc ctx hint s1) (\<lambda>(w2, s2).
     bindE (attemptAcceptCommit proc ctx hint s2) (\<lambda>(w3, s3).
     bindE (attemptConfirmCommit proc ctx hint s3) (\<lambda>(w4, s4).
     Inr (w1 \<or> w2 \<or> w3 \<or> w4, s4)))))"

definition bumpOutermost :: "process_envelope \<Rightarrow> SCPContext \<Rightarrow> bool action" where
  "bumpOutermost proc ctx s =
     (if mCurrentMessageLevel s = 1
      then bindE (bumpLoop proc ctx s) (\<lambda>(didBump, s1).
           bindE (checkHeardFromQuorum ctx s1) (\<lambda>s2. Inr (didBump, s2)))
      else Inr (False, s))"

definition advanceSlotBody :: "process_envelope \<Rightarrow> SCPContext \<Rightarrow> SCPStatement \<Rightarrow> Slot \<Rightarrow> scp_error + Slot" where
  "advanceSlotBody proc ctx hint s =
     (let s0 = s\<lparr>mCurrentMessageLevel := mCurrentMessageLevel s + 1\<rparr> in
      if mCurrentMessageLevel s0 \<ge> MAX_ADVANCE_SLOT_RECURSION then Inl MaxTransitions
      else
        bindE (attemptAll proc ctx hint s0) (\<lambda>(didWork, s1).
        bindE (bumpOutermost proc ctx s1) (\<lambda>(didBump, s2).
        let s3 = s2\<lparr>mCurrentMessageLevel := mCurrentMessageLevel s2 - 1\<rparr>
        in Inr (if didWork \<or> didBump then sendLatestEnvelope s3 else s3))))"

definition ballotProcessEnvelope ::
  "(SCPStatement \<Rightarrow> Slot \<Rightarrow> scp_error + Slot) \<Rightarrow> SCPContext \<Rightarrow> process_envelope" where
  "ballotProcessEnvelope advance ctx env self s =
     (let st = envStatement env in
      if slotIndex st \<noteq> slotIdx ctx then Inl DbgAssert
      else
        bindE (isStatementSane ctx st self) (\<lambda>sane.
          if \<not> sane then Inr (INVALID, s)
          else if \<not> isNewerStatementFrom (nodeID st) st s then Inr (INVALID, s)
          else
            let validationRes = validateValues ctx st in
            if validationRes = kInvalidValue then Inr (INVALID, s)
            else if mPhase s \<noteq> SCP_PHASE_EXTERNALIZE
            then
              let s1 = (if validationRes = kMaybeValidValue then s\<lparr>mFullyValidated := False\<rparr> else s)
              in bindE (advance st (recordEnvelope env s1)) (\<lambda>s2. Inr (VALID, s2))
            else
              bindE (deref (mCommit s)) (\<lambda>c.
                if ballotValue c = ballotValue (getWorkingBallot st)
                then Inr (VALID, recordEnvelope env s)
                else Inr (INVALID, s))))"

text \<open>
  The statements that the ballot protocol produces are never nominations, so that the handler of
  nominations is not called on the cycle.
\<close>

abbreviation ballotSlotProcess ::
  "(SCPStatement \<Rightarrow> Slot \<Rightarrow> scp_error + Slot) \<Rightarrow> SCPContext \<Rightarrow> process_envelope" where
  "ballotSlotProcess advance ctx \<equiv>
     slotProcessEnvelope (\<lambda>_ _. Inl DbgAbort) (ballotProcessEnvelope advance ctx) ctx"

primrec advanceSlot :: "nat \<Rightarrow> SCPContext \<Rightarrow> SCPStatement \<Rightarrow> Slot \<Rightarrow> scp_error + Slot" where
  "advanceSlot 0 ctx hint s = Inl OutOfFuel"
| "advanceSlot (Suc n) ctx hint s = advanceSlotBody (ballotSlotProcess (advanceSlot n ctx) ctx) ctx hint s"

abbreviation ballotProc :: "SCPContext \<Rightarrow> process_envelope" where
  "ballotProc ctx \<equiv> ballotSlotProcess (advanceSlot MAX_ADVANCE_SLOT_RECURSION ctx) ctx"

subsection \<open>Restoring and reporting the state\<close>

definition ballotSetStateFromEnvelope :: "SCPEnvelope \<Rightarrow> Slot \<Rightarrow> scp_error + Slot" where
  "ballotSetStateFromEnvelope e s =
     (if mCurrentBallot s \<noteq> None then Inl CannotSetState
      else
        let s0 = (recordEnvelope e s)\<lparr>mLastEnvelope := Some e, mLastEnvelopeEmit := Some e\<rparr>
        in case pledges (envStatement e) of
             SCP_ST_PREPARE prep \<Rightarrow>
               let b = prepBallot prep
               in bindE (bumpToBallot b True s0) (\<lambda>s1.
                  let s2 = (if prepared prep \<noteq> None then s1\<lparr>mPrepared := prepared prep\<rparr> else s1);
                      s3 = (if preparedPrime prep \<noteq> None then s2\<lparr>mPreparedPrime := preparedPrime prep\<rparr> else s2);
                      s4 = (if nH prep \<noteq> 0 then s3\<lparr>mHighBallot := Some (SCPBallot (nH prep) (ballotValue b))\<rparr> else s3);
                      s5 = (if nC prep \<noteq> 0 then s4\<lparr>mCommit := Some (SCPBallot (nC prep) (ballotValue b))\<rparr> else s4)
                  in Inr (s5\<lparr>mPhase := SCP_PHASE_PREPARE\<rparr>))
           | SCP_ST_CONFIRM c \<Rightarrow>
               let v = ballotValue (confBallot c)
               in bindE (bumpToBallot (confBallot c) True s0) (\<lambda>s1.
                  Inr (s1\<lparr>mPrepared := Some (SCPBallot (confNPrepared c) v),
                          mHighBallot := Some (SCPBallot (confNH c) v),
                          mCommit := Some (SCPBallot (confNCommit c) v),
                          mPhase := SCP_PHASE_CONFIRM\<rparr>))
           | SCP_ST_EXTERNALIZE ext \<Rightarrow>
               let v = ballotValue (extCommit ext)
               in bindE (bumpToBallot (SCPBallot UINT32_MAX v) True s0) (\<lambda>s1.
                  Inr (s1\<lparr>mPrepared := Some (SCPBallot UINT32_MAX v),
                          mHighBallot := Some (SCPBallot (extNH ext) v),
                          mCommit := Some (extCommit ext),
                          mPhase := SCP_PHASE_EXTERNALIZE\<rparr>))
           | SCP_ST_NOMINATE _ \<Rightarrow> Inl DbgAbort)"

definition reportsEnvelope :: "SCPContext \<Rightarrow> Slot \<Rightarrow> bool \<Rightarrow> NodeID \<Rightarrow> bool" where
  "reportsEnvelope ctx s forceSelf n \<longleftrightarrow> forceSelf \<or> n \<noteq> localNodeID ctx \<or> mFullyValidated s"

text \<open>The callback of \<open>processCurrentState\<close> returns whether to continue, with its own state.\<close>

primrec visitEnvelopes ::
  "(NodeID \<Rightarrow> bool) \<Rightarrow> (SCPEnvelope \<Rightarrow> 's \<Rightarrow> bool \<times> 's) \<Rightarrow> (NodeID \<times> SCPEnvelope) list \<Rightarrow> 's \<Rightarrow> bool \<times> 's" where
  "visitEnvelopes sel f [] x = (True, x)"
| "visitEnvelopes sel f (e # es) x =
     (if sel (fst e)
      then (case f (snd e) x of (continue, x') \<Rightarrow> if continue then visitEnvelopes sel f es x' else (False, x'))
      else visitEnvelopes sel f es x)"

definition ballotProcessCurrentState ::
  "SCPContext \<Rightarrow> (SCPEnvelope \<Rightarrow> 's \<Rightarrow> bool \<times> 's) \<Rightarrow> bool \<Rightarrow> Slot \<Rightarrow> 's \<Rightarrow> bool \<times> 's" where
  "ballotProcessCurrentState ctx f forceSelf s x =
     visitEnvelopes (reportsEnvelope ctx s forceSelf) f (mLatestEnvelopes s) x"

definition ballotGetLatestMessage :: "NodeID \<Rightarrow> Slot \<Rightarrow> SCPEnvelope option" where
  "ballotGetLatestMessage n s = map_of (mLatestEnvelopes s) n"

definition getExternalizingState :: "SCPContext \<Rightarrow> Slot \<Rightarrow> scp_error + SCPEnvelope list" where
  "getExternalizingState ctx s =
     (if mPhase s = SCP_PHASE_EXTERNALIZE
      then if mCommit s = None \<and> (\<exists>e \<in> set (mLatestEnvelopes s). fst e \<noteq> localNodeID ctx) then Inl NullDeref
           else Inr (map snd (filter (\<lambda>e.
             if fst e \<noteq> localNodeID ctx
             then (case mCommit s of
                     None \<Rightarrow> False
                   | Some c \<Rightarrow> areBallotsCompatible (getWorkingBallot (envStatement (snd e))) c)
             else mFullyValidated s) (mLatestEnvelopes s)))
      else Inr [])"

datatype QuorumInfoNodeState = AGREE | DISAGREE | DELAYED | MISSING | NO_INFO

definition NUM_TIMEOUTS_THRESHOLD_FOR_REPORTING :: nat where
  "NUM_TIMEOUTS_THRESHOLD_FOR_REPORTING = 2"

definition ballotGetState :: "SCPContext \<Rightarrow> NodeID \<Rightarrow> bool \<Rightarrow> Slot \<Rightarrow> QuorumInfoNodeState" where
  "ballotGetState ctx n selfAlreadyMovedOn s =
     (if n = localNodeID ctx then AGREE
      else case map_of (mLatestEnvelopes s) n of
        None \<Rightarrow>
          if mTimerExpCount s \<ge> NUM_TIMEOUTS_THRESHOLD_FOR_REPORTING \<or> selfAlreadyMovedOn then MISSING
          else NO_INFO
      | Some e \<Rightarrow>
          (case mLastEnvelopeEmit s of
             None \<Rightarrow> AGREE
           | Some selfEnv \<Rightarrow>
               let st = envStatement e;
                   t = pledgesType (pledges st);
                   externalized = (t = TYPE_EXTERNALIZE);
                   confirmedCommit = (case pledges st of
                                        SCP_ST_CONFIRM c \<Rightarrow> counter (confBallot c) = UINT32_MAX
                                      | _ \<Rightarrow> False);
                   state = (if mPhase s = SCP_PHASE_EXTERNALIZE \<and> (\<not> externalized \<or> \<not> confirmedCommit) \<and>
                               selfAlreadyMovedOn
                            then DELAYED else AGREE);
                   selfAcceptedConfirm = (mPhase s = SCP_PHASE_CONFIRM \<or> mPhase s = SCP_PHASE_EXTERNALIZE);
                   otherAcceptedConfirm = (t = TYPE_CONFIRM \<or> t = TYPE_EXTERNALIZE)
               in if selfAcceptedConfirm \<and> otherAcceptedConfirm \<and>
                     \<not> areBallotsCompatible (getWorkingBallot st) (getWorkingBallot (envStatement selfEnv))
                  then DISAGREE else state))"

end
