(* ===== verification/NominationProtocol.thy ===== *)
theory NominationProtocol
  imports BallotProtocol
begin

text \<open>
  \<open>src/src/scp/NominationProtocol.cpp\<close>, and the closing of the cycle of calls between
  \<open>Slot::processEnvelope\<close> and the two protocols: \<open>processEnvelope\<close> of the nomination protocol
  emits statements that come back to it through the slot. The code has no limit on the depth of
  these calls; the model has fuel.

  The accessor \<open>pledges.nominate()\<close> is read on nominations only: a slot stores nothing else in
  \<open>mLatestNominations\<close>. For other statements the predicates below are false.
\<close>

subsection \<open>Statements\<close>

text \<open>\<open>std::includes\<close>, as the linear merge of the two ranges that it is.\<close>

fun std_includes :: "'a::linorder list \<Rightarrow> 'a list \<Rightarrow> bool" where
  "std_includes xs [] = True"
| "std_includes [] (y # ys) = False"
| "std_includes (x # xs) (y # ys) =
     (if y < x then False else if x < y then std_includes xs (y # ys) else std_includes xs ys)"

text \<open>The result and the output parameter \<open>notEqual\<close>.\<close>

definition isSubsetHelper :: "Value list \<Rightarrow> Value list \<Rightarrow> bool \<times> bool" where
  "isSubsetHelper p v =
     (if length p \<le> length v
      then if std_includes v p then (True, length p \<noteq> length v) else (False, True)
      else (False, True))"

definition nomIsNewerStatement :: "SCPNomination \<Rightarrow> SCPNomination \<Rightarrow> bool" where
  "nomIsNewerStatement oldst st =
     (case isSubsetHelper (votes oldst) (votes st) of
        (False, _) \<Rightarrow> False
      | (True, grows) \<Rightarrow>
          (case isSubsetHelper (accepted oldst) (accepted st) of
             (False, _) \<Rightarrow> False
           | (True, g) \<Rightarrow> grows \<or> g))"

definition newerThanEnvelope :: "SCPEnvelope option \<Rightarrow> SCPNomination \<Rightarrow> bool" where
  "newerThanEnvelope old nom =
     (case old of
        None \<Rightarrow> True
      | Some e \<Rightarrow>
          (case pledges (envStatement e) of
             SCP_ST_NOMINATE oldst \<Rightarrow> nomIsNewerStatement oldst nom
           | _ \<Rightarrow> False))"

definition nomIsNewerStatementFrom :: "NodeID \<Rightarrow> SCPNomination \<Rightarrow> Slot \<Rightarrow> bool" where
  "nomIsNewerStatementFrom n nom s = newerThanEnvelope (map_of (mLatestNominations s) n) nom"

text \<open>\<open>std::adjacent_find\<close>: whether some neighbours satisfy \<open>P\<close>.\<close>

fun adjacent_find :: "('a \<Rightarrow> 'a \<Rightarrow> bool) \<Rightarrow> 'a list \<Rightarrow> bool" where
  "adjacent_find P (x # y # xs) = (P x y \<or> adjacent_find P (y # xs))"
| "adjacent_find P xs = False"

definition isSane :: "SCPNomination \<Rightarrow> bool" where
  "isSane nom \<longleftrightarrow>
     length (votes nom) + length (accepted nom) \<noteq> 0 \<and>
     \<not> adjacent_find (\<lambda>l r. \<not> l < r) (votes nom) \<and>
     \<not> adjacent_find (\<lambda>l r. \<not> l < r) (accepted nom)"

definition nomRecordEnvelope :: "SCPEnvelope \<Rightarrow> Slot \<Rightarrow> Slot" where
  "nomRecordEnvelope env s =
     recordStatement (envStatement env)
       (s\<lparr>mLatestNominations := map_put (nodeID (envStatement env)) env (mLatestNominations s)\<rparr>)"

definition votedPredicate :: "Value \<Rightarrow> SCPStatement \<Rightarrow> bool" where
  "votedPredicate v st = (case pledges st of SCP_ST_NOMINATE nom \<Rightarrow> v \<in> set (votes nom) | _ \<Rightarrow> False)"

definition acceptPredicate :: "Value \<Rightarrow> SCPStatement \<Rightarrow> bool" where
  "acceptPredicate v st = (case pledges st of SCP_ST_NOMINATE nom \<Rightarrow> v \<in> set (accepted nom) | _ \<Rightarrow> False)"

text \<open>\<open>applyAll\<close>: the values the processor is called with, in order.\<close>

definition applyAll :: "SCPNomination \<Rightarrow> Value list" where
  "applyAll nom = votes nom @ filter (\<lambda>a. a \<notin> set (votes nom)) (accepted nom)"

definition nominationStatementValues :: "SCPNomination \<Rightarrow> Value list" where
  "nominationStatementValues nom = applyAll nom"

subsection \<open>Emitting\<close>

definition nominationOf :: "SCPContext \<Rightarrow> Slot \<Rightarrow> SCPNomination" where
  "nominationOf ctx s =
     \<lparr>nomQuorumSetHash = localQSetHash ctx, votes = mVotes s, accepted = mAccepted s\<rparr>"

definition emitNomination :: "process_envelope \<Rightarrow> SCPContext \<Rightarrow> Slot \<Rightarrow> scp_error + Slot" where
  "emitNomination proc ctx s =
     (let nom = nominationOf ctx s;
          envelope = createEnvelope ctx
            \<lparr>nodeID = localNodeID ctx, slotIndex = 0, pledges = SCP_ST_NOMINATE nom\<rparr>
      in bindE (proc envelope True s) (\<lambda>(res, s1).
         if res = VALID
         then if newerThanEnvelope (mNominationLastEnvelope s1) nom
              then let s2 = s1\<lparr>mNominationLastEnvelope := Some envelope\<rparr>
                   in Inr (if mFullyValidated s2 then notify (EmitEnvelope envelope) s2 else s2)
              else Inr s1
         else Inl BadState))"

subsection \<open>Round leaders\<close>

definition hashNode :: "SCPContext \<Rightarrow> bool \<Rightarrow> NodeID \<Rightarrow> Slot \<Rightarrow> scp_error + uint64" where
  "hashNode ctx isPriority n s =
     bindE (dbgAssert (mPreviousValue s \<noteq> [])) (\<lambda>_.
     Inr (computeHashNode ctx (slotIdx ctx) (mPreviousValue s) isPriority (mRoundNumber s) n))"

definition hashValue :: "SCPContext \<Rightarrow> Value \<Rightarrow> Slot \<Rightarrow> scp_error + uint64" where
  "hashValue ctx v s =
     bindE (dbgAssert (mPreviousValue s \<noteq> [])) (\<lambda>_.
     Inr (computeValueHash ctx (slotIdx ctx) (mPreviousValue s) (mRoundNumber s) v))"

definition nodeWeight :: "SCPContext \<Rightarrow> NodeID \<Rightarrow> SCPQuorumSet \<Rightarrow> scp_error + uint64" where
  "nodeWeight ctx n qset =
     (if n = localNodeID ctx then Inr UINT64_MAX
      else case getNodeWeight n qset of Inl e \<Rightarrow> Inl (NumericError e) | Inr w \<Rightarrow> Inr w)"

definition getNodePriority :: "SCPContext \<Rightarrow> NodeID \<Rightarrow> SCPQuorumSet \<Rightarrow> Slot \<Rightarrow> scp_error + uint64" where
  "getNodePriority ctx n qset s =
     bindE (nodeWeight ctx n qset) (\<lambda>w.
       if w > 0
       then bindE (hashNode ctx False n s) (\<lambda>h. if h \<le> w then hashNode ctx True n s else Inr 0)
       else Inr 0)"

text \<open>One visit of the loop that looks for the leaders: the top priority so far and its nodes.\<close>

definition leaderVisit ::
  "SCPContext \<Rightarrow> SCPQuorumSet \<Rightarrow> Slot \<Rightarrow> NodeID \<Rightarrow> uint64 \<times> NodeID list \<Rightarrow> scp_error + (uint64 \<times> NodeID list)" where
  "leaderVisit ctx myQSet s cur acc =
     bindE (getNodePriority ctx cur myQSet s) (\<lambda>w.
       let (topPriority, leaders) = (if w > fst acc then (w, []) else acc)
       in Inr (topPriority, if w = topPriority \<and> w > 0 then set_insert cur leaders else leaders))"

definition newRoundLeaders :: "SCPContext \<Rightarrow> SCPQuorumSet \<Rightarrow> Slot \<Rightarrow> scp_error + NodeID list" where
  "newRoundLeaders ctx myQSet s =
     bindE (getNodePriority ctx (localNodeID ctx) myQSet s) (\<lambda>topPriority.
     bindE (snd (forAllNodes myQSet (\<lambda>cur acc. (True, bindE acc (leaderVisit ctx myQSet s cur)))
                   (Inr (topPriority, [localNodeID ctx]))))
       (\<lambda>(_, leaders). Inr leaders))"

text \<open>One round of the \<open>while\<close> loop; the flag says that leaders were added and the loop returns.\<close>

definition updateRoundLeadersRound :: "SCPContext \<Rightarrow> SCPQuorumSet \<Rightarrow> bool action" where
  "updateRoundLeadersRound ctx myQSet s =
     bindE (newRoundLeaders ctx myQSet s) (\<lambda>leaders.
       let s1 = s\<lparr>mRoundLeaders := foldl (\<lambda>acc n. set_insert n acc) (mRoundLeaders s) leaders\<rparr>
       in if length (mRoundLeaders s) \<noteq> length (mRoundLeaders s1) then Inr (True, s1)
          else Inr (False, s1\<lparr>mRoundNumber := mRoundNumber s1 + 1\<rparr>))"

definition maxLeaderCount :: "SCPQuorumSet \<Rightarrow> nat" where
  "maxLeaderCount myQSet = snd (forAllNodes myQSet (\<lambda>_ n. (True, n + 1)) 1)"

definition leadersQSet :: "SCPContext \<Rightarrow> SCPQuorumSet" where
  "leadersQSet ctx = normalizeQSet (Some (localNodeID ctx)) (localQSet ctx)"

definition updateRoundLeaders :: "SCPContext \<Rightarrow> Slot \<Rightarrow> scp_error + Slot" where
  "updateRoundLeaders ctx s =
     (let myQSet = leadersQSet ctx
      in case while_option
             (\<lambda>r. case r of
                    Inl _ \<Rightarrow> False
                  | Inr (found, s1) \<Rightarrow> \<not> found \<and> length (mRoundLeaders s1) < maxLeaderCount myQSet)
             (\<lambda>r. bindE r (\<lambda>(_, s1). updateRoundLeadersRound ctx myQSet s1))
             (Inr (False, s)) of
           None \<Rightarrow> Inl Diverges
         | Some r \<Rightarrow> bindE r (\<lambda>(_, s1). Inr s1))"

subsection \<open>Values to vote for\<close>

definition nomValidateValue :: "SCPContext \<Rightarrow> Value \<Rightarrow> ValidationLevel" where
  "nomValidateValue ctx v = validateValue ctx (slotIdx ctx) v True"

definition nomExtractValidValue :: "SCPContext \<Rightarrow> Value \<Rightarrow> Value option" where
  "nomExtractValidValue ctx v = extractValidValue ctx (slotIdx ctx) v"

definition valueToNominate :: "SCPContext \<Rightarrow> Value \<Rightarrow> Value option" where
  "valueToNominate ctx v =
     (if nomValidateValue ctx v = kFullyValidatedValue then Some v else nomExtractValidValue ctx v)"

primrec pickNewVote ::
  "SCPContext \<Rightarrow> Slot \<Rightarrow> Value list \<Rightarrow> uint64 \<Rightarrow> Value option \<Rightarrow> scp_error + Value option" where
  "pickNewVote ctx s [] newHash newVote = Inr newVote"
| "pickNewVote ctx s (v # vs) newHash newVote =
     (case valueToNominate ctx v of
        None \<Rightarrow> pickNewVote ctx s vs newHash newVote
      | Some w \<Rightarrow>
          if w \<in> set (mVotes s) then pickNewVote ctx s vs newHash newVote
          else bindE (hashValue ctx w s) (\<lambda>curHash.
               if curHash \<ge> newHash then pickNewVote ctx s vs curHash (Some w)
               else pickNewVote ctx s vs newHash newVote))"

definition getNewValueFromNomination :: "SCPContext \<Rightarrow> SCPNomination \<Rightarrow> Slot \<Rightarrow> scp_error + Value option" where
  "getNewValueFromNomination ctx nom s = pickNewVote ctx s (applyAll nom) 0 None"

subsection \<open>Processing a nomination\<close>

text \<open>Promotes votes of the statement to accepted; the flag is \<open>modified\<close>.\<close>

primrec acceptVotes :: "SCPContext \<Rightarrow> Value list \<Rightarrow> bool \<Rightarrow> Slot \<Rightarrow> bool \<times> Slot" where
  "acceptVotes ctx [] modified s = (modified, s)"
| "acceptVotes ctx (v # vs) modified s =
     (if v \<in> set (mAccepted s) then acceptVotes ctx vs modified s
      else if federatedAccept ctx (votedPredicate v) (acceptPredicate v) (mLatestNominations s)
      then
        if nomValidateValue ctx v = kFullyValidatedValue
        then acceptVotes ctx vs True
               (s\<lparr>mAccepted := set_insert v (mAccepted s), mVotes := set_insert v (mVotes s)\<rparr>)
        else (case nomExtractValidValue ctx v of
                None \<Rightarrow> acceptVotes ctx vs modified s
              | Some toVote \<Rightarrow>
                  acceptVotes ctx vs (modified \<or> toVote \<notin> set (mVotes s))
                    (s\<lparr>mVotes := set_insert toVote (mVotes s)\<rparr>))
      else acceptVotes ctx vs modified s)"

text \<open>Promotes accepted values to candidates; the flag is \<open>newCandidates\<close>.\<close>

primrec ratifyAccepted :: "SCPContext \<Rightarrow> Value list \<Rightarrow> bool \<Rightarrow> Slot \<Rightarrow> bool \<times> Slot" where
  "ratifyAccepted ctx [] newCandidates s = (newCandidates, s)"
| "ratifyAccepted ctx (a # as) newCandidates s =
     (if a \<in> set (mCandidates s) then ratifyAccepted ctx as newCandidates s
      else if federatedRatify ctx (acceptPredicate a) (mLatestNominations s)
      then ratifyAccepted ctx as True (s\<lparr>mCandidates := set_insert a (mCandidates s)\<rparr>)
      else ratifyAccepted ctx as newCandidates s)"

text \<open>Takes a vote of a round leader while there are no candidates.\<close>

definition takeLeaderVote :: "SCPContext \<Rightarrow> NodeID \<Rightarrow> SCPNomination \<Rightarrow> bool action" where
  "takeLeaderVote ctx n nom s =
     (if mCandidates s = [] \<and> n \<in> set (mRoundLeaders s)
      then bindE (getNewValueFromNomination ctx nom s) (\<lambda>newVote.
           case newVote of
             None \<Rightarrow> Inr (False, s)
           | Some v \<Rightarrow> Inr (True, notify (NominatingValue v) (s\<lparr>mVotes := set_insert v (mVotes s)\<rparr>)))
      else Inr (False, s))"

text \<open>
  The call of \<open>Slot::bumpState\<close> enters the cycle of the ballot protocol, which never comes back to
  the nomination protocol.
\<close>

definition updateCandidate :: "SCPContext \<Rightarrow> Slot \<Rightarrow> scp_error + Slot" where
  "updateCandidate ctx s =
     (let s1 = s\<lparr>mLatestCompositeCandidate := combineCandidates ctx (slotIdx ctx) (mCandidates s)\<rparr>
      in bindE (deref (mLatestCompositeCandidate s1)) (\<lambda>v.
         bindE (bumpStateForce (ballotProc ctx) ctx v False (notify (UpdatedCandidateValue v) s1)) (\<lambda>(_, s2).
         Inr s2)))"

definition nominationAdvance :: "process_envelope \<Rightarrow> SCPContext \<Rightarrow> NodeID \<Rightarrow> SCPNomination \<Rightarrow> Slot \<Rightarrow> scp_error + Slot" where
  "nominationAdvance proc ctx n nom s =
     (let (modified1, s1) = acceptVotes ctx (votes nom) False s;
          (newCandidates, s2) = ratifyAccepted ctx (mAccepted s1) False s1
      in bindE (takeLeaderVote ctx n nom s2) (\<lambda>(modified2, s3).
         bindE (if modified1 \<or> modified2 then emitNomination proc ctx s3 else Inr s3) (\<lambda>s4.
         if newCandidates then updateCandidate ctx s4 else Inr s4)))"

definition nominationProcessEnvelope :: "process_envelope \<Rightarrow> SCPContext \<Rightarrow> SCPEnvelope \<Rightarrow> EnvelopeState action" where
  "nominationProcessEnvelope proc ctx env s =
     (case pledges (envStatement env) of
        SCP_ST_NOMINATE nom \<Rightarrow>
          if \<not> nomIsNewerStatementFrom (nodeID (envStatement env)) nom s then Inr (INVALID, s)
          else if \<not> isSane nom then Inr (INVALID, s)
          else
            let s1 = nomRecordEnvelope env s
            in bindE (if mNominationStarted s1
                      then nominationAdvance proc ctx (nodeID (envStatement env)) nom s1 else Inr s1)
                 (\<lambda>s2. Inr (VALID, s2))
      | _ \<Rightarrow> Inl DbgAbort)"

text \<open>
  \<open>Slot::processEnvelope\<close> with both protocols: \<open>n\<close> bounds the depth of nested nominations.
\<close>

primrec nominationProcess :: "nat \<Rightarrow> SCPContext \<Rightarrow> SCPEnvelope \<Rightarrow> EnvelopeState action" where
  "nominationProcess 0 ctx env s = Inl OutOfFuel"
| "nominationProcess (Suc n) ctx env s =
     nominationProcessEnvelope
       (slotProcessEnvelope (nominationProcess n ctx)
          (ballotProcessEnvelope (advanceSlot MAX_ADVANCE_SLOT_RECURSION ctx) ctx) ctx) ctx env s"

definition slotProcess :: "nat \<Rightarrow> SCPContext \<Rightarrow> process_envelope" where
  "slotProcess n ctx =
     slotProcessEnvelope (nominationProcess n ctx)
       (ballotProcessEnvelope (advanceSlot MAX_ADVANCE_SLOT_RECURSION ctx) ctx) ctx"

subsection \<open>Nominating\<close>

definition voteAsLeader :: "SCPContext \<Rightarrow> Value \<Rightarrow> Slot \<Rightarrow> bool \<times> Slot" where
  "voteAsLeader ctx value s =
     (if localNodeID ctx \<in> set (mRoundLeaders s) \<and> value \<notin> set (mVotes s)
      then (True, notify (NominatingValue value) (s\<lparr>mVotes := set_insert value (mVotes s)\<rparr>))
      else (False, s))"

primrec voteWithLeaders :: "SCPContext \<Rightarrow> NodeID list \<Rightarrow> bool \<Rightarrow> bool action" where
  "voteWithLeaders ctx [] updated s = Inr (updated, s)"
| "voteWithLeaders ctx (leader # leaders) updated s =
     (case map_of (mLatestNominations s) leader of
        None \<Rightarrow> voteWithLeaders ctx leaders updated s
      | Some e \<Rightarrow>
          (case pledges (envStatement e) of
             SCP_ST_NOMINATE nom \<Rightarrow>
               bindE (getNewValueFromNomination ctx nom s) (\<lambda>newVote.
                 case newVote of
                   None \<Rightarrow> voteWithLeaders ctx leaders updated s
                 | Some v \<Rightarrow> voteWithLeaders ctx leaders True
                     (notify (NominatingValue v) (s\<lparr>mVotes := set_insert v (mVotes s)\<rparr>)))
           | _ \<Rightarrow> Inl DbgAbort))"

definition nominate :: "process_envelope \<Rightarrow> SCPContext \<Rightarrow> Value \<Rightarrow> Value \<Rightarrow> bool \<Rightarrow> bool action" where
  "nominate proc ctx value previousValue timedout s =
     (let s0 = (if timedout then s\<lparr>mNominationTimerExpCount := mNominationTimerExpCount s + 1\<rparr> else s)
      in if timedout \<and> \<not> mNominationStarted s0 then Inr (False, s0)
         else
           let s1 = s0\<lparr>mNominationStarted := True, mPreviousValue := previousValue,
                       mRoundNumber := mRoundNumber s0 + 1\<rparr>
           in bindE (updateRoundLeaders ctx s1) (\<lambda>s2.
              let timeout = computeTimeout (word_of_int (mRoundNumber s2));
                  (updated1, s3) = voteAsLeader ctx value s2
              in bindE (voteWithLeaders ctx (mRoundLeaders s3) updated1 s3) (\<lambda>(updated, s4).
                 let s5 = notify (SetupTimer NOMINATION_TIMER timeout
                                    (Some (NominateTimedOut value previousValue))) s4
                 in if updated
                    then bindE (emitNomination proc ctx s5) (\<lambda>s6. Inr (True, s6))
                    else Inr (False, s5))))"

subsection \<open>Restoring and reporting the state\<close>

definition nominationSetStateFromEnvelope :: "SCPEnvelope \<Rightarrow> Slot \<Rightarrow> scp_error + Slot" where
  "nominationSetStateFromEnvelope e s =
     (if mNominationStarted s then Inl CannotSetState
      else case pledges (envStatement e) of
        SCP_ST_NOMINATE nom \<Rightarrow>
          let s1 = nomRecordEnvelope e s
          in Inr (s1\<lparr>mAccepted := foldl (\<lambda>acc v. set_insert v acc) (mAccepted s1) (accepted nom),
                     mVotes := foldl (\<lambda>acc v. set_insert v acc) (mVotes s1) (votes nom),
                     mNominationLastEnvelope := Some e\<rparr>)
      | _ \<Rightarrow> Inl DbgAbort)"

definition nominationProcessCurrentState ::
  "SCPContext \<Rightarrow> (SCPEnvelope \<Rightarrow> 's \<Rightarrow> bool \<times> 's) \<Rightarrow> bool \<Rightarrow> Slot \<Rightarrow> 's \<Rightarrow> bool \<times> 's" where
  "nominationProcessCurrentState ctx f forceSelf s x =
     visitEnvelopes (reportsEnvelope ctx s forceSelf) f (mLatestNominations s) x"

definition nominationGetLatestMessage :: "NodeID \<Rightarrow> Slot \<Rightarrow> SCPEnvelope option" where
  "nominationGetLatestMessage n s = map_of (mLatestNominations s) n"

definition envelopeAccepted :: "SCPEnvelope \<Rightarrow> Value list" where
  "envelopeAccepted e = (case pledges (envStatement e) of SCP_ST_NOMINATE nom \<Rightarrow> accepted nom | _ \<Rightarrow> [])"

definition nominationGetState :: "SCPContext \<Rightarrow> NodeID \<Rightarrow> bool \<Rightarrow> Slot \<Rightarrow> QuorumInfoNodeState" where
  "nominationGetState ctx n selfAlreadyMovedOn s =
     (if n = localNodeID ctx then AGREE
      else
        let enoughTimeHasPassed =
              (mNominationTimerExpCount s \<ge> NUM_TIMEOUTS_THRESHOLD_FOR_REPORTING \<or> selfAlreadyMovedOn)
        in case map_of (mLatestNominations s) n of
             None \<Rightarrow> if enoughTimeHasPassed then MISSING else NO_INFO
           | Some e \<Rightarrow>
               (case mNominationLastEnvelope s of
                  None \<Rightarrow> AGREE
                | Some l \<Rightarrow>
                    if enoughTimeHasPassed
                    then case isSubsetHelper (envelopeAccepted e) (envelopeAccepted l) of
                           (isSubset, notEq) \<Rightarrow>
                             if isSubset then if notEq then DELAYED else AGREE else DISAGREE
                    else AGREE))"

end
