(* ===== verification/BallotInvariant.thy ===== *)
theory BallotInvariant
  imports BallotProtocol "HOL-Library.Option_ord" "HOL-Library.Product_Lexorder"
begin

text \<open>
  What every step of the ballot protocol keeps: the invariants that \<open>checkInvariants\<close> asserts,
  and how the state may move (phases, ballots and statements only advance, a commit value is
  never exchanged).
\<close>

subsection \<open>The order on statements\<close>

lemma compareBallotsOpt_order:
  "compareBallotsOpt a b < 0 \<longleftrightarrow> a < b" "compareBallotsOpt a b = 0 \<longleftrightarrow> a = b"
  by (cases a; cases b; auto simp: ballot_simps)+

text \<open>The key by which statements are compared, lexicographically.\<close>

type_synonym statement_key = "SCPStatementType \<times> SCPBallot \<times> SCPBallot option \<times> SCPBallot option \<times> uint32 \<times> uint32"

definition statementKey :: "SCPStatement \<Rightarrow> statement_key" where
  "statementKey st =
     (case pledges st of
        SCP_ST_PREPARE p \<Rightarrow> (TYPE_PREPARE, prepBallot p, prepared p, preparedPrime p, 0, nH p)
      | SCP_ST_CONFIRM c \<Rightarrow> (TYPE_CONFIRM, confBallot c, None, None, confNPrepared c, confNH c)
      | SCP_ST_EXTERNALIZE _ \<Rightarrow> (TYPE_EXTERNALIZE, nullBallot, None, None, 0, 0)
      | SCP_ST_NOMINATE _ \<Rightarrow> (TYPE_NOMINATE, nullBallot, None, None, 0, 0))"

lemma lexicographic_if:
  "(a, b) < (c, d) \<longleftrightarrow> (if a < c then True else if a = c then b < d else False)"
  for a c :: "'a::linorder" and b d :: "'b::linorder"
  by auto

lemma isNewerStatement_key: "isNewerStatement a b \<longleftrightarrow> statementKey a < statementKey b"
  by (cases "pledges a"; cases "pledges b";
      simp add: isNewerStatement_def statementKey_def pledgesType_def Let_def lexicographic_if
        compareBallotsOpt_order ballot_simps less_SCPStatementType_def del: less_prod_simp)

lemma isNewerStatement_irrefl: "\<not> isNewerStatement a a"
  by (simp add: isNewerStatement_key)

lemma isNewerStatement_trans: "isNewerStatement a b \<Longrightarrow> isNewerStatement b c \<Longrightarrow> isNewerStatement a c"
  by (simp add: isNewerStatement_key)

text \<open>\<open>e'\<close> is \<open>e\<close> or replaces it.\<close>

definition envLe :: "SCPEnvelope \<Rightarrow> SCPEnvelope \<Rightarrow> bool" where
  "envLe e e' \<longleftrightarrow> e = e' \<or> isNewerStatement (envStatement e) (envStatement e')"

lemma envLe_refl [simp]: "envLe e e"
  by (simp add: envLe_def)

lemma envLe_trans: "envLe a b \<Longrightarrow> envLe b c \<Longrightarrow> envLe a c"
  by (auto simp: envLe_def intro: isNewerStatement_trans)

definition optEnvLe :: "SCPEnvelope option \<Rightarrow> SCPEnvelope option \<Rightarrow> bool" where
  "optEnvLe a b \<longleftrightarrow> (\<forall>e. a = Some e \<longrightarrow> (\<exists>e'. b = Some e' \<and> envLe e e'))"

lemma optEnvLe_refl [simp]: "optEnvLe a a"
  by (simp add: optEnvLe_def)

lemma optEnvLe_trans: "optEnvLe a b \<Longrightarrow> optEnvLe b c \<Longrightarrow> optEnvLe a c"
  unfolding optEnvLe_def by (metis envLe_trans)

lemma optEnvLe_None [simp]: "optEnvLe None b"
  by (simp add: optEnvLe_def)

lemma optEnvLe_Some [simp]: "optEnvLe (Some a) (Some b) \<longleftrightarrow> envLe a b" "\<not> optEnvLe (Some a) None"
  by (auto simp: optEnvLe_def)

subsection \<open>Invariants of a slot\<close>

text \<open>The conditions of \<open>checkInvariants\<close> as one predicate.\<close>

definition ballot_inv :: "Slot \<Rightarrow> bool" where
  "ballot_inv s \<longleftrightarrow>
     (mPhase s \<noteq> SCP_PHASE_PREPARE \<longrightarrow>
        mCurrentBallot s \<noteq> None \<and> mPrepared s \<noteq> None \<and> mCommit s \<noteq> None \<and> mHighBallot s \<noteq> None) \<and>
     (\<forall>b. mCurrentBallot s = Some b \<longrightarrow> counter b \<noteq> 0) \<and>
     (\<forall>p p'. mPrepared s = Some p \<longrightarrow> mPreparedPrime s = Some p' \<longrightarrow> areBallotsLessAndIncompatible p' p) \<and>
     (\<forall>h. mHighBallot s = Some h \<longrightarrow>
        (\<exists>b. mCurrentBallot s = Some b \<and> areBallotsLessAndCompatible h b)) \<and>
     (\<forall>c. mCommit s = Some c \<longrightarrow> (\<exists>h. mHighBallot s = Some h \<and> areBallotsLessAndCompatible c h))"

lemma checkInvariants_iff: "checkInvariants s = Inr () \<longleftrightarrow> ballot_inv s"
  by (auto simp: checkInvariants_def ballot_inv_def dbgAssert_def deref_def
      split: SCPPhase.splits option.splits if_splits)

text \<open>
  The statements that are kept: at most one per node, under the node's key, never a nomination.
\<close>

definition envelopes_ok :: "(NodeID \<times> SCPEnvelope) list \<Rightarrow> bool" where
  "envelopes_ok m \<longleftrightarrow> map_ok m \<and>
     (\<forall>(n, e) \<in> set m. nodeID (envStatement e) = n \<and> pledgesType (pledges (envStatement e)) \<noteq> TYPE_NOMINATE)"

definition emittedBallots :: "Slot \<Rightarrow> SCPEnvelope list" where
  "emittedBallots s =
     [e. EmitEnvelope e \<leftarrow> mEvents s, pledgesType (pledges (envStatement e)) \<noteq> TYPE_NOMINATE]"

text \<open>
  The emitted envelopes are strictly ascending, and \<open>mLastEnvelope\<close> is at least
  \<open>mLastEnvelopeEmit\<close>, which is at least what was emitted.
\<close>

definition emit_inv :: "Slot \<Rightarrow> bool" where
  "emit_inv s \<longleftrightarrow>
     sorted_wrt (\<lambda>a b. isNewerStatement (envStatement a) (envStatement b)) (emittedBallots s) \<and>
     (\<forall>e \<in> set (emittedBallots s). optEnvLe (Some e) (mLastEnvelopeEmit s)) \<and>
     optEnvLe (mLastEnvelopeEmit s) (mLastEnvelope s) \<and>
     (\<forall>e. mLastEnvelope s = Some e \<longrightarrow> pledgesType (pledges (envStatement e)) \<noteq> TYPE_NOMINATE)"

definition slot_inv :: "Slot \<Rightarrow> bool" where
  "slot_inv s \<longleftrightarrow> ballot_inv s \<and> envelopes_ok (mLatestEnvelopes s) \<and> emit_inv s"

subsection \<open>How a slot may move\<close>

definition envelopes_adv :: "(NodeID \<times> SCPEnvelope) list \<Rightarrow> (NodeID \<times> SCPEnvelope) list \<Rightarrow> bool" where
  "envelopes_adv m m' \<longleftrightarrow> (\<forall>n. optEnvLe (map_of m n) (map_of m' n))"

definition externalizeEvents :: "Slot \<Rightarrow> Value list" where
  "externalizeEvents s = [v. ValueExternalized v \<leftarrow> mEvents s]"

definition slot_adv :: "Slot \<Rightarrow> Slot \<Rightarrow> bool" where
  "slot_adv s s' \<longleftrightarrow>
     mCurrentMessageLevel s' = mCurrentMessageLevel s \<and>
     mPhase s \<le> mPhase s' \<and>
     (mPhase s' = mPhase s \<longrightarrow> mCurrentBallot s \<le> mCurrentBallot s') \<and>
     mPrepared s \<le> mPrepared s' \<and>
     (mPhase s \<noteq> SCP_PHASE_PREPARE \<longrightarrow>
        map_option ballotValue (mCommit s') = map_option ballotValue (mCommit s)) \<and>
     envelopes_adv (mLatestEnvelopes s) (mLatestEnvelopes s') \<and>
     optEnvLe (mLastEnvelope s) (mLastEnvelope s') \<and>
     (mFullyValidated s' \<longrightarrow> mFullyValidated s) \<and>
     (\<not> mFullyValidated s \<longrightarrow> emittedBallots s' = emittedBallots s)"

text \<open>\<open>valueExternalized\<close> is called when the slot enters the last phase, and only then.\<close>

definition externalize_adv :: "Slot \<Rightarrow> Slot \<Rightarrow> bool" where
  "externalize_adv s s' \<longleftrightarrow>
     externalizeEvents s' = externalizeEvents s @
       (if mPhase s \<noteq> SCP_PHASE_EXTERNALIZE \<and> mPhase s' = SCP_PHASE_EXTERNALIZE
        then [ballotValue (the (mCommit s'))] else [])"

definition slot_step :: "Slot \<Rightarrow> Slot \<Rightarrow> bool" where
  "slot_step s s' \<longleftrightarrow> slot_adv s s' \<and> externalize_adv s s'"

lemma envelopes_adv_refl [simp]: "envelopes_adv m m"
  by (simp add: envelopes_adv_def)

lemma envelopes_adv_trans: "envelopes_adv a b \<Longrightarrow> envelopes_adv b c \<Longrightarrow> envelopes_adv a c"
  unfolding envelopes_adv_def by (blast intro: optEnvLe_trans)

lemma slot_adv_refl [simp]: "slot_adv s s"
  by (simp add: slot_adv_def)

lemma phase_least: "SCP_PHASE_PREPARE \<le> ph" "ph \<le> SCP_PHASE_EXTERNALIZE"
  "ph \<le> SCP_PHASE_PREPARE \<longleftrightarrow> ph = SCP_PHASE_PREPARE"
  "SCP_PHASE_EXTERNALIZE \<le> ph \<longleftrightarrow> ph = SCP_PHASE_EXTERNALIZE"
  "SCP_PHASE_CONFIRM \<le> ph \<longleftrightarrow> ph \<noteq> SCP_PHASE_PREPARE"
  by (cases ph; simp add: less_eq_SCPPhase_def)+

lemma slot_advD:
  assumes "slot_adv a b"
  shows "mCurrentMessageLevel b = mCurrentMessageLevel a" "mPhase a \<le> mPhase b"
    "mPhase b = mPhase a \<Longrightarrow> mCurrentBallot a \<le> mCurrentBallot b" "mPrepared a \<le> mPrepared b"
    "mPhase a \<noteq> SCP_PHASE_PREPARE \<Longrightarrow> map_option ballotValue (mCommit b) = map_option ballotValue (mCommit a)"
    "envelopes_adv (mLatestEnvelopes a) (mLatestEnvelopes b)" "optEnvLe (mLastEnvelope a) (mLastEnvelope b)"
    "mFullyValidated b \<Longrightarrow> mFullyValidated a" "\<not> mFullyValidated a \<Longrightarrow> emittedBallots b = emittedBallots a"
  using assms unfolding slot_adv_def by blast+

lemma slot_adv_trans:
  assumes ab: "slot_adv a b" and bc: "slot_adv b c"
  shows "slot_adv a c"
proof -
  note A = slot_advD [OF ab] and B = slot_advD [OF bc]
  have ph: "mPhase a \<le> mPhase c" by (rule order_trans [OF A(2) B(2)])
  have "mCurrentBallot a \<le> mCurrentBallot c" if "mPhase c = mPhase a"
  proof -
    have "mPhase b = mPhase a" using A(2) B(2) that by simp
    then show ?thesis using order_trans [OF A(3) B(3)] that by simp
  qed
  moreover have "map_option ballotValue (mCommit c) = map_option ballotValue (mCommit a)"
    if "mPhase a \<noteq> SCP_PHASE_PREPARE"
    using A(2) A(5) [OF that] B(5) that by (metis phase_least(3))
  moreover have "emittedBallots c = emittedBallots a" if "\<not> mFullyValidated a"
    using A(8,9) B(9) that by metis
  moreover have "mCurrentMessageLevel c = mCurrentMessageLevel a" using A(1) B(1) by simp
  ultimately show ?thesis
    unfolding slot_adv_def
    using ph order_trans [OF A(4) B(4)] envelopes_adv_trans [OF A(6) B(6)]
      optEnvLe_trans [OF A(7) B(7)] A(8) B(8) by blast
qed

lemma slot_adv_commit:
  "slot_adv a b \<Longrightarrow> mPhase a \<noteq> SCP_PHASE_PREPARE \<Longrightarrow> mCommit a = Some c \<Longrightarrow>
   \<exists>c'. mCommit b = Some c' \<and> ballotValue c' = ballotValue c"
  by (cases "mCommit b") (auto simp: slot_adv_def)

lemma slot_step_refl [simp]: "slot_step s s"
  by (simp add: slot_step_def externalize_adv_def)

lemma slot_step_trans:
  assumes "slot_step a b" "slot_step b c" "ballot_inv b"
  shows "slot_step a c"
proof -
  have adv: "slot_adv a b" "slot_adv b c" and ext: "externalize_adv a b" "externalize_adv b c"
    using assms by (auto simp: slot_step_def)
  have "externalize_adv a c"
  proof (cases "mPhase b = SCP_PHASE_EXTERNALIZE")
    case True
    then obtain d where d: "mCommit b = Some d" using assms(3) by (auto simp: ballot_inv_def)
    with True adv obtain d' where "mCommit c = Some d'" "ballotValue d' = ballotValue d"
      using slot_adv_commit [of b c d] by auto
    moreover have "mPhase c = SCP_PHASE_EXTERNALIZE" using adv True by (simp add: slot_adv_def phase_least)
    ultimately show ?thesis using ext True d by (simp add: externalize_adv_def)
  next
    case False
    then have "mPhase a \<noteq> SCP_PHASE_EXTERNALIZE" using adv by (auto simp: slot_adv_def phase_least)
    then show ?thesis using ext False by (simp add: externalize_adv_def)
  qed
  then show ?thesis using slot_adv_trans [OF adv] by (simp add: slot_step_def)
qed

subsection \<open>Elementary changes\<close>

lemma emittedBallots_simps [simp]:
  "emittedBallots (s\<lparr>mPrepared := x1\<rparr>) = emittedBallots s"
  "emittedBallots (s\<lparr>mPreparedPrime := x1\<rparr>) = emittedBallots s"
  "emittedBallots (s\<lparr>mCurrentBallot := x1\<rparr>) = emittedBallots s"
  "emittedBallots (s\<lparr>mHighBallot := x1\<rparr>) = emittedBallots s"
  "emittedBallots (s\<lparr>mCommit := x1\<rparr>) = emittedBallots s"
  "emittedBallots (s\<lparr>mHeardFromQuorum := x2\<rparr>) = emittedBallots s"
  "emittedBallots (s\<lparr>mLatestEnvelopes := x3\<rparr>) = emittedBallots s"
  "emittedBallots (s\<lparr>mPhase := x4\<rparr>) = emittedBallots s"
  "emittedBallots (s\<lparr>mValueOverride := x5\<rparr>) = emittedBallots s"
  "emittedBallots (s\<lparr>mCurrentMessageLevel := x6\<rparr>) = emittedBallots s"
  "emittedBallots (s\<lparr>mTimerExpCount := x6\<rparr>) = emittedBallots s"
  "emittedBallots (s\<lparr>mLastEnvelope := x7\<rparr>) = emittedBallots s"
  "emittedBallots (s\<lparr>mLastEnvelopeEmit := x7\<rparr>) = emittedBallots s"
  "emittedBallots (s\<lparr>mNominationStarted := x2\<rparr>) = emittedBallots s"
  "emittedBallots (s\<lparr>mStatementsHistory := x8\<rparr>) = emittedBallots s"
  "emittedBallots (s\<lparr>mFullyValidated := x2\<rparr>) = emittedBallots s"
  "emittedBallots (s\<lparr>mGotVBlocking := x2\<rparr>) = emittedBallots s"
  by (simp_all add: emittedBallots_def)

lemma externalizeEvents_simps [simp]:
  "externalizeEvents (s\<lparr>mPrepared := x1\<rparr>) = externalizeEvents s"
  "externalizeEvents (s\<lparr>mPreparedPrime := x1\<rparr>) = externalizeEvents s"
  "externalizeEvents (s\<lparr>mCurrentBallot := x1\<rparr>) = externalizeEvents s"
  "externalizeEvents (s\<lparr>mHighBallot := x1\<rparr>) = externalizeEvents s"
  "externalizeEvents (s\<lparr>mCommit := x1\<rparr>) = externalizeEvents s"
  "externalizeEvents (s\<lparr>mHeardFromQuorum := x2\<rparr>) = externalizeEvents s"
  "externalizeEvents (s\<lparr>mLatestEnvelopes := x3\<rparr>) = externalizeEvents s"
  "externalizeEvents (s\<lparr>mPhase := x4\<rparr>) = externalizeEvents s"
  "externalizeEvents (s\<lparr>mValueOverride := x5\<rparr>) = externalizeEvents s"
  "externalizeEvents (s\<lparr>mCurrentMessageLevel := x6\<rparr>) = externalizeEvents s"
  "externalizeEvents (s\<lparr>mTimerExpCount := x6\<rparr>) = externalizeEvents s"
  "externalizeEvents (s\<lparr>mLastEnvelope := x7\<rparr>) = externalizeEvents s"
  "externalizeEvents (s\<lparr>mLastEnvelopeEmit := x7\<rparr>) = externalizeEvents s"
  "externalizeEvents (s\<lparr>mNominationStarted := x2\<rparr>) = externalizeEvents s"
  "externalizeEvents (s\<lparr>mStatementsHistory := x8\<rparr>) = externalizeEvents s"
  "externalizeEvents (s\<lparr>mFullyValidated := x2\<rparr>) = externalizeEvents s"
  "externalizeEvents (s\<lparr>mGotVBlocking := x2\<rparr>) = externalizeEvents s"
  by (simp_all add: externalizeEvents_def)

lemma notify_sel [simp]:
  "mHeardFromQuorum (notify e s) = mHeardFromQuorum s"
  "mCurrentBallot (notify e s) = mCurrentBallot s"
  "mPrepared (notify e s) = mPrepared s"
  "mPreparedPrime (notify e s) = mPreparedPrime s"
  "mHighBallot (notify e s) = mHighBallot s"
  "mCommit (notify e s) = mCommit s"
  "mLatestEnvelopes (notify e s) = mLatestEnvelopes s"
  "mPhase (notify e s) = mPhase s"
  "mCurrentMessageLevel (notify e s) = mCurrentMessageLevel s"
  "mLastEnvelope (notify e s) = mLastEnvelope s"
  "mLastEnvelopeEmit (notify e s) = mLastEnvelopeEmit s"
  "mFullyValidated (notify e s) = mFullyValidated s"
  "mValueOverride (notify e s) = mValueOverride s"
  by (simp_all add: notify_def)

definition plainEvent :: "driver_event \<Rightarrow> bool" where
  "plainEvent e \<longleftrightarrow> (case e of EmitEnvelope _ \<Rightarrow> False | ValueExternalized _ \<Rightarrow> False | _ \<Rightarrow> True)"

lemma plainEvent_simps [simp]:
  "plainEvent (SetupTimer t n c)" "plainEvent (StartedBallotProtocol b)"
  "plainEvent (AcceptedBallotPrepared b)" "plainEvent (ConfirmedBallotPrepared b)"
  "plainEvent (AcceptedCommit b)" "plainEvent (BallotDidHearFromQuorum b)"
  "plainEvent (NominatingValue v)" "plainEvent (UpdatedCandidateValue v)"
  by (simp_all add: plainEvent_def)

lemma events_notify_plain [simp]:
  "plainEvent e \<Longrightarrow> emittedBallots (notify e s) = emittedBallots s"
  "plainEvent e \<Longrightarrow> externalizeEvents (notify e s) = externalizeEvents s"
  by (auto simp: plainEvent_def notify_def emittedBallots_def externalizeEvents_def split: driver_event.splits)

text \<open>
  A slot with the same statements and messages (but possibly other ballots): what the
  emission of a statement needs to know of the state before it.
\<close>

definition same_messages :: "Slot \<Rightarrow> Slot \<Rightarrow> bool" where
  "same_messages s s' \<longleftrightarrow>
     mLatestEnvelopes s' = mLatestEnvelopes s \<and> mLastEnvelope s' = mLastEnvelope s \<and>
     mLastEnvelopeEmit s' = mLastEnvelopeEmit s \<and> emittedBallots s' = emittedBallots s \<and>
     externalizeEvents s' = externalizeEvents s \<and> mFullyValidated s' = mFullyValidated s \<and>
     mCurrentMessageLevel s' = mCurrentMessageLevel s"

lemma same_messages_refl [simp]: "same_messages s s"
  by (simp add: same_messages_def)

lemma same_messages_trans: "same_messages a b \<Longrightarrow> same_messages b c \<Longrightarrow> same_messages a c"
  by (simp add: same_messages_def)

lemma same_messages_updates [simp]:
  "same_messages s (s'\<lparr>mPrepared := x1\<rparr>) \<longleftrightarrow> same_messages s s'"
  "same_messages s (s'\<lparr>mPreparedPrime := x1\<rparr>) \<longleftrightarrow> same_messages s s'"
  "same_messages s (s'\<lparr>mCurrentBallot := x1\<rparr>) \<longleftrightarrow> same_messages s s'"
  "same_messages s (s'\<lparr>mHighBallot := x1\<rparr>) \<longleftrightarrow> same_messages s s'"
  "same_messages s (s'\<lparr>mCommit := x1\<rparr>) \<longleftrightarrow> same_messages s s'"
  "same_messages s (s'\<lparr>mHeardFromQuorum := x2\<rparr>) \<longleftrightarrow> same_messages s s'"
  "same_messages s (s'\<lparr>mPhase := x4\<rparr>) \<longleftrightarrow> same_messages s s'"
  "same_messages s (s'\<lparr>mValueOverride := x5\<rparr>) \<longleftrightarrow> same_messages s s'"
  "same_messages s (s'\<lparr>mTimerExpCount := x6\<rparr>) \<longleftrightarrow> same_messages s s'"
  "same_messages s (s'\<lparr>mNominationStarted := x2\<rparr>) \<longleftrightarrow> same_messages s s'"
  "plainEvent e \<Longrightarrow> same_messages s (notify e s') \<longleftrightarrow> same_messages s s'"
  by (simp_all add: same_messages_def)

lemma same_messages_inv:
  "same_messages s s' \<Longrightarrow> envelopes_ok (mLatestEnvelopes s) \<Longrightarrow> envelopes_ok (mLatestEnvelopes s')"
  "same_messages s s' \<Longrightarrow> emit_inv s \<Longrightarrow> emit_inv s'"
  by (simp_all add: same_messages_def emit_inv_def)

text \<open>What a change of the ballots alone must satisfy to be a step.\<close>

definition ballots_adv :: "Slot \<Rightarrow> Slot \<Rightarrow> bool" where
  "ballots_adv s s' \<longleftrightarrow>
     mPhase s \<le> mPhase s' \<and>
     (mPhase s' = mPhase s \<longrightarrow> mCurrentBallot s \<le> mCurrentBallot s') \<and>
     mPrepared s \<le> mPrepared s' \<and>
     (mPhase s \<noteq> SCP_PHASE_PREPARE \<longrightarrow>
        map_option ballotValue (mCommit s') = map_option ballotValue (mCommit s))"

lemma same_messages_adv: "same_messages s s' \<Longrightarrow> ballots_adv s s' \<Longrightarrow> slot_adv s s'"
  by (simp add: same_messages_def ballots_adv_def slot_adv_def)

lemma same_messages_step:
  "same_messages s s' \<Longrightarrow> ballots_adv s s' \<Longrightarrow>
   mPhase s' = SCP_PHASE_EXTERNALIZE \<longrightarrow> mPhase s = SCP_PHASE_EXTERNALIZE \<Longrightarrow> slot_step s s'"
  by (auto simp: slot_step_def same_messages_adv externalize_adv_def same_messages_def)

subsection \<open>Bumping\<close>

lemma bumpToBallot_cases:
  assumes "bumpToBallot ballot check s = Inr s'"
  shows "same_messages s s'" "mPhase s' = mPhase s" "mPhase s \<noteq> SCP_PHASE_EXTERNALIZE"
    "mCurrentBallot s' = Some ballot" "mPrepared s' = mPrepared s" "mPreparedPrime s' = mPreparedPrime s"
    "check \<Longrightarrow> mCurrentBallot s \<le> Some ballot"
    "(\<forall>h. mHighBallot s = Some h \<longrightarrow> areBallotsCompatible ballot h) \<Longrightarrow>
       mHighBallot s' = mHighBallot s \<and> mCommit s' = mCommit s"
  using assms
  by (auto simp: bumpToBallot_def Let_def ballot_simps split: if_splits option.splits)

subsection \<open>Recording and sending envelopes\<close>

definition good_step :: "Slot \<Rightarrow> Slot \<Rightarrow> bool" where
  "good_step s s' \<longleftrightarrow> slot_inv s' \<and> slot_step s s'"

lemma good_step_refl: "slot_inv s \<Longrightarrow> good_step s s"
  by (simp add: good_step_def)

lemma good_step_trans: "good_step a b \<Longrightarrow> good_step b c \<Longrightarrow> good_step a c"
  by (auto simp: good_step_def slot_inv_def intro: slot_step_trans)

lemma good_stepD: "good_step s s' \<Longrightarrow> slot_inv s'"
  by (simp add: good_step_def)

lemma good_step_same:
  assumes "slot_inv s" "same_messages s s'" "ballot_inv s'" "ballots_adv s s'"
    "mPhase s' = SCP_PHASE_EXTERNALIZE \<longrightarrow> mPhase s = SCP_PHASE_EXTERNALIZE"
  shows "good_step s s'"
  using assms same_messages_inv [OF assms(2)] same_messages_step [OF assms(2,4,5)]
  by (simp add: good_step_def slot_inv_def)

lemma ballot_inv_cong:
  "mPhase s' = mPhase s \<Longrightarrow> mCurrentBallot s' = mCurrentBallot s \<Longrightarrow> mPrepared s' = mPrepared s \<Longrightarrow>
   mPreparedPrime s' = mPreparedPrime s \<Longrightarrow> mHighBallot s' = mHighBallot s \<Longrightarrow> mCommit s' = mCommit s \<Longrightarrow>
   ballot_inv s' \<longleftrightarrow> ballot_inv s"
  by (simp add: ballot_inv_def)

lemma emittedBallots_emit:
  "pledgesType (pledges (envStatement e)) \<noteq> TYPE_NOMINATE \<Longrightarrow>
   emittedBallots (notify (EmitEnvelope e) s) = emittedBallots s @ [e]"
  "externalizeEvents (notify (EmitEnvelope e) s) = externalizeEvents s"
  by (simp_all add: emittedBallots_def externalizeEvents_def notify_def)

lemma envLe_newer:
  "envLe a b \<Longrightarrow> isNewerStatement (envStatement b) (envStatement c) \<Longrightarrow> isNewerStatement (envStatement a) (envStatement c)"
  by (auto simp: envLe_def intro: isNewerStatement_trans)

lemma sendLatestEnvelope_step:
  assumes "slot_inv s"
  shows "good_step s (sendLatestEnvelope s)"
proof (cases "\<exists>e. mLastEnvelope s = Some e \<and> mCurrentMessageLevel s = 0 \<and> mFullyValidated s \<and> mLastEnvelopeEmit s \<noteq> Some e")
  case False
  then have "sendLatestEnvelope s = s" by (auto simp: sendLatestEnvelope_def split: option.splits)
  then show ?thesis using assms by (simp add: good_step_refl)
next
  case True
  then obtain e where e: "mLastEnvelope s = Some e" "mFullyValidated s" "mLastEnvelopeEmit s \<noteq> Some e"
    and eq: "sendLatestEnvelope s = notify (EmitEnvelope e) (s\<lparr>mLastEnvelopeEmit := Some e\<rparr>)"
    by (auto simp: sendLatestEnvelope_def)
  let ?s = "notify (EmitEnvelope e) (s\<lparr>mLastEnvelopeEmit := Some e\<rparr>)"
  have E: "emit_inv s" and B: "ballot_inv s" using assms by (auto simp: slot_inv_def)
  have nt: "pledgesType (pledges (envStatement e)) \<noteq> TYPE_NOMINATE" using E e by (simp add: emit_inv_def)
  have new: "isNewerStatement (envStatement x) (envStatement e)" if "x \<in> set (emittedBallots s)" for x
  proof -
    have "optEnvLe (Some x) (mLastEnvelopeEmit s)" using E that by (simp add: emit_inv_def)
    then obtain l where "mLastEnvelopeEmit s = Some l" "envLe x l" by (cases "mLastEnvelopeEmit s") auto
    moreover from this have "isNewerStatement (envStatement l) (envStatement e)"
      using E e by (auto simp: emit_inv_def envLe_def)
    ultimately show ?thesis by (auto simp: envLe_def intro: isNewerStatement_trans)
  qed
  have "emit_inv ?s"
    using E e nt new by (auto simp: emit_inv_def emittedBallots_emit sorted_wrt_append envLe_def)
  moreover have "ballot_inv ?s" using B by (subst ballot_inv_cong [of _ s]) simp_all
  ultimately show ?thesis
    unfolding eq using assms e
    by (simp add: good_step_def slot_inv_def slot_step_def slot_adv_def externalize_adv_def emittedBallots_emit)
qed

lemma setLastEnvelope_step:
  assumes "slot_inv s" "optEnvLe (mLastEnvelope s) (Some e)" "pledgesType (pledges (envStatement e)) \<noteq> TYPE_NOMINATE"
  shows "good_step s (s\<lparr>mLastEnvelope := Some e\<rparr>)"
proof -
  have "emit_inv (s\<lparr>mLastEnvelope := Some e\<rparr>)"
    using assms by (auto simp: slot_inv_def emit_inv_def intro: optEnvLe_trans)
  moreover have "ballot_inv (s\<lparr>mLastEnvelope := Some e\<rparr>)"
    using assms(1) by (subst ballot_inv_cong [of _ s]) (simp_all add: slot_inv_def)
  ultimately show ?thesis
    using assms by (simp add: good_step_def slot_inv_def slot_step_def slot_adv_def externalize_adv_def)
qed

lemma envelopes_ok_put:
  "envelopes_ok m \<Longrightarrow> pledgesType (pledges (envStatement e)) \<noteq> TYPE_NOMINATE \<Longrightarrow>
   envelopes_ok (map_put (nodeID (envStatement e)) e m)"
  by (auto simp: envelopes_ok_def set_map_put)

lemma envelopes_adv_put:
  "(case map_of m n of None \<Rightarrow> True | Some e \<Rightarrow> isNewerStatement (envStatement e) (envStatement e')) \<Longrightarrow>
   envelopes_adv m (map_put n e' m)"
  by (auto simp: envelopes_adv_def envLe_def split: option.splits)

lemma recordEnvelope_step:
  assumes inv: "slot_inv s" and new: "isNewerStatementFrom (nodeID (envStatement e)) (envStatement e) s"
    and nt: "pledgesType (pledges (envStatement e)) \<noteq> TYPE_NOMINATE" and fv: "fv \<longrightarrow> mFullyValidated s"
  shows "good_step s (recordEnvelope e (s\<lparr>mFullyValidated := fv\<rparr>))"
proof -
  let ?s = "recordEnvelope e (s\<lparr>mFullyValidated := fv\<rparr>)"
  have "ballot_inv ?s"
    using inv by (subst ballot_inv_cong [of _ s]) (simp_all add: slot_inv_def recordEnvelope_def recordStatement_def)
  moreover have "envelopes_ok (mLatestEnvelopes ?s)"
    using inv nt by (simp add: recordEnvelope_def recordStatement_def slot_inv_def envelopes_ok_put)
  moreover have "emit_inv ?s"
    using inv by (simp add: recordEnvelope_def recordStatement_def slot_inv_def emit_inv_def)
  moreover have "envelopes_adv (mLatestEnvelopes s) (mLatestEnvelopes ?s)"
    using new by (simp add: recordEnvelope_def recordStatement_def isNewerStatementFrom_def envelopes_adv_put)
  ultimately show ?thesis
    using fv by (simp add: good_step_def slot_inv_def slot_step_def slot_adv_def externalize_adv_def)
      (simp add: recordEnvelope_def recordStatement_def)
qed

lemma createStatement_type:
  "createStatement ctx t s = Inr st \<Longrightarrow> pledgesType (pledges st) = t"
  "createStatement ctx t s = Inr st \<Longrightarrow> ballot_inv s"
  unfolding checkInvariants_iff [symmetric]
  by (auto simp: createStatement_def pledgesType_def split: SCPStatementType.splits)

lemma phaseType_not_nominate: "phaseType ph \<noteq> TYPE_NOMINATE"
  by (cases ph) (simp_all add: phaseType_def)

lemma createEnvelope_sel [simp]:
  "pledges (envStatement (createEnvelope ctx st)) = pledges st"
  "nodeID (envStatement (createEnvelope ctx st)) = localNodeID ctx"
  "slotIndex (envStatement (createEnvelope ctx st)) = slotIdx ctx"
  by (simp_all add: createEnvelope_def Let_def)

subsection \<open>State changes before a statement is emitted\<close>

lemma setPrepared_cases:
  assumes "setPrepared ballot s = (didWork, s')"
  shows "same_messages s s'" "mPhase s' = mPhase s" "mCurrentBallot s' = mCurrentBallot s"
    "mHighBallot s' = mHighBallot s" "mCommit s' = mCommit s" "mPrepared s \<le> mPrepared s'"
    "\<not> didWork \<Longrightarrow> s' = s"
  using assms by (auto simp: setPrepared_def ballot_simps split: if_splits option.splits)

lemma updateCurrentIfNeeded_cases:
  assumes "updateCurrentIfNeeded h s = Inr (didWork, s')"
  shows "same_messages s s'" "mPhase s' = mPhase s" "mCurrentBallot s \<le> mCurrentBallot s'"
    "mPrepared s' = mPrepared s" "mPreparedPrime s' = mPreparedPrime s" "\<not> didWork \<Longrightarrow> s' = s"
    "(\<forall>h'. mHighBallot s = Some h' \<longrightarrow> areBallotsCompatible h h') \<Longrightarrow>
       mHighBallot s' = mHighBallot s \<and> mCommit s' = mCommit s"
    "Some h \<le> mCurrentBallot s'"
  using assms bumpToBallot_cases [of h True s s']
  by (auto simp: updateCurrentIfNeeded_def ballot_simps split: if_splits option.splits)

lemma confirmPreparedUpdate_cases:
  assumes "confirmPreparedUpdate newC newH s = Inr (didWork, s')"
  shows "same_messages s s'" "mPhase s' = mPhase s" "mCurrentBallot s' = mCurrentBallot s"
    "mPrepared s' = mPrepared s" "mPreparedPrime s' = mPreparedPrime s"
    "\<not> didWork \<Longrightarrow> s' = s\<lparr>mValueOverride := Some (ballotValue newH)\<rparr>"
  using assms by (auto simp: confirmPreparedUpdate_def Let_def split: if_splits option.splits)

lemma ballot_inv_confirmE:
  assumes "ballot_inv s" "mPhase s \<noteq> SCP_PHASE_PREPARE"
  obtains b p c h where "mCurrentBallot s = Some b" "mPrepared s = Some p" "mCommit s = Some c" "mHighBallot s = Some h"
    "areBallotsLessAndCompatible c h" "areBallotsLessAndCompatible h b" "ballotValue c = ballotValue h"
  using assms by (auto simp: ballot_inv_def less_compatible_iff areBallotsCompatible_def)

lemma commit_high_value:
  "ballot_inv s \<Longrightarrow> mCommit s = Some c \<Longrightarrow> mHighBallot s = Some h \<Longrightarrow> ballotValue c = ballotValue h"
  by (auto simp: ballot_inv_def less_compatible_iff areBallotsCompatible_def)

lemma updateCurrentValue_cases:
  assumes "ballot_inv s" "updateCurrentValue ballot s = Inr (updated, s')"
  shows "same_messages s s'" "mPhase s' = mPhase s" "ballots_adv s s'" "\<not> updated \<Longrightarrow> s' = s"
    "updated \<Longrightarrow> mCurrentBallot s' = Some ballot \<and> mCurrentBallot s < Some ballot"
proof -
  have "same_messages s s' \<and> mPhase s' = mPhase s \<and> ballots_adv s s' \<and>
      mCurrentBallot s' = Some ballot \<and> mCurrentBallot s < Some ballot" if updated
  proof -
    have bump: "bumpToBallot ballot True s = Inr s'"
      and less: "mCurrentBallot s < Some ballot"
      and comp: "\<forall>c. mCommit s = Some c \<longrightarrow> mCurrentBallot s \<noteq> None \<longrightarrow> areBallotsCompatible c ballot"
      using assms(2) that
      by (auto simp: updateCurrentValue_def ballot_simps split: if_splits option.splits)
    note B = bumpToBallot_cases [OF bump]
    have "mCommit s' = mCommit s" if "mPhase s \<noteq> SCP_PHASE_PREPARE"
    proof -
      obtain b c h where c: "mCommit s = Some c" "mHighBallot s = Some h" "mCurrentBallot s = Some b"
        using assms(1) \<open>mPhase s \<noteq> SCP_PHASE_PREPARE\<close> by (auto simp: ballot_inv_def)
      then have "areBallotsCompatible ballot h"
        using comp commit_high_value [OF assms(1)] by (auto simp: areBallotsCompatible_def)
      then show ?thesis using B(8) c by simp
    qed
    then have "ballots_adv s s'" using B less by (simp add: ballots_adv_def)
    then show ?thesis using B less by blast
  qed
  moreover have "s' = s" if "\<not> updated"
    using assms(2) that by (auto simp: updateCurrentValue_def split: if_splits option.splits)
  ultimately show "same_messages s s'" "mPhase s' = mPhase s" "ballots_adv s s'" "\<not> updated \<Longrightarrow> s' = s"
    "updated \<Longrightarrow> mCurrentBallot s' = Some ballot \<and> mCurrentBallot s < Some ballot"
    by (cases updated; simp add: ballots_adv_def)+
qed

lemma checkHeardFromQuorum_cases:
  assumes "checkHeardFromQuorum ctx s = Inr s'"
  shows "same_messages s s'" "mPhase s' = mPhase s" "mCurrentBallot s' = mCurrentBallot s"
    "mPrepared s' = mPrepared s" "mPreparedPrime s' = mPreparedPrime s" "mHighBallot s' = mHighBallot s"
    "mCommit s' = mCommit s"
  using assms
  by (auto simp: checkHeardFromQuorum_def Let_def startBallotProtocolTimer_def stopBallotProtocolTimer_def
      deref_def split: if_splits option.splits)

lemma checkHeardFromQuorum_step:
  assumes "slot_inv s" "checkHeardFromQuorum ctx s = Inr s'"
  shows "good_step s s'"
proof -
  note C = checkHeardFromQuorum_cases [OF assms(2)]
  have "ballot_inv s'" using assms(1) C by (subst ballot_inv_cong [of _ s]) (simp_all add: slot_inv_def)
  then show ?thesis using assms(1) C by (intro good_step_same) (simp_all add: ballots_adv_def)
qed

lemma acceptCommitUpdate_eq:
  "acceptCommitUpdate c h s =
     (let changed = (mHighBallot s \<noteq> Some h \<or> mCommit s \<noteq> Some c);
          s1 = s\<lparr>mValueOverride := Some (ballotValue h), mCommit := Some c, mHighBallot := Some h\<rparr>
      in if mPhase s = SCP_PHASE_PREPARE
         then bindE (if (case mCurrentBallot s of None \<Rightarrow> False | Some b \<Rightarrow> \<not> areBallotsLessAndCompatible h b)
                     then bumpToBallot h False (s1\<lparr>mPhase := SCP_PHASE_CONFIRM\<rparr>)
                     else Inr (s1\<lparr>mPhase := SCP_PHASE_CONFIRM\<rparr>))
                (\<lambda>s3. Inr (True, s3\<lparr>mPreparedPrime := None\<rparr>))
         else Inr (changed, s1))"
proof (cases "mHighBallot s = Some h \<and> mCommit s = Some c")
  case True
  then show ?thesis by (cases s) (simp add: acceptCommitUpdate_def Let_def ballot_simps)
next
  case False
  then show ?thesis
    by (cases "mHighBallot s"; cases "mCommit s") (auto simp: acceptCommitUpdate_def Let_def ballot_simps)
qed

lemma acceptCommitUpdate_cases:
  assumes "acceptCommitUpdate c h s = Inr (didWork, s')"
  shows "same_messages s s'" "mPrepared s' = mPrepared s"
    "mPhase s = SCP_PHASE_PREPARE \<Longrightarrow> mPhase s' = SCP_PHASE_CONFIRM \<and> didWork"
    "mPhase s \<noteq> SCP_PHASE_PREPARE \<Longrightarrow> mPhase s' = mPhase s \<and> mCurrentBallot s' = mCurrentBallot s"
    "\<not> didWork \<Longrightarrow> s' = s\<lparr>mValueOverride := Some (ballotValue h)\<rparr>"
    "mHighBallot s' = Some h" "mCommit s' = Some c"
proof -
  let ?s1 = "s\<lparr>mValueOverride := Some (ballotValue h), mCommit := Some c, mHighBallot := Some h,
    mPhase := SCP_PHASE_CONFIRM\<rparr>"
  have bump: "same_messages s s3 \<and> mPhase s3 = SCP_PHASE_CONFIRM \<and> mPrepared s3 = mPrepared s \<and>
      mHighBallot s3 = Some h \<and> mCommit s3 = Some c" if "bumpToBallot h False ?s1 = Inr s3" for s3
    using bumpToBallot_cases [OF that] same_messages_trans [of s ?s1 s3] by simp
  show "same_messages s s'" "mPrepared s' = mPrepared s"
    "mPhase s = SCP_PHASE_PREPARE \<Longrightarrow> mPhase s' = SCP_PHASE_CONFIRM \<and> didWork"
    "mPhase s \<noteq> SCP_PHASE_PREPARE \<Longrightarrow> mPhase s' = mPhase s \<and> mCurrentBallot s' = mCurrentBallot s"
    "\<not> didWork \<Longrightarrow> s' = s\<lparr>mValueOverride := Some (ballotValue h)\<rparr>"
    "mHighBallot s' = Some h" "mCommit s' = Some c"
    using assms bump by (auto simp: acceptCommitUpdate_eq Let_def split: if_splits)
qed

text \<open>A bump that succeeds raises the counter, or the slot has moved to a later phase.\<close>

definition bumpMeasure :: "Slot \<Rightarrow> nat" where
  "bumpMeasure s = (2 - phaseRank (mPhase s)) * 2 ^ 32 + (2 ^ 32 - 1 - unat (currentCounter s))"

end
