(* ===== verification/BallotSteps.thy ===== *)
theory BallotSteps
  imports BallotInvariant
begin

text \<open>
  Every method of the ballot protocol that returns makes a good step: the invariants hold again
  and the slot has only advanced. The methods that process the node's own envelope are verified
  against the contract \<open>ballot_callback\<close> of that call, which \<open>advanceSlot\<close> then provides
  by induction on its nesting depth.
\<close>

subsection \<open>Steps on the cycle\<close>

text \<open>
  What the methods of the ballot protocol rely on when they process the node's own envelope:
  a call that returns is a good step. \<open>advanceSlot\<close> provides it for every fuel.
\<close>

locale ballot_callback =
  fixes proc :: process_envelope and ctx :: SCPContext
  assumes proc_step: "slot_inv s \<Longrightarrow> proc env self s = Inr (res, s') \<Longrightarrow> good_step s s'"
begin

lemma emit_step:
  assumes "emit_inv s" "envelopes_ok (mLatestEnvelopes s)" "emitCurrentStateStatement proc ctx s = Inr s'"
  shows "ballot_inv s \<and> good_step s s'"
proof -
  obtain st where st: "createStatement ctx (phaseType (mPhase s)) s = Inr st"
    using assms(3) by (auto simp: emitCurrentStateStatement_def)
  let ?env = "createEnvelope ctx st"
  have nt: "pledgesType (pledges (envStatement ?env)) \<noteq> TYPE_NOMINATE"
    using createStatement_type(1) [OF st] by (simp add: phaseType_not_nominate)
  have b: "ballot_inv s" by (rule createStatement_type(2) [OF st])
  then have inv: "slot_inv s" using assms by (simp add: slot_inv_def)
  show ?thesis
  proof (cases "map_of (mLatestEnvelopes s) (localNodeID ctx) = Some ?env")
    case True
    then have "s' = s" using assms(3) st by (simp add: emitCurrentStateStatement_def Let_def)
    then show ?thesis using b inv by (simp add: good_step_refl)
  next
    case False
    then obtain s1 where s1: "proc ?env True s = Inr (VALID, s1)"
      and s': "s' = s1 \<or> optEnvLe (mLastEnvelope s1) (Some ?env) \<and> s' = sendLatestEnvelope (s1\<lparr>mLastEnvelope := Some ?env\<rparr>)"
      using assms(3) st
      by (auto simp: emitCurrentStateStatement_def Let_def optEnvLe_def envLe_def split: if_splits option.splits)
    note g = proc_step [OF inv s1]
    from s' have "good_step s1 s'"
    proof
      assume "s' = s1"
      then show ?thesis using good_stepD [OF g] by (simp add: good_step_refl)
    next
      assume *: "optEnvLe (mLastEnvelope s1) (Some ?env) \<and> s' = sendLatestEnvelope (s1\<lparr>mLastEnvelope := Some ?env\<rparr>)"
      then have "good_step s1 (s1\<lparr>mLastEnvelope := Some ?env\<rparr>)"
        using setLastEnvelope_step [OF good_stepD [OF g]] nt by blast
      then show ?thesis using * sendLatestEnvelope_step good_stepD good_step_trans by blast
    qed
    then show ?thesis using b g good_step_trans by blast
  qed
qed

lemma emit_after:
  assumes "slot_inv s" "same_messages s s1" "ballots_adv s s1"
    "mPhase s1 = SCP_PHASE_EXTERNALIZE \<longrightarrow> mPhase s = SCP_PHASE_EXTERNALIZE"
    "emitCurrentStateStatement proc ctx s1 = Inr s'"
  shows "good_step s s'"
proof -
  have "ballot_inv s1 \<and> good_step s1 s'"
    using assms(1) same_messages_inv [OF assms(2)] by (intro emit_step [OF _ _ assms(5)]) (auto simp: slot_inv_def)
  moreover from this have "good_step s s1" using assms by (intro good_step_same) auto
  ultimately show ?thesis using good_step_trans by blast
qed

lemma setAcceptPrepared_step:
  assumes inv: "slot_inv s" and ok: "setAcceptPrepared proc ctx ballot s = Inr (didWork, s')"
  shows "good_step s s'"
proof -
  obtain w s1 where s1: "setPrepared ballot s = (w, s1)" by (cases "setPrepared ballot s")
  note P = setPrepared_cases [OF s1]
  obtain s2 where s2: "s2 = s1 \<or> mPhase s1 = SCP_PHASE_PREPARE \<and> s2 = s1\<lparr>mCommit := None\<rparr>"
    and s': "didWork \<and> emitCurrentStateStatement proc ctx (notify (AcceptedBallotPrepared ballot) s2) = Inr s' \<or>
      \<not> didWork \<and> s' = s1 \<and> \<not> w"
    using ok s1 by (auto simp: setAcceptPrepared_def split: option.splits if_splits)
  show ?thesis
  proof (cases didWork)
    case True
    then have e: "emitCurrentStateStatement proc ctx (notify (AcceptedBallotPrepared ballot) s2) = Inr s'"
      using s' by blast
    have "ballots_adv s (notify (AcceptedBallotPrepared ballot) s2)"
      "same_messages s (notify (AcceptedBallotPrepared ballot) s2)"
      using s2 P by (auto simp: ballots_adv_def)
    moreover have "mPhase s2 = mPhase s" using s2 P by auto
    ultimately show ?thesis using emit_after [OF inv _ _ _ e] by simp
  next
    case False
    then have "s' = s" using s' P(7) by simp
    then show ?thesis using inv by (simp add: good_step_refl)
  qed
qed

lemma attemptAcceptPrepared_step:
  "slot_inv s \<Longrightarrow> attemptAcceptPrepared proc ctx hint s = Inr (w, s') \<Longrightarrow> good_step s s'"
  by (auto simp: attemptAcceptPrepared_def good_step_refl split: if_splits option.splits
      dest: setAcceptPrepared_step)

lemma setConfirmPrepared_step:
  assumes inv: "slot_inv s" and ph: "mPhase s = SCP_PHASE_PREPARE"
    and ok: "setConfirmPrepared proc ctx newC newH s = Inr (w, s')"
  shows "good_step s s'"
proof -
  obtain w1 s2 where s2: "confirmPreparedUpdate newC newH s = Inr (w1, s2)"
    and rest: "bindE (updateCurrentIfNeeded newH s2) (\<lambda>(updated, s3).
      if updated \<or> w1 then bindE (emitCurrentStateStatement proc ctx s3) (\<lambda>s4. Inr (True, s4))
      else Inr (False, s3)) = Inr (w, s')"
    using ok by (auto simp: setConfirmPrepared_def)
  note C = confirmPreparedUpdate_cases [OF s2]
  obtain w2 s3 where s3: "updateCurrentIfNeeded newH s2 = Inr (w2, s3)"
    and emit: "(if w2 \<or> w1 then bindE (emitCurrentStateStatement proc ctx s3) (\<lambda>s4. Inr (True, s4))
      else Inr (False, s3)) = Inr (w, s')"
    using rest by auto
  note U = updateCurrentIfNeeded_cases [OF s3]
  have adv: "ballots_adv s s3" "same_messages s s3" "mPhase s3 = mPhase s"
    using C U ph same_messages_trans [OF C(1) U(1)] by (simp_all add: ballots_adv_def)
  show ?thesis
  proof (cases "w2 \<or> w1")
    case True
    then show ?thesis using emit_after [OF inv adv(2,1)] adv(3) emit by (auto split: if_splits)
  next
    case False
    then have "s' = s\<lparr>mValueOverride := Some (ballotValue newH)\<rparr>" using emit C(6) U(6) by simp
    moreover have "ballot_inv (s\<lparr>mValueOverride := Some (ballotValue newH)\<rparr>)"
      using inv by (subst ballot_inv_cong [of _ s]) (simp_all add: slot_inv_def)
    ultimately show ?thesis using inv by (intro good_step_same) (auto simp: ballots_adv_def)
  qed
qed

lemma attemptConfirmPrepared_step:
  "slot_inv s \<Longrightarrow> attemptConfirmPrepared proc ctx hint s = Inr (w, s') \<Longrightarrow> good_step s s'"
  by (auto simp: attemptConfirmPrepared_def Let_def good_step_refl split: if_splits list.splits
      dest: setConfirmPrepared_step)

lemma setAcceptCommit_step:
  assumes inv: "slot_inv s" and ph: "mPhase s \<noteq> SCP_PHASE_EXTERNALIZE"
    and val: "mPhase s = SCP_PHASE_CONFIRM \<Longrightarrow> map_option ballotValue (mCommit s) = Some (ballotValue c)"
    and ok: "setAcceptCommit proc ctx c h s = Inr (w, s')"
  shows "good_step s s'"
proof -
  obtain w1 s4 where s4: "acceptCommitUpdate c h s = Inr (w1, s4)"
    and rest: "(if w1 then bindE (deref (mHighBallot s4)) (\<lambda>h'.
            bindE (updateCurrentIfNeeded h' s4) (\<lambda>(_, s5).
            bindE (emitCurrentStateStatement proc ctx (notify (AcceptedCommit h) s5)) (\<lambda>s6.
            Inr (True, s6)))) else Inr (False, s4)) = Inr (w, s')"
    using ok by (auto simp: setAcceptCommit_def)
  note C = acceptCommitUpdate_cases [OF s4]
  show ?thesis
  proof (cases w1)
    case True
    then obtain w2 s5 where s5: "updateCurrentIfNeeded h s4 = Inr (w2, s5)"
      and emit: "emitCurrentStateStatement proc ctx (notify (AcceptedCommit h) s5) = Inr s'"
      using rest C(6) by (auto simp: deref_def)
    note U = updateCurrentIfNeeded_cases [OF s5]
    have "mCommit s5 = Some c" using U(7) C(6,7) by simp
    then have "ballots_adv s (notify (AcceptedCommit h) s5)"
      using U C val ph
      by (cases "mPhase s") (auto simp: ballots_adv_def phase_least)
    moreover have "same_messages s s5" "mPhase s5 \<noteq> SCP_PHASE_EXTERNALIZE"
      using same_messages_trans [OF C(1) U(1)] U(2) C(3,4) ph by (cases "mPhase s"; simp)+
    ultimately show ?thesis using emit_after [OF inv _ _ _ emit] by simp
  next
    case False
    then have "s' = s\<lparr>mValueOverride := Some (ballotValue h)\<rparr>" using rest C(5) by simp
    moreover have "ballot_inv (s\<lparr>mValueOverride := Some (ballotValue h)\<rparr>)"
      using inv by (subst ballot_inv_cong [of _ s]) (simp_all add: slot_inv_def)
    ultimately show ?thesis using inv by (intro good_step_same) (auto simp: ballots_adv_def)
  qed
qed

lemma attemptAcceptCommit_step:
  assumes inv: "slot_inv s" and ok: "attemptAcceptCommit proc ctx hint s = Inr (w, s')"
  shows "good_step s s'"
proof -
  have "s' = s \<or> (\<exists>c h. mPhase s \<noteq> SCP_PHASE_EXTERNALIZE \<and>
      (mPhase s = SCP_PHASE_CONFIRM \<longrightarrow> (\<exists>h'. mHighBallot s = Some h' \<and> ballotValue c = ballotValue h')) \<and>
      setAcceptCommit proc ctx c h s = Inr (w, s'))"
    using ok unfolding attemptAcceptCommit_def Let_def deref_def
    by (cases "commitHint hint"; cases "mHighBallot s"; cases "mPhase s")
      (fastforce simp: areBallotsCompatible_def split: if_splits)+
  then show ?thesis
  proof
    assume "\<exists>c h. mPhase s \<noteq> SCP_PHASE_EXTERNALIZE \<and>
      (mPhase s = SCP_PHASE_CONFIRM \<longrightarrow> (\<exists>h'. mHighBallot s = Some h' \<and> ballotValue c = ballotValue h')) \<and>
      setAcceptCommit proc ctx c h s = Inr (w, s')"
    then obtain c h where ph: "mPhase s \<noteq> SCP_PHASE_EXTERNALIZE"
      and v: "mPhase s = SCP_PHASE_CONFIRM \<longrightarrow> (\<exists>h'. mHighBallot s = Some h' \<and> ballotValue c = ballotValue h')"
      and set: "setAcceptCommit proc ctx c h s = Inr (w, s')" by blast
    have "map_option ballotValue (mCommit s) = Some (ballotValue c)" if "mPhase s = SCP_PHASE_CONFIRM"
    proof -
      have "ballot_inv s" "mPhase s \<noteq> SCP_PHASE_PREPARE" using inv that by (simp_all add: slot_inv_def)
      then show ?thesis by (rule ballot_inv_confirmE) (use v that in auto)
    qed
    then show ?thesis by (rule setAcceptCommit_step [OF inv ph _ set])
  qed (simp add: inv good_step_refl)
qed

lemma setConfirmCommit_step:
  assumes inv: "slot_inv s" and ph: "mPhase s = SCP_PHASE_CONFIRM"
    and val: "map_option ballotValue (mCommit s) = Some (ballotValue c)"
    and ok: "setConfirmCommit proc ctx c h s = Inr (w, s')"
  shows "good_step s s'" "mPhase s' = SCP_PHASE_EXTERNALIZE"
proof -
  let ?s0 = "s\<lparr>mCommit := Some c, mHighBallot := Some h\<rparr>"
  obtain w1 s1 s2 c' where s1: "updateCurrentIfNeeded h ?s0 = Inr (w1, s1)"
    and emit: "emitCurrentStateStatement proc ctx (s1\<lparr>mPhase := SCP_PHASE_EXTERNALIZE\<rparr>) = Inr s2"
    and c': "mCommit s2 = Some c'"
    and s': "s' = notify (ValueExternalized (ballotValue c')) (stopNomination s2)"
    using ok by (auto simp: setConfirmCommit_def deref_def split: option.splits)
  let ?s1 = "s1\<lparr>mPhase := SCP_PHASE_EXTERNALIZE\<rparr>"
  note U = updateCurrentIfNeeded_cases [OF s1]
  have sm: "same_messages s ?s1" using U(1) by (auto simp: same_messages_def)
  have "ballots_adv s ?s1" using U ph val by (auto simp: ballots_adv_def phase_least)
  then have adv1: "slot_adv s ?s1" by (rule same_messages_adv [OF sm])
  have "ballot_inv ?s1 \<and> good_step ?s1 s2"
    using inv same_messages_inv [OF sm] by (intro emit_step [OF _ _ emit]) (auto simp: slot_inv_def)
  then have g2: "slot_inv s2" "slot_adv ?s1 s2" "externalize_adv ?s1 s2"
    by (auto simp: good_step_def slot_step_def)
  then have ph2: "mPhase s2 = SCP_PHASE_EXTERNALIZE" by (auto simp: slot_adv_def phase_least)
  have sel: "mPhase s' = mPhase s2" "mCommit s' = Some c'" "mCurrentBallot s' = mCurrentBallot s2"
    "mPrepared s' = mPrepared s2" "mPreparedPrime s' = mPreparedPrime s2" "mHighBallot s' = mHighBallot s2"
    "mLatestEnvelopes s' = mLatestEnvelopes s2" "mLastEnvelope s' = mLastEnvelope s2"
    "mLastEnvelopeEmit s' = mLastEnvelopeEmit s2" "mFullyValidated s' = mFullyValidated s2"
    "mCurrentMessageLevel s' = mCurrentMessageLevel s2" "emittedBallots s' = emittedBallots s2"
    "externalizeEvents s' = externalizeEvents s2 @ [ballotValue c']"
    by (simp_all add: s' c' stopNomination_def)
      (simp_all add: notify_def emittedBallots_def externalizeEvents_def)
  have "slot_inv s'"
    using g2(1) sel c' ballot_inv_cong [of s' s2] by (simp add: slot_inv_def emit_inv_def)
  moreover have "slot_adv s2 s'" using sel c' by (simp add: slot_adv_def)
  then have "slot_adv s s'" using adv1 g2(2) slot_adv_trans by blast
  moreover have "externalizeEvents s2 = externalizeEvents s"
    using g2(3) ph2 sm by (simp add: externalize_adv_def same_messages_def)
  then have "externalize_adv s s'" using sel ph ph2 by (simp add: externalize_adv_def)
  ultimately show "good_step s s'" by (simp add: good_step_def slot_step_def)
  show "mPhase s' = SCP_PHASE_EXTERNALIZE" using sel(1) ph2 by simp
qed

lemma attemptConfirmCommit_step:
  assumes inv: "slot_inv s" and ok: "attemptConfirmCommit proc ctx hint s = Inr (w, s')"
  shows "good_step s s'"
proof -
  have "s' = s \<or> (\<exists>c h. mPhase s = SCP_PHASE_CONFIRM \<and>
      map_option ballotValue (mCommit s) = Some (ballotValue c) \<and> setConfirmCommit proc ctx c h s = Inr (w, s'))"
    using ok unfolding attemptConfirmCommit_def Let_def
    by (cases "commitHint hint"; cases "mHighBallot s"; cases "mCommit s"; cases "pledges hint")
      (fastforce simp: areBallotsCompatible_def split: if_splits)+
  then show ?thesis using inv setConfirmCommit_step good_step_refl by blast
qed

lemma bumpState_step:
  assumes inv: "slot_inv s" and ok: "bumpState proc ctx v n s = Inr (w, s')"
  shows "good_step s s'" "w \<Longrightarrow> mPhase s' = mPhase s \<Longrightarrow> n \<le> currentCounter s'"
proof -
  have binv: "ballot_inv s" using inv by (simp add: slot_inv_def)
  have *: "good_step s s' \<and> (w \<longrightarrow> mPhase s' = mPhase s \<longrightarrow> n \<le> currentCounter s')"
  proof (cases w)
    case False
    then have "s' = s"
      using ok updateCurrentValue_cases(4) [OF binv] by (auto simp: bumpState_def Let_def split: if_splits)
    then show ?thesis using False inv by (simp add: good_step_refl)
  next
    case True
    let ?newb = "SCPBallot n (case mValueOverride s of Some z \<Rightarrow> z | None \<Rightarrow> v)"
    from True obtain s1 s2 where ph: "mPhase s \<noteq> SCP_PHASE_EXTERNALIZE"
      and s1: "updateCurrentValue ?newb s = Inr (True, s1)"
      and s2: "emitCurrentStateStatement proc ctx s1 = Inr s2" and s': "checkHeardFromQuorum ctx s2 = Inr s'"
      using ok by (auto simp: bumpState_def Let_def split: if_splits)
    note U = updateCurrentValue_cases [OF binv s1]
    have g1: "ballot_inv s1 \<and> good_step s1 s2"
      using inv same_messages_inv [OF U(1)] by (intro emit_step [OF _ _ s2]) (auto simp: slot_inv_def)
    moreover have "good_step s s1" using inv g1 U(1-3) ph by (intro good_step_same) auto
    moreover have g3: "good_step s2 s'" using g1 checkHeardFromQuorum_step [OF _ s'] good_stepD by blast
    ultimately have "good_step s s'" "good_step s1 s'" using good_step_trans by blast+
    moreover have "n \<le> currentCounter s'" if "mPhase s' = mPhase s"
    proof -
      have "mCurrentBallot s1 \<le> mCurrentBallot s'"
        using \<open>good_step s1 s'\<close> that U(2) by (auto simp: good_step_def slot_step_def dest: slot_advD(3))
      then show ?thesis
        using U(5) by (cases "mCurrentBallot s'") (auto simp: currentCounter_def dest: ballot_le_counter)
    qed
    ultimately show ?thesis by blast
  qed
  then show "good_step s s'" "w \<Longrightarrow> mPhase s' = mPhase s \<Longrightarrow> n \<le> currentCounter s'" by blast+
qed

lemma bumpStateForce_step:
  "slot_inv s \<Longrightarrow> bumpStateForce proc ctx v force s = Inr (w, s') \<Longrightarrow> good_step s s'"
  using bumpState_step(1) by (auto simp: bumpStateForce_def good_step_refl split: if_splits)

lemma abandonBallot_step:
  assumes "slot_inv s" "abandonBallot proc ctx n s = Inr (w, s')"
  shows "good_step s s'" "n \<noteq> 0 \<Longrightarrow> w \<Longrightarrow> mPhase s' = mPhase s \<Longrightarrow> n \<le> currentCounter s'"
proof -
  have "s' = s \<and> \<not> w \<or> (\<exists>v. if n = 0 then bumpStateForce proc ctx v True s = Inr (w, s')
      else bumpState proc ctx v n s = Inr (w, s'))"
    using assms(2) by (auto simp: abandonBallot_def Let_def split: option.splits if_splits)
  then show "good_step s s'" "n \<noteq> 0 \<Longrightarrow> w \<Longrightarrow> mPhase s' = mPhase s \<Longrightarrow> n \<le> currentCounter s'"
    using assms(1) bumpState_step [OF assms(1)] bumpStateForce_step [OF assms(1)] good_step_refl
    by (auto split: if_splits)
qed

lemma ballotProtocolTimerExpired_step:
  assumes inv: "slot_inv s" and ok: "ballotProtocolTimerExpired proc ctx s = Inr (w, s')"
  shows "good_step s s'"
proof -
  let ?s = "s\<lparr>mTimerExpCount := mTimerExpCount s + 1\<rparr>"
  have "ballot_inv ?s" using inv by (subst ballot_inv_cong [of _ s]) (simp_all add: slot_inv_def)
  then have g: "good_step s ?s" using inv by (intro good_step_same) (auto simp: ballots_adv_def)
  then have "good_step ?s s'"
    using ok by (intro abandonBallot_step [OF good_stepD [OF g]]) (simp add: ballotProtocolTimerExpired_def)
  then show ?thesis using g good_step_trans by blast
qed

lemma attemptBump_step:
  assumes inv: "slot_inv s" and ok: "attemptBump proc ctx s = Inr (w, s')"
  shows "good_step s s'" "w \<Longrightarrow> bumpMeasure s' < bumpMeasure s"
proof -
  have "s' = s \<and> \<not> w \<or> (\<exists>n. bumpTarget ctx s = Some n \<and> abandonBallot proc ctx n s = Inr (w, s'))"
    using ok by (auto simp: attemptBump_def split: if_splits option.splits)
  then have *: "good_step s s' \<and> (w \<longrightarrow> bumpMeasure s' < bumpMeasure s)"
  proof
    assume "\<exists>n. bumpTarget ctx s = Some n \<and> abandonBallot proc ctx n s = Inr (w, s')"
    then obtain n where n: "bumpTarget ctx s = Some n" "abandonBallot proc ctx n s = Inr (w, s')" by blast
    have above: "currentCounter s < n"
      using n(1) by (auto simp: bumpTarget_def countersAbove_def find_Some_iff split: if_splits dest!: nth_mem)
    then have "n \<noteq> 0" by auto
    note A = abandonBallot_step [OF inv n(2)]
    have "bumpMeasure s' < bumpMeasure s" if w
    proof (cases "mPhase s' = mPhase s")
      case True
      then have "currentCounter s < currentCounter s'" using A(2) \<open>n \<noteq> 0\<close> that above by auto
      then show ?thesis
        using True unsigned_less [of "currentCounter s'", where ?'a = nat]
        by (auto simp: bumpMeasure_def word_less_nat_alt)
    next
      case False
      moreover have "mPhase s \<le> mPhase s'" using A(1) by (auto simp: good_step_def slot_step_def slot_adv_def)
      ultimately show ?thesis
        by (cases "mPhase s"; cases "mPhase s'") (simp_all add: bumpMeasure_def less_eq_SCPPhase_def)
    qed
    then show ?thesis using A(1) by blast
  qed (simp add: inv good_step_refl)
  then show "good_step s s'" "w \<Longrightarrow> bumpMeasure s' < bumpMeasure s" by blast+
qed

end

subsection \<open>The bump loop\<close>

abbreviation bumpAgain :: "scp_error + (bool \<times> bool \<times> Slot) \<Rightarrow> bool" where
  "bumpAgain r \<equiv> (case r of Inl _ \<Rightarrow> False | Inr (didBump, _, _) \<Rightarrow> didBump)"

definition bumpLoopInv :: "Slot \<Rightarrow> scp_error + (bool \<times> bool \<times> Slot) \<Rightarrow> bool" where
  "bumpLoopInv s r \<longleftrightarrow> (\<forall>d w s1. r = Inr (d, w, s1) \<longrightarrow> good_step s s1)"

definition bumpLoopMeasure :: "scp_error + (bool \<times> bool \<times> Slot) \<Rightarrow> nat" where
  "bumpLoopMeasure r = (case r of Inr (True, _, s) \<Rightarrow> Suc (bumpMeasure s) | _ \<Rightarrow> 0)"

lemma slot_inv_level: "slot_inv (s\<lparr>mCurrentMessageLevel := n\<rparr>) \<longleftrightarrow> slot_inv s"
  by (simp add: slot_inv_def emit_inv_def ballot_inv_def)

lemma good_step_level:
  assumes "good_step (s\<lparr>mCurrentMessageLevel := mCurrentMessageLevel s + 1\<rparr>) s'"
  shows "good_step s (s'\<lparr>mCurrentMessageLevel := mCurrentMessageLevel s' - 1\<rparr>)"
proof -
  have "slot_adv (s\<lparr>mCurrentMessageLevel := mCurrentMessageLevel s + 1\<rparr>) s'"
    using assms by (simp add: good_step_def slot_step_def)
  from slot_advD [OF this] have "slot_adv s (s'\<lparr>mCurrentMessageLevel := mCurrentMessageLevel s' - 1\<rparr>)"
    unfolding slot_adv_def by simp
  moreover have "externalize_adv s (s'\<lparr>mCurrentMessageLevel := mCurrentMessageLevel s' - 1\<rparr>)"
    using assms by (simp add: good_step_def slot_step_def externalize_adv_def)
  ultimately show ?thesis using assms by (simp add: good_step_def slot_step_def slot_inv_level)
qed

context ballot_callback
begin

abbreviation bumpBody :: "scp_error + (bool \<times> bool \<times> Slot) \<Rightarrow> scp_error + (bool \<times> bool \<times> Slot)" where
  "bumpBody r \<equiv> bindE r (\<lambda>(_, didWork, s1).
     bindE (attemptBump proc ctx s1) (\<lambda>(didBump, s2). Inr (didBump, didBump \<or> didWork, s2)))"

lemma bumpBody_inv: "bumpLoopInv s r \<Longrightarrow> bumpLoopInv s (bumpBody r)"
  unfolding bumpLoopInv_def by auto (metis attemptBump_step(1) good_stepD good_step_trans)

lemma bumpBody_measure:
  assumes inv: "bumpLoopInv s r" and again: "bumpAgain r"
  shows "bumpLoopMeasure (bumpBody r) < bumpLoopMeasure r"
proof -
  obtain w s1 where r: "r = Inr (True, w, s1)" using again by (cases r) (auto split: prod.splits)
  then have "slot_inv s1" using inv good_stepD by (auto simp: bumpLoopInv_def)
  then have "bumpMeasure s2 < bumpMeasure s1" if "attemptBump proc ctx s1 = Inr (True, s2)" for s2
    using attemptBump_step(2) that by blast
  then show ?thesis
    by (cases "attemptBump proc ctx s1") (auto simp: r bumpLoopMeasure_def split: bool.splits prod.splits)
qed

lemma bumpStart_inv:
  "slot_inv s \<Longrightarrow> bumpLoopInv s (bindE (attemptBump proc ctx s) (\<lambda>(didBump, s2). Inr (didBump, didBump, s2)))"
  using attemptBump_step(1) by (auto simp: bumpLoopInv_def)

lemma bumpLoop_ends:
  assumes "bumpLoopInv s r"
  shows "\<exists>r'. while_option bumpAgain bumpBody r = Some r'"
proof (rule wf_rel_while_option_Some [where R = "measure bumpLoopMeasure" and P = "bumpLoopInv s"])
  show "\<And>r. bumpLoopInv s r \<and> bumpAgain r \<Longrightarrow> (bumpBody r, r) \<in> measure bumpLoopMeasure"
    using bumpBody_measure [of s] unfolding in_measure by blast
  show "\<And>r. bumpLoopInv s r \<and> bumpAgain r \<Longrightarrow> bumpLoopInv s (bumpBody r)"
    using bumpBody_inv by blast
qed (simp_all add: assms)

lemma bumpLoop_result:
  assumes "slot_inv s"
  shows "\<exists>r'. bumpLoopInv s r' \<and> bumpLoop proc ctx s = bindE r' (\<lambda>(_, didWork, s'). Inr (didWork, s'))"
proof -
  let ?r = "bindE (attemptBump proc ctx s) (\<lambda>(didBump, s2). Inr (didBump, didBump, s2))"
  note inv = bumpStart_inv [OF assms]
  obtain r' where r': "while_option bumpAgain bumpBody ?r = Some r'" using bumpLoop_ends [OF inv] by blast
  have "bumpLoopInv s r'" using while_option_rule [OF _ r', where P = "bumpLoopInv s"] inv bumpBody_inv by blast
  then show ?thesis using r' by (auto simp: bumpLoop_def)
qed

lemma bumpLoop_step:
  "slot_inv s \<Longrightarrow> bumpLoop proc ctx s = Inr (w, s') \<Longrightarrow> good_step s s'"
proof -
  assume inv: "slot_inv s" and ok: "bumpLoop proc ctx s = Inr (w, s')"
  obtain r' where r': "bumpLoopInv s r'" "bumpLoop proc ctx s = bindE r' (\<lambda>(_, didWork, s'). Inr (didWork, s'))"
    using bumpLoop_result [OF inv] by blast
  then obtain d where "r' = Inr (d, w, s')" using ok by (cases r') auto
  then show ?thesis using r'(1) by (simp add: bumpLoopInv_def)
qed

text \<open>One level of \<open>advanceSlot\<close>.\<close>

lemma attemptAll_step:
  assumes inv: "slot_inv s" and ok: "attemptAll proc ctx hint s = Inr (w, s')"
  shows "good_step s s'"
proof -
  obtain w1 s1 w2 s2 w3 s3 w4 where
    s1: "attemptAcceptPrepared proc ctx hint s = Inr (w1, s1)" and
    s2: "attemptConfirmPrepared proc ctx hint s1 = Inr (w2, s2)" and
    s3: "attemptAcceptCommit proc ctx hint s2 = Inr (w3, s3)" and
    s4: "attemptConfirmCommit proc ctx hint s3 = Inr (w4, s')"
    using ok by (simp add: attemptAll_def) blast
  note g1 = attemptAcceptPrepared_step [OF inv s1]
  note g2 = attemptConfirmPrepared_step [OF good_stepD [OF g1] s2]
  note g3 = attemptAcceptCommit_step [OF good_stepD [OF g2] s3]
  note g4 = attemptConfirmCommit_step [OF good_stepD [OF g3] s4]
  show ?thesis using g1 g2 g3 g4 good_step_trans by blast
qed

lemma bumpOutermost_step:
  assumes inv: "slot_inv s" and ok: "bumpOutermost proc ctx s = Inr (w, s')"
  shows "good_step s s'"
proof (cases "mCurrentMessageLevel s = 1")
  case True
  then obtain s1 where "bumpLoop proc ctx s = Inr (w, s1)" "checkHeardFromQuorum ctx s1 = Inr s'"
    using ok by (auto simp: bumpOutermost_def)
  then show ?thesis
    using bumpLoop_step [OF inv] checkHeardFromQuorum_step good_stepD good_step_trans by blast
next
  case False
  then show ?thesis using ok inv by (simp add: bumpOutermost_def good_step_refl)
qed

lemma advanceSlotBody_step:
  assumes inv: "slot_inv s" and ok: "advanceSlotBody proc ctx hint s = Inr s'"
  shows "good_step s s'"
proof -
  let ?s0 = "s\<lparr>mCurrentMessageLevel := mCurrentMessageLevel s + 1\<rparr>"
  obtain w1 s1 w2 s2 where s1: "attemptAll proc ctx hint ?s0 = Inr (w1, s1)"
    and s2: "bumpOutermost proc ctx s1 = Inr (w2, s2)"
    and s': "s' = sendLatestEnvelope (s2\<lparr>mCurrentMessageLevel := mCurrentMessageLevel s2 - 1\<rparr>) \<or>
      s' = s2\<lparr>mCurrentMessageLevel := mCurrentMessageLevel s2 - 1\<rparr>"
    using ok by (auto simp: advanceSlotBody_def Let_def split: if_splits)
  have g1: "good_step ?s0 s1" using inv by (intro attemptAll_step [OF _ s1]) (simp add: slot_inv_level)
  have "good_step s1 s2" by (rule bumpOutermost_step [OF good_stepD [OF g1] s2])
  then have "good_step ?s0 s2" using g1 good_step_trans by blast
  then have "good_step s (s2\<lparr>mCurrentMessageLevel := mCurrentMessageLevel s2 - 1\<rparr>)"
    by (rule good_step_level)
  then show ?thesis using s' sendLatestEnvelope_step good_stepD good_step_trans by blast
qed

end

subsection \<open>Processing an envelope\<close>

lemma sane_not_nominate:
  "isStatementSane ctx st self = Inr True \<Longrightarrow> pledgesType (pledges st) \<noteq> TYPE_NOMINATE"
  by (auto simp: isStatementSane_def pledgesType_def split: option.splits if_splits SCPPledges.splits)

lemma ballotProcessEnvelope_cases:
  assumes "ballotProcessEnvelope advance ctx env self s = Inr (res, s')"
  shows "s' = s \<and> res = INVALID \<or>
    res = VALID \<and> isStatementSane ctx (envStatement env) self = Inr True \<and>
    isNewerStatementFrom (nodeID (envStatement env)) (envStatement env) s \<and>
    (mPhase s = SCP_PHASE_EXTERNALIZE \<and> s' = recordEnvelope env s \<or>
     mPhase s \<noteq> SCP_PHASE_EXTERNALIZE \<and> advance (envStatement env) (recordEnvelope env s) = Inr s' \<or>
     mPhase s \<noteq> SCP_PHASE_EXTERNALIZE \<and>
       advance (envStatement env) (recordEnvelope env (s\<lparr>mFullyValidated := False\<rparr>)) = Inr s')"
  using assms by (simp add: ballotProcessEnvelope_def Let_def split: if_splits) (metis (full_types))+

lemma ballotProcessEnvelope_step:
  assumes adv: "\<And>hint s s'. slot_inv s \<Longrightarrow> advance hint s = Inr s' \<Longrightarrow> good_step s s'"
    and inv: "slot_inv s" and ok: "ballotProcessEnvelope advance ctx env self s = Inr (res, s')"
  shows "good_step s s'"
proof (cases "s' = s")
  case True
  then show ?thesis using inv by (simp add: good_step_refl)
next
  case False
  let ?st = "envStatement env"
  have sane: "isStatementSane ctx ?st self = Inr True" and new: "isNewerStatementFrom (nodeID ?st) ?st s"
    and s': "s' = recordEnvelope env s \<or> advance ?st (recordEnvelope env s) = Inr s' \<or>
       advance ?st (recordEnvelope env (s\<lparr>mFullyValidated := False\<rparr>)) = Inr s'"
    using ballotProcessEnvelope_cases [OF ok] False by blast+
  note g = recordEnvelope_step [OF inv new sane_not_nominate [OF sane]]
  have "good_step s (recordEnvelope env s)" using g [of "mFullyValidated s"] by simp
  moreover have "good_step s (recordEnvelope env (s\<lparr>mFullyValidated := False\<rparr>))" using g [of False] by simp
  ultimately show ?thesis using s' adv good_stepD good_step_trans by blast
qed

lemma maybeSetGotVBlocking_step: "slot_inv s \<Longrightarrow> good_step s (maybeSetGotVBlocking ctx s)"
  by (cases "mGotVBlocking s")
    (auto simp: maybeSetGotVBlocking_def Let_def good_step_refl good_step_def slot_inv_def emit_inv_def
      ballot_inv_def slot_step_def slot_adv_def externalize_adv_def)

lemma slotProcessEnvelope_step:
  assumes nom: "\<And>s res s'. slot_inv s \<Longrightarrow> nomination env s = Inr (res, s') \<Longrightarrow> good_step s s'"
    and bal: "\<And>s res s'. slot_inv s \<Longrightarrow> ballot env self s = Inr (res, s') \<Longrightarrow> good_step s s'"
    and inv: "slot_inv s" and ok: "slotProcessEnvelope nomination ballot ctx env self s = Inr (res, s')"
  shows "good_step s s'"
proof -
  obtain s1 where s1: "nomination env s = Inr (res, s1) \<or> ballot env self s = Inr (res, s1)"
    and s': "s' = s1 \<or> s' = maybeSetGotVBlocking ctx s1"
    using ok by (auto simp: slotProcessEnvelope_def Let_def split: if_splits SCPPledges.splits)
  then have g: "good_step s s1" using nom [OF inv] bal [OF inv] by blast
  then show ?thesis using s' maybeSetGotVBlocking_step [OF good_stepD [OF g]] good_step_trans by blast
qed

lemma advanceSlot_step: "slot_inv s \<Longrightarrow> advanceSlot n ctx hint s = Inr s' \<Longrightarrow> good_step s s'"
proof (induction n arbitrary: hint s s')
  case (Suc n)
  have "ballot_callback (ballotSlotProcess (advanceSlot n ctx) ctx)"
  proof
    fix s env self res s'
    assume inv: "slot_inv s" and ok: "ballotSlotProcess (advanceSlot n ctx) ctx env self s = Inr (res, s')"
    show "good_step s s'"
      by (rule slotProcessEnvelope_step [OF _ _ inv ok])
        (auto intro: ballotProcessEnvelope_step [of "advanceSlot n ctx" _ ctx] Suc.IH)
  qed
  then show ?case using Suc.prems by (auto intro: ballot_callback.advanceSlotBody_step)
qed simp

interpretation ballot_cycle: ballot_callback "ballotSlotProcess (advanceSlot n ctx) ctx" ctx for n ctx
proof
  fix s env self res s'
  assume inv: "slot_inv s" and ok: "ballotSlotProcess (advanceSlot n ctx) ctx env self s = Inr (res, s')"
  show "good_step s s'"
    by (rule slotProcessEnvelope_step [OF _ _ inv ok])
      (auto intro: ballotProcessEnvelope_step [of "advanceSlot n ctx" _ ctx] advanceSlot_step)
qed

end
