(* ===== verification/BallotFrame.thy ===== *)
theory BallotFrame
  imports BallotSteps
begin

text \<open>
  The ballot protocol leaves the state of the nomination protocol alone: it only stops it when a
  value is externalized.
\<close>

definition nomPart ::
  "Slot \<Rightarrow> (int \<times> Value list \<times> Value list \<times> Value list \<times> (NodeID \<times> SCPEnvelope) list \<times> SCPEnvelope option) \<times>
    NodeID list \<times> Value option \<times> Value \<times> nat" where
  "nomPart s =
     ((mRoundNumber s, mVotes s, mAccepted s, mCandidates s, mLatestNominations s, mNominationLastEnvelope s),
      mRoundLeaders s, mLatestCompositeCandidate s, mPreviousValue s, mNominationTimerExpCount s)"

lemma nomPart_updates [simp]:
  "nomPart (s\<lparr>mHeardFromQuorum := x1\<rparr>) = nomPart s" "nomPart (s\<lparr>mCurrentBallot := x2\<rparr>) = nomPart s"
  "nomPart (s\<lparr>mPrepared := x2\<rparr>) = nomPart s" "nomPart (s\<lparr>mPreparedPrime := x2\<rparr>) = nomPart s"
  "nomPart (s\<lparr>mHighBallot := x2\<rparr>) = nomPart s" "nomPart (s\<lparr>mCommit := x2\<rparr>) = nomPart s"
  "nomPart (s\<lparr>mLatestEnvelopes := x3\<rparr>) = nomPart s" "nomPart (s\<lparr>mPhase := x4\<rparr>) = nomPart s"
  "nomPart (s\<lparr>mValueOverride := x5\<rparr>) = nomPart s" "nomPart (s\<lparr>mCurrentMessageLevel := x6\<rparr>) = nomPart s"
  "nomPart (s\<lparr>mTimerExpCount := x6\<rparr>) = nomPart s" "nomPart (s\<lparr>mLastEnvelope := x7\<rparr>) = nomPart s"
  "nomPart (s\<lparr>mLastEnvelopeEmit := x7\<rparr>) = nomPart s" "nomPart (s\<lparr>mNominationStarted := x1\<rparr>) = nomPart s"
  "nomPart (s\<lparr>mStatementsHistory := x8\<rparr>) = nomPart s" "nomPart (s\<lparr>mFullyValidated := x1\<rparr>) = nomPart s"
  "nomPart (s\<lparr>mGotVBlocking := x1\<rparr>) = nomPart s" "nomPart (s\<lparr>mEvents := x9\<rparr>) = nomPart s"
  by (simp_all add: nomPart_def)

lemma nomPart_notify [simp]: "nomPart (notify e s) = nomPart s"
  by (simp add: notify_def)

lemma nomPart_plain [simp]:
  "nomPart (recordEnvelope env s) = nomPart s" "nomPart (sendLatestEnvelope s) = nomPart s"
  "nomPart (stopBallotProtocolTimer s) = nomPart s" "nomPart (stopNomination s) = nomPart s"
  "nomPart (maybeSetGotVBlocking ctx s) = nomPart s"
  by (simp_all add: recordEnvelope_def recordStatement_def sendLatestEnvelope_def stopBallotProtocolTimer_def
      stopNomination_def maybeSetGotVBlocking_def Let_def split: option.splits)

named_theorems frame_rules \<open>methods that do not touch the nomination protocol\<close>

lemma bumpToBallot_frame [frame_rules]: "bumpToBallot b c s = Inr s' \<Longrightarrow> nomPart s' = nomPart s"
  by (auto simp: bumpToBallot_def Let_def split: if_splits option.splits)

lemma updateCurrentIfNeeded_frame [frame_rules]:
  "updateCurrentIfNeeded b s = Inr (w, s') \<Longrightarrow> nomPart s' = nomPart s"
  by (auto simp: updateCurrentIfNeeded_def split: if_splits option.splits dest: frame_rules)

lemma updateCurrentValue_frame [frame_rules]:
  "updateCurrentValue b s = Inr (w, s') \<Longrightarrow> nomPart s' = nomPart s"
  by (auto simp: updateCurrentValue_def Let_def split: if_splits option.splits dest: frame_rules)

lemma checkHeardFromQuorum_frame [frame_rules]: "checkHeardFromQuorum ctx s = Inr s' \<Longrightarrow> nomPart s' = nomPart s"
  by (auto simp: checkHeardFromQuorum_def startBallotProtocolTimer_def Let_def split: if_splits option.splits)

lemma setPrepared_frame [frame_rules]: "setPrepared b s = (w, s') \<Longrightarrow> nomPart s' = nomPart s"
  by (auto simp: setPrepared_def Let_def split: option.splits if_splits)

lemma confirmPreparedUpdate_frame [frame_rules]:
  "confirmPreparedUpdate c h s = Inr (w, s') \<Longrightarrow> nomPart s' = nomPart s"
  by (auto simp: confirmPreparedUpdate_def Let_def split: if_splits option.splits dest: frame_rules)

lemma acceptCommitUpdate_frame [frame_rules]:
  "acceptCommitUpdate c h s = Inr (w, s') \<Longrightarrow> nomPart s' = nomPart s"
  by (auto simp: acceptCommitUpdate_def Let_def split: if_splits option.splits dest: frame_rules)

locale ballot_frame =
  fixes proc :: process_envelope and ctx :: SCPContext
  assumes proc_frame: "proc env self s = Inr (res, s') \<Longrightarrow> nomPart s' = nomPart s"
begin

lemma emit_frame: "emitCurrentStateStatement proc ctx s = Inr s' \<Longrightarrow> nomPart s' = nomPart s"
  by (auto simp: emitCurrentStateStatement_def Let_def split: if_splits option.splits dest!: proc_frame)

lemma setAcceptPrepared_frame: "setAcceptPrepared proc ctx b s = Inr (w, s') \<Longrightarrow> nomPart s' = nomPart s"
  by (auto simp: setAcceptPrepared_def Let_def split: if_splits option.splits prod.splits
      dest!: emit_frame frame_rules)

lemma setConfirmPrepared_frame: "setConfirmPrepared proc ctx c h s = Inr (w, s') \<Longrightarrow> nomPart s' = nomPart s"
  by (auto simp: setConfirmPrepared_def Let_def split: if_splits option.splits dest!: emit_frame frame_rules)

lemma setAcceptCommit_frame: "setAcceptCommit proc ctx c h s = Inr (w, s') \<Longrightarrow> nomPart s' = nomPart s"
  by (auto simp: setAcceptCommit_def Let_def split: if_splits option.splits dest!: emit_frame frame_rules)

lemma setConfirmCommit_frame: "setConfirmCommit proc ctx c h s = Inr (w, s') \<Longrightarrow> nomPart s' = nomPart s"
  by (auto simp: setConfirmCommit_def dest!: emit_frame frame_rules)

lemma bumpState_frame: "bumpState proc ctx v n s = Inr (w, s') \<Longrightarrow> nomPart s' = nomPart s"
  by (auto simp: bumpState_def Let_def split: if_splits dest!: emit_frame frame_rules)

lemma bumpStateForce_frame: "bumpStateForce proc ctx v f s = Inr (w, s') \<Longrightarrow> nomPart s' = nomPart s"
  by (auto simp: bumpStateForce_def split: if_splits dest: bumpState_frame)

lemma abandonBallot_frame: "abandonBallot proc ctx n s = Inr (w, s') \<Longrightarrow> nomPart s' = nomPart s"
  by (auto simp: abandonBallot_def Let_def split: if_splits option.splits dest: bumpState_frame bumpStateForce_frame)

lemma attemptAcceptPrepared_frame:
  "attemptAcceptPrepared proc ctx hint s = Inr (w, s') \<Longrightarrow> nomPart s' = nomPart s"
  by (auto simp: attemptAcceptPrepared_def Let_def split: if_splits option.splits dest: setAcceptPrepared_frame)

lemma attemptConfirmPrepared_frame:
  "attemptConfirmPrepared proc ctx hint s = Inr (w, s') \<Longrightarrow> nomPart s' = nomPart s"
  by (auto simp: attemptConfirmPrepared_def Let_def split: if_splits option.splits list.splits
      dest: setConfirmPrepared_frame)

lemma attemptAcceptCommit_frame:
  "attemptAcceptCommit proc ctx hint s = Inr (w, s') \<Longrightarrow> nomPart s' = nomPart s"
  by (auto simp: attemptAcceptCommit_def Let_def split: if_splits option.splits dest: setAcceptCommit_frame)

lemma attemptConfirmCommit_frame:
  "attemptConfirmCommit proc ctx hint s = Inr (w, s') \<Longrightarrow> nomPart s' = nomPart s"
  by (auto simp: attemptConfirmCommit_def Let_def split: if_splits option.splits SCPPledges.splits
      dest: setConfirmCommit_frame)

lemma attemptBump_frame: "attemptBump proc ctx s = Inr (w, s') \<Longrightarrow> nomPart s' = nomPart s"
  by (auto simp: attemptBump_def split: if_splits option.splits dest: abandonBallot_frame)

lemma bumpLoop_frame: "bumpLoop proc ctx s = Inr (w, s') \<Longrightarrow> nomPart s' = nomPart s"
proof -
  assume ok: "bumpLoop proc ctx s = Inr (w, s')"
  let ?body = "\<lambda>r. bindE r (\<lambda>(_ :: bool, didWork, s1).
    bindE (attemptBump proc ctx s1) (\<lambda>(didBump, s2). Inr (didBump, didBump \<or> didWork, s2)))"
  let ?start = "bindE (attemptBump proc ctx s) (\<lambda>(didBump, s2). Inr (didBump, didBump, s2))"
  obtain r where r: "while_option (\<lambda>r. case r of Inl _ \<Rightarrow> False | Inr (didBump, _, _) \<Rightarrow> didBump) ?body ?start = Some r"
    and s': "bindE r (\<lambda>(_, didWork, s'). Inr (didWork, s')) = Inr (w, s')"
    using ok by (auto simp: bumpLoop_def split: option.splits)
  have "okE (\<lambda>(_, _, s1). nomPart s1 = nomPart s) r"
    by (rule while_option_rule [OF _ r]) (auto simp: okE_iff dest!: attemptBump_frame)
  then show ?thesis using s' by (auto simp: okE_iff)
qed

lemma attemptAll_frame: "attemptAll proc ctx hint s = Inr (w, s') \<Longrightarrow> nomPart s' = nomPart s"
  by (auto simp: attemptAll_def dest!: attemptAcceptPrepared_frame attemptConfirmPrepared_frame
      attemptAcceptCommit_frame attemptConfirmCommit_frame)

lemma bumpOutermost_frame: "bumpOutermost proc ctx s = Inr (w, s') \<Longrightarrow> nomPart s' = nomPart s"
  by (auto simp: bumpOutermost_def split: if_splits dest!: bumpLoop_frame frame_rules)

lemma advanceSlotBody_frame: "advanceSlotBody proc ctx hint s = Inr s' \<Longrightarrow> nomPart s' = nomPart s"
  by (auto simp: advanceSlotBody_def Let_def split: if_splits dest!: attemptAll_frame bumpOutermost_frame)

lemma ballotProtocolTimerExpired_frame:
  "ballotProtocolTimerExpired proc ctx s = Inr (w, s') \<Longrightarrow> nomPart s' = nomPart s"
  by (auto simp: ballotProtocolTimerExpired_def dest!: abandonBallot_frame)

end

lemma ballotProcessEnvelope_frame:
  assumes "\<And>st s s'. advance st s = Inr s' \<Longrightarrow> nomPart s' = nomPart s"
    and "ballotProcessEnvelope advance ctx env self s = Inr (res, s')"
  shows "nomPart s' = nomPart s"
  using assms(2)
  by (auto simp: ballotProcessEnvelope_def Let_def split: if_splits option.splits dest!: assms(1))

lemma ballotSlotProcess_frame:
  assumes "\<And>st s s'. advance st s = Inr s' \<Longrightarrow> nomPart s' = nomPart s"
    and "ballotSlotProcess advance ctx env self s = Inr (res, s')"
  shows "nomPart s' = nomPart s"
proof -
  have "nomPart s1 = nomPart s" if "ballotProcessEnvelope advance ctx env self s = Inr (r, s1)" for r s1
    by (rule ballotProcessEnvelope_frame [OF _ that]) (rule assms(1))
  then show ?thesis
    using assms(2) by (auto simp: slotProcessEnvelope_def Let_def split: if_splits SCPPledges.splits)
qed

lemma advanceSlot_frame: "advanceSlot n ctx hint s = Inr s' \<Longrightarrow> nomPart s' = nomPart s"
proof (induction n arbitrary: hint s s')
  case (Suc n)
  have "ballot_frame (ballotSlotProcess (advanceSlot n ctx) ctx)"
    by unfold_locales (blast intro: ballotSlotProcess_frame [of "advanceSlot n ctx" ctx] Suc.IH)
  then show ?case using Suc.prems by (auto intro: ballot_frame.advanceSlotBody_frame)
qed simp

interpretation ballot_only: ballot_frame "ballotSlotProcess (advanceSlot n ctx) ctx" ctx for n ctx
  by unfold_locales (blast intro: ballotSlotProcess_frame [of "advanceSlot n ctx" ctx] advanceSlot_frame)

end
