(* ===== verification/BallotTermination.thy ===== *)
theory BallotTermination imports BallotSteps begin

text \<open>
  Processing an envelope always returns or reports one of the code's own errors: the recursion
  depth that \<open>MAX_ADVANCE_SLOT_RECURSION\<close> allows is enough fuel, and the bump loop ends.
\<close>

definition proper_error :: "scp_error \<Rightarrow> bool" where
  "proper_error e \<longleftrightarrow> e \<noteq> OutOfFuel \<and> e \<noteq> Diverges"

named_theorems proper_errors \<open>errors of methods that do not call back\<close>

lemma dbgAssert_proper [proper_errors]: "dbgAssert b = Inl e \<Longrightarrow> proper_error e"
  by (auto simp: dbgAssert_def proper_error_def split: if_splits)

lemma deref_proper [proper_errors]: "deref p = Inl e \<Longrightarrow> proper_error e"
  by (auto simp: deref_def proper_error_def split: option.splits)

lemma checkInvariants_proper [proper_errors]: "checkInvariants s = Inl e \<Longrightarrow> proper_error e"
  by (auto simp: checkInvariants_def bindE_eq_Inl split: SCPPhase.splits option.splits dest: proper_errors)
    (simp_all add: proper_error_def)

lemma createStatement_proper [proper_errors]: "createStatement ctx t s = Inl e \<Longrightarrow> proper_error e"
  by (auto simp: createStatement_def bindE_eq_Inl split: SCPStatementType.splits dest: proper_errors)
    (simp_all add: proper_error_def)

lemma bumpToBallot_proper [proper_errors]: "bumpToBallot b c s = Inl e \<Longrightarrow> proper_error e"
  by (auto simp: bumpToBallot_def Let_def proper_error_def split: if_splits option.splits)

lemma updateCurrentIfNeeded_proper [proper_errors]: "updateCurrentIfNeeded b s = Inl e \<Longrightarrow> proper_error e"
  by (auto simp: updateCurrentIfNeeded_def bindE_eq_Inl split: if_splits option.splits dest: proper_errors)

lemma updateCurrentValue_proper [proper_errors]: "updateCurrentValue b s = Inl e \<Longrightarrow> proper_error e"
  by (auto simp: updateCurrentValue_def bindE_eq_Inl split: if_splits option.splits dest: proper_errors)
    (simp_all add: proper_error_def)

lemma checkHeardFromQuorum_proper [proper_errors]: "checkHeardFromQuorum ctx s = Inl e \<Longrightarrow> proper_error e"
  by (auto simp: checkHeardFromQuorum_def Let_def bindE_eq_Inl startBallotProtocolTimer_def
      split: if_splits option.splits dest: proper_errors)

lemma confirmPreparedUpdate_proper [proper_errors]: "confirmPreparedUpdate c h s = Inl e \<Longrightarrow> proper_error e"
  by (auto simp: confirmPreparedUpdate_def Let_def proper_error_def split: if_splits option.splits)

lemma acceptCommitUpdate_proper [proper_errors]: "acceptCommitUpdate c h s = Inl e \<Longrightarrow> proper_error e"
  by (auto simp: acceptCommitUpdate_eq Let_def bindE_eq_Inl split: if_splits option.splits dest: proper_errors)

lemma acceptPreparedCandidate_proper [proper_errors]:
  "acceptPreparedCandidate ctx s b = Inl e \<Longrightarrow> proper_error e"
  by (auto simp: acceptPreparedCandidate_def bindE_eq_Inl split: if_splits dest: proper_errors)
    (simp_all add: proper_error_def)

lemma firstE_proper [proper_errors]:
  "firstE (acceptPreparedCandidate ctx s) bs = Inl e \<Longrightarrow> proper_error e"
  by (induction bs) (auto simp: bindE_eq_Inl split: if_splits dest: proper_errors)

lemma isStatementSane_proper [proper_errors]: "isStatementSane ctx st self = Inl e \<Longrightarrow> proper_error e"
  by (auto simp: isStatementSane_def proper_error_def split: option.splits if_splits SCPPledges.splits)

text \<open>The contract of the call back, extended by this property on one nesting level.\<close>

locale ballot_callback_total = ballot_callback +
  fixes level :: nat
  assumes proc_proper: "slot_inv s \<Longrightarrow> mCurrentMessageLevel s = level \<Longrightarrow> proc env self s = Inl e \<Longrightarrow> proper_error e"
begin

lemma emit_proper:
  assumes "slot_inv s" "same_messages s s1" "mCurrentMessageLevel s = level"
    "emitCurrentStateStatement proc ctx s1 = Inl e"
  shows "proper_error e"
proof (cases "createStatement ctx (phaseType (mPhase s1)) s1")
  case (Inl e')
  then show ?thesis using assms(4) createStatement_proper [OF Inl] by (simp add: emitCurrentStateStatement_def)
next
  case (Inr st)
  have "slot_inv s1" "mCurrentMessageLevel s1 = level"
    using createStatement_type(2) [OF Inr] assms(1-3) same_messages_inv [OF assms(2)]
    by (auto simp: slot_inv_def same_messages_def)
  then have "\<And>env e. proc env True s1 = Inl e \<Longrightarrow> proper_error e" using proc_proper by blast
  then show ?thesis
    using assms(4) Inr
    by (auto simp: emitCurrentStateStatement_def Let_def bindE_eq_Inl proper_error_def split: if_splits)
qed

lemma setAcceptPrepared_proper:
  assumes inv: "slot_inv s" and lv: "mCurrentMessageLevel s = level"
    and err: "setAcceptPrepared proc ctx ballot s = Inl e"
  shows "proper_error e"
proof -
  obtain w s1 where s1: "setPrepared ballot s = (w, s1)" by (cases "setPrepared ballot s")
  note sm = setPrepared_cases(1) [OF s1]
  have "e = DbgAssert \<or> (\<exists>s2. same_messages s s2 \<and> emitCurrentStateStatement proc ctx s2 = Inl e)"
    using err s1 sm by (auto simp: setAcceptPrepared_def bindE_eq_Inl split: option.splits if_splits)
  then show ?thesis using emit_proper [OF inv _ lv] by (auto simp: proper_error_def)
qed

lemma attemptAcceptPrepared_proper:
  "slot_inv s \<Longrightarrow> mCurrentMessageLevel s = level \<Longrightarrow> attemptAcceptPrepared proc ctx hint s = Inl e \<Longrightarrow> proper_error e"
  by (auto simp: attemptAcceptPrepared_def bindE_eq_Inl split: if_splits option.splits
      dest: setAcceptPrepared_proper proper_errors)

lemma setConfirmPrepared_proper:
  assumes inv: "slot_inv s" and lv: "mCurrentMessageLevel s = level"
    and err: "setConfirmPrepared proc ctx newC newH s = Inl e"
  shows "proper_error e"
proof -
  have "proper_error e \<or> (\<exists>w1 s2 w2 s3. confirmPreparedUpdate newC newH s = Inr (w1, s2) \<and>
      updateCurrentIfNeeded newH s2 = Inr (w2, s3) \<and> emitCurrentStateStatement proc ctx s3 = Inl e)"
    using err by (auto simp: setConfirmPrepared_def bindE_eq_Inl split: if_splits dest: proper_errors)
  then show ?thesis
    using emit_proper [OF inv _ lv] confirmPreparedUpdate_cases(1) updateCurrentIfNeeded_cases(1) same_messages_trans
    by metis
qed

lemma attemptConfirmPrepared_proper:
  "slot_inv s \<Longrightarrow> mCurrentMessageLevel s = level \<Longrightarrow> attemptConfirmPrepared proc ctx hint s = Inl e \<Longrightarrow> proper_error e"
  by (auto simp: attemptConfirmPrepared_def Let_def split: if_splits list.splits dest: setConfirmPrepared_proper)

lemma setAcceptCommit_proper:
  assumes inv: "slot_inv s" and lv: "mCurrentMessageLevel s = level"
    and err: "setAcceptCommit proc ctx c h s = Inl e"
  shows "proper_error e"
proof -
  have "proper_error e \<or> (\<exists>w1 s2 h' w2 s3. acceptCommitUpdate c h s = Inr (w1, s2) \<and>
      updateCurrentIfNeeded h' s2 = Inr (w2, s3) \<and>
      emitCurrentStateStatement proc ctx (notify (AcceptedCommit h) s3) = Inl e)"
    using err by (auto simp: setAcceptCommit_def bindE_eq_Inl split: if_splits dest: proper_errors)
  then show ?thesis
  proof
    assume "\<exists>w1 s2 h' w2 s3. acceptCommitUpdate c h s = Inr (w1, s2) \<and>
      updateCurrentIfNeeded h' s2 = Inr (w2, s3) \<and>
      emitCurrentStateStatement proc ctx (notify (AcceptedCommit h) s3) = Inl e"
    then obtain w1 s2 h' w2 s3 where s2: "acceptCommitUpdate c h s = Inr (w1, s2)"
      and s3: "updateCurrentIfNeeded h' s2 = Inr (w2, s3)"
      and e: "emitCurrentStateStatement proc ctx (notify (AcceptedCommit h) s3) = Inl e" by blast
    have "same_messages s (notify (AcceptedCommit h) s3)"
      using same_messages_trans [OF acceptCommitUpdate_cases(1) [OF s2] updateCurrentIfNeeded_cases(1) [OF s3]] by simp
    then show ?thesis by (rule emit_proper [OF inv _ lv e])
  qed
qed

lemma attemptAcceptCommit_proper:
  "slot_inv s \<Longrightarrow> mCurrentMessageLevel s = level \<Longrightarrow> attemptAcceptCommit proc ctx hint s = Inl e \<Longrightarrow> proper_error e"
  by (auto simp: attemptAcceptCommit_def Let_def bindE_eq_Inl split: if_splits option.splits
      dest: setAcceptCommit_proper proper_errors)

lemma setConfirmCommit_proper:
  assumes inv: "slot_inv s" and lv: "mCurrentMessageLevel s = level"
    and err: "setConfirmCommit proc ctx c h s = Inl e"
  shows "proper_error e"
proof -
  have "proper_error e \<or> (\<exists>w s1. updateCurrentIfNeeded h (s\<lparr>mCommit := Some c, mHighBallot := Some h\<rparr>) = Inr (w, s1) \<and>
      emitCurrentStateStatement proc ctx (s1\<lparr>mPhase := SCP_PHASE_EXTERNALIZE\<rparr>) = Inl e)"
    using err by (auto simp: setConfirmCommit_def bindE_eq_Inl split: if_splits dest: proper_errors)
  then show ?thesis
  proof
    assume "\<exists>w s1. updateCurrentIfNeeded h (s\<lparr>mCommit := Some c, mHighBallot := Some h\<rparr>) = Inr (w, s1) \<and>
      emitCurrentStateStatement proc ctx (s1\<lparr>mPhase := SCP_PHASE_EXTERNALIZE\<rparr>) = Inl e"
    then obtain w s1 where s1: "updateCurrentIfNeeded h (s\<lparr>mCommit := Some c, mHighBallot := Some h\<rparr>) = Inr (w, s1)"
      and e: "emitCurrentStateStatement proc ctx (s1\<lparr>mPhase := SCP_PHASE_EXTERNALIZE\<rparr>) = Inl e" by blast
    have "same_messages s (s1\<lparr>mPhase := SCP_PHASE_EXTERNALIZE\<rparr>)"
      using updateCurrentIfNeeded_cases(1) [OF s1] by (simp add: same_messages_def)
    then show ?thesis by (rule emit_proper [OF inv _ lv e])
  qed
qed

lemma attemptConfirmCommit_proper:
  "slot_inv s \<Longrightarrow> mCurrentMessageLevel s = level \<Longrightarrow> attemptConfirmCommit proc ctx hint s = Inl e \<Longrightarrow> proper_error e"
  by (auto simp: attemptConfirmCommit_def Let_def split: if_splits option.splits SCPPledges.splits
      dest: setConfirmCommit_proper)

lemma bumpState_proper:
  assumes inv: "slot_inv s" and lv: "mCurrentMessageLevel s = level" and err: "bumpState proc ctx v n s = Inl e"
  shows "proper_error e"
proof -
  have "proper_error e \<or> (\<exists>b s1. updateCurrentValue b s = Inr (True, s1) \<and> emitCurrentStateStatement proc ctx s1 = Inl e)"
    using err by (auto simp: bumpState_def Let_def bindE_eq_Inl split: if_splits dest: proper_errors)
  then show ?thesis
    using emit_proper [OF inv _ lv] updateCurrentValue_cases(1) inv unfolding slot_inv_def by blast
qed

lemma bumpStateForce_proper:
  "slot_inv s \<Longrightarrow> mCurrentMessageLevel s = level \<Longrightarrow> bumpStateForce proc ctx v force s = Inl e \<Longrightarrow> proper_error e"
  by (auto simp: bumpStateForce_def split: if_splits dest: bumpState_proper)

lemma abandonBallot_proper:
  "slot_inv s \<Longrightarrow> mCurrentMessageLevel s = level \<Longrightarrow> abandonBallot proc ctx n s = Inl e \<Longrightarrow> proper_error e"
  by (auto simp: abandonBallot_def Let_def split: if_splits option.splits
      dest: bumpState_proper bumpStateForce_proper)

lemma attemptBump_proper:
  "slot_inv s \<Longrightarrow> mCurrentMessageLevel s = level \<Longrightarrow> attemptBump proc ctx s = Inl e \<Longrightarrow> proper_error e"
  by (auto simp: attemptBump_def split: if_splits option.splits dest: abandonBallot_proper)

lemma bumpLoop_proper:
  assumes inv: "slot_inv s" and lv: "mCurrentMessageLevel s = level" and err: "bumpLoop proc ctx s = Inl e"
  shows "proper_error e"
proof -
  let ?P = "\<lambda>r. bumpLoopInv s r \<and> (\<forall>e. r = Inl e \<longrightarrow> proper_error e)"
  let ?r = "bindE (attemptBump proc ctx s) (\<lambda>(didBump, s2). Inr (didBump, didBump, s2))"
  have start: "?P ?r"
    using bumpStart_inv [OF inv] attemptBump_proper [OF inv lv] by (auto simp: bindE_eq_Inl)
  have body: "?P (bumpBody r)" if "?P r" for r
  proof -
    have "proper_error e" if "attemptBump proc ctx s1 = Inl e" "r = Inr (d, w, s1)" for d w s1 e
    proof -
      have "good_step s s1" using \<open>?P r\<close> that(2) by (simp add: bumpLoopInv_def)
      then have "slot_inv s1" "mCurrentMessageLevel s1 = level"
        using lv by (auto simp: good_step_def slot_step_def slot_adv_def)
      then show ?thesis using attemptBump_proper that(1) by blast
    qed
    then show ?thesis using \<open>?P r\<close> bumpBody_inv by (auto simp: bindE_eq_Inl)
  qed
  obtain r' where r': "while_option bumpAgain bumpBody ?r = Some r'"
    using bumpLoop_ends [OF bumpStart_inv [OF inv]] by blast
  have "?P r'" by (rule while_option_rule [OF _ r', where P = ?P]) (use start body in auto)
  moreover have "bumpLoop proc ctx s = bindE r' (\<lambda>(_, didWork, s'). Inr (didWork, s'))"
    using r' by (simp add: bumpLoop_def)
  ultimately show ?thesis using err by (cases r') auto
qed

lemma good_step_level_eq: "good_step s s' \<Longrightarrow> mCurrentMessageLevel s = level \<Longrightarrow> mCurrentMessageLevel s' = level"
  by (simp add: good_step_def slot_step_def slot_adv_def)

lemma attemptAll_proper:
  assumes inv: "slot_inv s" and lv: "mCurrentMessageLevel s = level" and err: "attemptAll proc ctx hint s = Inl e"
  shows "proper_error e"
proof (cases "attemptAcceptPrepared proc ctx hint s")
  case (Inl e1)
  then show ?thesis using err attemptAcceptPrepared_proper [OF inv lv Inl] by (simp add: attemptAll_def)
next
  case r1: (Inr p1)
  then obtain w1 s1 where s1: "attemptAcceptPrepared proc ctx hint s = Inr (w1, s1)" by (cases p1) auto
  note g1 = attemptAcceptPrepared_step [OF inv s1]
  show ?thesis
  proof (cases "attemptConfirmPrepared proc ctx hint s1")
    case (Inl e2)
    then show ?thesis
      using err s1 attemptConfirmPrepared_proper [OF good_stepD [OF g1] good_step_level_eq [OF g1 lv] Inl]
      by (simp add: attemptAll_def)
  next
    case (Inr p2)
    then obtain w2 s2 where s2: "attemptConfirmPrepared proc ctx hint s1 = Inr (w2, s2)" by (cases p2) auto
    note g2 = good_step_trans [OF g1 attemptConfirmPrepared_step [OF good_stepD [OF g1] s2]]
    show ?thesis
    proof (cases "attemptAcceptCommit proc ctx hint s2")
      case (Inl e3)
      then show ?thesis
        using err s1 s2 attemptAcceptCommit_proper [OF good_stepD [OF g2] good_step_level_eq [OF g2 lv] Inl]
        by (simp add: attemptAll_def)
    next
      case (Inr p3)
      then obtain w3 s3 where s3: "attemptAcceptCommit proc ctx hint s2 = Inr (w3, s3)" by (cases p3) auto
      note g3 = good_step_trans [OF g2 attemptAcceptCommit_step [OF good_stepD [OF g2] s3]]
      show ?thesis
        using err s1 s2 s3 attemptConfirmCommit_proper [OF good_stepD [OF g3] good_step_level_eq [OF g3 lv]]
        by (auto simp: attemptAll_def bindE_eq_Inl)
    qed
  qed
qed

lemma bumpOutermost_proper:
  "slot_inv s \<Longrightarrow> mCurrentMessageLevel s = level \<Longrightarrow> bumpOutermost proc ctx s = Inl e \<Longrightarrow> proper_error e"
  by (auto simp: bumpOutermost_def bindE_eq_Inl split: if_splits dest: bumpLoop_proper proper_errors)

lemma advanceSlotBody_proper:
  assumes inv: "slot_inv s" and lv: "mCurrentMessageLevel s + 1 = level"
    and err: "advanceSlotBody proc ctx hint s = Inl e"
  shows "proper_error e"
proof -
  let ?s0 = "s\<lparr>mCurrentMessageLevel := mCurrentMessageLevel s + 1\<rparr>"
  have inv0: "slot_inv ?s0" using inv by (simp add: slot_inv_level)
  have lv0: "mCurrentMessageLevel ?s0 = level" using lv by simp
  have "e = MaxTransitions \<or> attemptAll proc ctx hint ?s0 = Inl e \<or>
      (\<exists>w1 s1. attemptAll proc ctx hint ?s0 = Inr (w1, s1) \<and> bumpOutermost proc ctx s1 = Inl e)"
    using err by (auto simp: advanceSlotBody_def Let_def bindE_eq_Inl split: if_splits)
  moreover have "proper_error e" if "attemptAll proc ctx hint ?s0 = Inr (w1, s1)" "bumpOutermost proc ctx s1 = Inl e" for w1 s1
  proof -
    note g = attemptAll_step [OF inv0 that(1)]
    show ?thesis by (rule bumpOutermost_proper [OF good_stepD [OF g] good_step_level_eq [OF g lv0] that(2)])
  qed
  ultimately show ?thesis using attemptAll_proper [OF inv0 lv0] by (auto simp: proper_error_def)
qed

end

lemma ballotSlotProcess_proper:
  assumes adv: "\<And>hint s e. slot_inv s \<Longrightarrow> mCurrentMessageLevel s = level \<Longrightarrow> advance hint s = Inl e \<Longrightarrow> proper_error e"
    and inv: "slot_inv s" and lv: "mCurrentMessageLevel s = level"
    and err: "ballotSlotProcess advance ctx env self s = Inl e"
  shows "proper_error e"
proof -
  let ?st = "envStatement env"
  have e: "proper_error e \<or> ballotProcessEnvelope advance ctx env self s = Inl e"
    using err by (auto simp: slotProcessEnvelope_def Let_def bindE_eq_Inl proper_error_def
        split: if_splits SCPPledges.splits)
  have "proper_error e" if "ballotProcessEnvelope advance ctx env self s = Inl e"
  proof -
    have "proper_error e \<or> isStatementSane ctx ?st self = Inr True \<and> isNewerStatementFrom (nodeID ?st) ?st s \<and>
        (advance ?st (recordEnvelope env s) = Inl e \<or>
         advance ?st (recordEnvelope env (s\<lparr>mFullyValidated := False\<rparr>)) = Inl e)"
      using that by (auto simp: ballotProcessEnvelope_def Let_def bindE_eq_Inl split: if_splits dest: proper_errors)
        (simp_all add: proper_error_def)
    moreover have "proper_error e" if sane: "isStatementSane ctx ?st self = Inr True"
      and new: "isNewerStatementFrom (nodeID ?st) ?st s"
      and adv': "advance ?st (recordEnvelope env (s\<lparr>mFullyValidated := fv\<rparr>)) = Inl e"
      and fv: "fv \<longrightarrow> mFullyValidated s" for fv
    proof -
      note g = recordEnvelope_step [OF inv new sane_not_nominate [OF sane] fv]
      show ?thesis
        using adv [OF good_stepD [OF g] _ adv'] lv by (simp add: recordEnvelope_def recordStatement_def)
    qed
    from this [of False] this [of "mFullyValidated s"] have "proper_error e"
      if "isStatementSane ctx ?st self = Inr True" "isNewerStatementFrom (nodeID ?st) ?st s"
        "advance ?st (recordEnvelope env s) = Inl e \<or>
         advance ?st (recordEnvelope env (s\<lparr>mFullyValidated := False\<rparr>)) = Inl e"
      using that by auto
    ultimately show ?thesis by blast
  qed
  then show ?thesis using e by blast
qed

lemma advanceSlot_proper:
  assumes "slot_inv s" "MAX_ADVANCE_SLOT_RECURSION \<le> n + mCurrentMessageLevel s"
    "mCurrentMessageLevel s < MAX_ADVANCE_SLOT_RECURSION" "advanceSlot n ctx hint s = Inl e"
  shows "proper_error e"
  using assms
proof (induction n arbitrary: hint s e)
  case (Suc n)
  let ?l = "mCurrentMessageLevel s + 1"
  show ?case
  proof (cases "?l < MAX_ADVANCE_SLOT_RECURSION")
    case False
    then have "e = MaxTransitions" using Suc.prems(4) by (simp add: advanceSlotBody_def Let_def)
    then show ?thesis by (simp add: proper_error_def)
  next
    case True
    have "ballot_callback_total (ballotSlotProcess (advanceSlot n ctx) ctx) ?l"
    proof (unfold_locales)
      fix s' env self e'
      assume "slot_inv s'" "mCurrentMessageLevel s' = ?l"
        "ballotSlotProcess (advanceSlot n ctx) ctx env self s' = Inl e'"
      then show "proper_error e'"
        using Suc.prems(2) True by (intro ballotSlotProcess_proper [of ?l "advanceSlot n ctx" s' ctx env self e'] Suc.IH) auto
    qed
    then show ?thesis
      using ballot_callback_total.advanceSlotBody_proper [OF _ Suc.prems(1)] Suc.prems(4) by simp
  qed
qed simp

interpretation ballot_api: ballot_callback_total "ballotProc ctx" ctx 0 for ctx
proof unfold_locales
  fix s env self e
  assume "slot_inv s" "mCurrentMessageLevel s = 0" "ballotProc ctx env self s = Inl e"
  then show "proper_error e"
    by (intro ballotSlotProcess_proper [of 0 "advanceSlot MAX_ADVANCE_SLOT_RECURSION ctx" s ctx env self e]
        advanceSlot_proper) (auto simp: MAX_ADVANCE_SLOT_RECURSION_def)
qed

end
