(* ===== verification/BallotVoting.thy ===== *)
theory BallotVoting imports BallotSteps begin

text \<open>
  What the votes decide: federated acceptance and ratification in terms of sets of nodes,
  the interval search of the commit phase, the counter that a node bumps to, and the quorum
  behind every externalized value.
\<close>

subsection \<open>Federated voting\<close>

text \<open>The nodes whose latest statement in \<open>m\<close> satisfies \<open>P\<close>.\<close>

definition supporters :: "(NodeID \<times> SCPEnvelope) list \<Rightarrow> (SCPStatement \<Rightarrow> bool) \<Rightarrow> NodeID set" where
  "supporters m P = {n. \<exists>e. (n, e) \<in> set m \<and> P (envStatement e)}"

text \<open>A set of nodes with a satisfied quorum set for each member that also satisfies the local one.\<close>

definition quorum_for :: "SCPContext \<Rightarrow> (NodeID \<times> SCPEnvelope) list \<Rightarrow> NodeID set \<Rightarrow> bool" where
  "quorum_for ctx m S \<longleftrightarrow>
     (\<forall>n \<in> S. \<exists>q. qsetOf m (getQuorumSetFromStatement ctx) n = Some q \<and> slice_ok q S) \<and>
     slice_ok (localQSet ctx) S"

lemma set_filterNodes: "set (filterNodes m P) = supporters m P"
  by (force simp: filterNodes_def supporters_def)

lemma federatedRatify_iff:
  "federatedRatify ctx P m \<longleftrightarrow> (\<exists>S \<subseteq> supporters m P. quorum_for ctx m S)"
  by (simp add: federatedRatify_def isQuorum_iff set_filterNodes quorum_for_def)

lemma federatedAccept_iff:
  assumes "isQuorumSetSane (localQSet ctx) extra = Inr ()"
  shows "federatedAccept ctx V A m \<longleftrightarrow>
    (\<forall>S. slice_ok (localQSet ctx) S \<longrightarrow> S \<inter> supporters m A \<noteq> {}) \<or>
    (\<exists>S \<subseteq> supporters m (\<lambda>st. A st \<or> V st). quorum_for ctx m S)"
  using isVBlocking_iff [OF sane_wf_thresholds [OF assms], of "filterNodes m A"]
  by (simp add: federatedAccept_def isVBlockingMap_def isQuorum_iff set_filterNodes quorum_for_def)

subsection \<open>The interval search\<close>

lemma extendInterval_found:
  assumes "fst cand \<noteq> 0" "sorted_wrt (>) bs" "\<forall>b \<in> set bs. b < fst cand" "fst cand \<le> snd cand" "0 \<notin> set bs"
  shows "snd (extendInterval P cand bs) = snd cand \<and>
    fst (extendInterval P cand bs) \<in> insert (fst cand) (set bs) \<and> fst (extendInterval P cand bs) \<noteq> 0 \<and>
    fst (extendInterval P cand bs) \<le> fst cand \<and>
    (\<forall>b \<in> set bs. fst (extendInterval P cand bs) \<le> b \<longrightarrow> P (b, snd cand)) \<and>
    (\<forall>b \<in> set bs. b < fst (extendInterval P cand bs) \<longrightarrow>
       (\<exists>b' \<in> set bs. b \<le> b' \<and> b' < fst (extendInterval P cand bs) \<and> \<not> P (b', snd cand)))"
  using assms
proof (induction bs arbitrary: cand)
  case (Cons b bs)
  have b: "b < fst cand" "b \<noteq> 0" "\<not> snd cand < b" using Cons.prems by auto
  show ?case
  proof (cases "P (b, snd cand)")
    case True
    let ?r = "extendInterval P (b, snd cand) bs"
    have e: "extendInterval P cand (b # bs) = ?r" using Cons.prems(1) b True by simp
    have IH: "snd ?r = snd cand" "fst ?r \<in> insert b (set bs)" "fst ?r \<noteq> 0" "fst ?r \<le> b"
      "\<forall>b' \<in> set bs. fst ?r \<le> b' \<longrightarrow> P (b', snd cand)"
      "\<forall>c \<in> set bs. c < fst ?r \<longrightarrow> (\<exists>b' \<in> set bs. c \<le> b' \<and> b' < fst ?r \<and> \<not> P (b', snd cand))"
      using Cons.IH [of "(b, snd cand)"] Cons.prems b by auto
    show ?thesis unfolding e using IH True b by auto
  next
    case False
    then have e: "extendInterval P cand (b # bs) = cand" using Cons.prems(1) b by simp
    show ?thesis unfolding e using Cons.prems b False by (auto intro!: bexI [of _ b])
  qed
qed auto

text \<open>
  \<open>r\<close> is what the search promises for the boundaries \<open>B\<close>: its high end is the highest boundary
  that satisfies \<open>P\<close> on its own, and it reaches down as long as every boundary passed still
  satisfies \<open>P\<close> together with the high end. A low end of 0 says that no boundary does.
\<close>

definition extended_interval :: "(Interval \<Rightarrow> bool) \<Rightarrow> uint32 set \<Rightarrow> Interval \<Rightarrow> bool" where
  "extended_interval P B r \<longleftrightarrow>
     (if fst r = 0 then \<forall>b \<in> B. \<not> P (b, b)
      else fst r \<in> B \<and> snd r \<in> B \<and> fst r \<le> snd r \<and> P (snd r, snd r) \<and>
        (\<forall>b \<in> B. snd r < b \<longrightarrow> \<not> P (b, b)) \<and>
        (\<forall>b \<in> B. fst r \<le> b \<and> b \<le> snd r \<longrightarrow> P (b, snd r)) \<and>
        (\<forall>b \<in> B. b < fst r \<longrightarrow> (\<exists>b' \<in> B. b \<le> b' \<and> b' < fst r \<and> \<not> P (b', snd r))))"

lemma extended_interval_insert:
  assumes "extended_interval P B r" "\<forall>x \<in> B. x < b" "\<not> P (b, b)"
  shows "extended_interval P (insert b B) r"
proof (cases "fst r = 0")
  case True
  then show ?thesis using assms by (simp add: extended_interval_def)
next
  case False
  then have "fst r < b" "snd r < b" using assms by (auto simp: extended_interval_def)
  then show ?thesis using assms False by (auto simp: extended_interval_def leD)
qed

lemma extendInterval_search:
  assumes "sorted_wrt (>) bs" "0 \<notin> set bs"
  shows "extended_interval P (set bs) (extendInterval P (0, 0) bs)"
  using assms
proof (induction bs)
  case (Cons b bs)
  show ?case
  proof (cases "P (b, b)")
    case True
    let ?r = "extendInterval P (b, b) bs"
    have e: "extendInterval P (0, 0) (b # bs) = ?r" using True by simp
    have F: "snd ?r = b" "fst ?r \<in> insert b (set bs)" "fst ?r \<noteq> 0" "fst ?r \<le> b"
      "\<forall>b' \<in> set bs. fst ?r \<le> b' \<longrightarrow> P (b', b)"
      "\<forall>c \<in> set bs. c < fst ?r \<longrightarrow> (\<exists>b' \<in> set bs. c \<le> b' \<and> b' < fst ?r \<and> \<not> P (b', b))"
      using extendInterval_found [of "(b, b)" bs P] Cons.prems by auto
    show ?thesis unfolding e extended_interval_def using F True Cons.prems by auto
  next
    case False
    then have e: "extendInterval P (0, 0) (b # bs) = extendInterval P (0, 0) bs" by simp
    show ?thesis unfolding e using Cons False extended_interval_insert by auto
  qed
qed (simp add: extended_interval_def)

lemma findExtendedInterval_search:
  assumes "sorted_wrt (<) bs" "0 \<notin> set bs"
  shows "extended_interval P (set bs) (findExtendedInterval (0, 0) bs P)"
  using extendInterval_search [of "rev bs" P] assms by (simp add: findExtendedInterval_def sorted_wrt_rev)

text \<open>Whatever the boundaries, an interval that is found satisfies the predicate.\<close>

lemma extendInterval_sound:
  "(fst cand \<noteq> 0 \<longrightarrow> P cand) \<Longrightarrow> fst (extendInterval P cand bs) \<noteq> 0 \<longrightarrow> P (extendInterval P cand bs)"
  by (induction bs arbitrary: cand) auto

subsection \<open>Bumping to the lowest counter that no blocking set is ahead of\<close>

lemma isVBlocking_empty:
  assumes "wf_thresholds q"
  shows "\<not> isVBlocking q []"
proof -
  have "slice_ok q UNIV" using assms
  proof (induction q)
    case (SCPQuorumSet t vs qs)
    then have "filter (\<lambda>q. slice_ok q UNIV) qs = qs" by (auto simp: filter_id_conv)
    then show ?case using SCPQuorumSet.prems need_wf [of t] by simp
  qed
  then show ?thesis using isVBlocking_iff [OF assms, of "[]"] by auto
qed

lemma isVBlocking_mono:
  "wf_thresholds q \<Longrightarrow> set ns \<subseteq> set ms \<Longrightarrow> isVBlocking q ns \<Longrightarrow> isVBlocking q ms"
  by (fastforce simp: isVBlocking_iff)

lemma ahead_antimono:
  assumes "wf_thresholds (localQSet ctx)" "n \<le> n'" "hasVBlockingSubsetStrictlyAheadOf ctx m n'"
  shows "hasVBlockingSubsetStrictlyAheadOf ctx m n"
proof -
  have "set (filterNodes m (\<lambda>st. n' < statementBallotCounter st)) \<subseteq> set (filterNodes m (\<lambda>st. n < statementBallotCounter st))"
    using assms(2) by (auto simp: set_filterNodes supporters_def)
  then show ?thesis
    using assms(3) isVBlocking_mono [OF assms(1)]
    by (auto simp: hasVBlockingSubsetStrictlyAheadOf_def isVBlockingMap_def)
qed

lemma ahead_cong:
  assumes "\<And>e. e \<in> snd ` set m \<Longrightarrow> n < statementBallotCounter (envStatement e) \<longleftrightarrow> n' < statementBallotCounter (envStatement e)"
  shows "hasVBlockingSubsetStrictlyAheadOf ctx m n = hasVBlockingSubsetStrictlyAheadOf ctx m n'"
proof -
  have "filterNodes m (\<lambda>st. n < statementBallotCounter st) = filterNodes m (\<lambda>st. n' < statementBallotCounter st)"
    unfolding filterNodes_def
    by (intro arg_cong [where f = "map fst"] filter_cong refl) (use assms in force)
  then show ?thesis by (simp add: hasVBlockingSubsetStrictlyAheadOf_def isVBlockingMap_def)
qed

lemma set_countersAbove:
  "set (countersAbove m n) = {c. n < c \<and> (\<exists>e \<in> snd ` set m. c = statementBallotCounter (envStatement e))}"
  by (auto simp: countersAbove_def)

text \<open>Below a counter \<open>y\<close> that is not behind the node, some counter of a statement counts as well.\<close>

lemma ahead_counter:
  assumes "\<not> hasVBlockingSubsetStrictlyAheadOf ctx m y" "hasVBlockingSubsetStrictlyAheadOf ctx m n" "n \<le> y"
  shows "\<exists>c \<in> set (countersAbove m n). c \<le> y \<and> \<not> hasVBlockingSubsetStrictlyAheadOf ctx m c"
proof -
  let ?C = "{c \<in> set (countersAbove m n). c \<le> y}"
  have "?C \<noteq> {}"
  proof
    assume none: "?C = {}"
    have "hasVBlockingSubsetStrictlyAheadOf ctx m n = hasVBlockingSubsetStrictlyAheadOf ctx m y"
      using none assms(3) by (intro ahead_cong) (auto simp: set_countersAbove not_less dest: le_less_trans)
    then show False using assms(1,2) by simp
  qed
  define M where "M = Max ?C"
  have "M \<in> ?C" unfolding M_def using \<open>?C \<noteq> {}\<close> by (intro Max_in) simp_all
  then have M: "M \<in> set (countersAbove m n)" "M \<le> y" "n < M" by (simp_all add: set_countersAbove)
  have "hasVBlockingSubsetStrictlyAheadOf ctx m M = hasVBlockingSubsetStrictlyAheadOf ctx m y"
  proof (rule ahead_cong)
    fix e
    assume e: "e \<in> snd ` set m"
    let ?c = "statementBallotCounter (envStatement e)"
    have le: "?c \<le> M" if "n < ?c" "?c \<le> y"
      unfolding M_def using e that by (intro Max_ge) (auto simp: set_countersAbove)
    show "M < ?c \<longleftrightarrow> y < ?c"
    proof
      assume "M < ?c"
      then show "y < ?c" using le less_trans [OF M(3)] by (meson leD le_less_linear)
    qed (rule le_less_trans [OF M(2)])
  qed
  then show ?thesis using M assms(1) by auto
qed

lemma le_UINT32_MAX: "(c :: uint32) \<le> UINT32_MAX"
proof -
  have "UINT32_MAX = - 1" by simp
  then show ?thesis using word_order.extremum [of c] by (simp only:)
qed

lemma ahead_top: "wf_thresholds (localQSet ctx) \<Longrightarrow> \<not> hasVBlockingSubsetStrictlyAheadOf ctx m UINT32_MAX"
proof -
  have "\<not> UINT32_MAX < c" for c :: uint32 using le_UINT32_MAX by (simp add: not_less)
  then have "filterNodes m (\<lambda>st. UINT32_MAX < statementBallotCounter st) = []"
    by (simp add: filterNodes_def)
  then show "wf_thresholds (localQSet ctx) \<Longrightarrow> \<not> hasVBlockingSubsetStrictlyAheadOf ctx m UINT32_MAX"
    using isVBlocking_empty by (simp add: hasVBlockingSubsetStrictlyAheadOf_def isVBlockingMap_def)
qed

lemma sorted_find_first:
  "sorted_wrt (<) xs \<Longrightarrow> find P xs = Some x \<Longrightarrow> y \<in> set xs \<Longrightarrow> P y \<Longrightarrow> x \<le> (y :: 'a::linorder)"
  by (induction xs) (auto split: if_splits)

lemma bumpTarget_least:
  assumes wf: "wf_thresholds (localQSet ctx)"
  shows "bumpTarget ctx s =
    (if hasVBlockingSubsetStrictlyAheadOf ctx (mLatestEnvelopes s) (currentCounter s)
     then Some (LEAST n. \<not> hasVBlockingSubsetStrictlyAheadOf ctx (mLatestEnvelopes s) n) else None)"
proof (cases "hasVBlockingSubsetStrictlyAheadOf ctx (mLatestEnvelopes s) (currentCounter s)")
  case True
  let ?ahead = "hasVBlockingSubsetStrictlyAheadOf ctx (mLatestEnvelopes s)"
  let ?cs = "countersAbove (mLatestEnvelopes s) (currentCounter s)"
  have "\<exists>c \<in> set ?cs. \<not> ?ahead c"
    using ahead_counter [OF ahead_top [OF wf] True le_UINT32_MAX] by blast
  then obtain n where n: "find (\<lambda>n. \<not> ?ahead n) ?cs = Some n" by (metis find_None_iff option.exhaust)
  then have "\<not> ?ahead n" "n \<in> set ?cs" by (auto simp: find_Some_iff)
  moreover have "n \<le> y" if y: "\<not> ?ahead y" for y
  proof -
    have "currentCounter s \<le> y" using ahead_antimono [OF wf _ True] y by (meson linear)
    then obtain c where "c \<in> set ?cs" "c \<le> y" "\<not> ?ahead c" using ahead_counter [OF y True] by blast
    then show ?thesis using sorted_find_first [OF _ n] by (force simp: countersAbove_def)
  qed
  ultimately have "(LEAST n. \<not> ?ahead n) = n" by (intro Least_equality) auto
  then show ?thesis using True n by (simp add: bumpTarget_def)
qed (simp add: bumpTarget_def)

subsection \<open>The quorum behind an externalized value\<close>

lemma attemptConfirmCommit_cases:
  assumes "attemptConfirmCommit proc ctx hint s = Inr (True, s')"
  shows "\<exists>lo hi v. mPhase s = SCP_PHASE_CONFIRM \<and> map_option ballotValue (mCommit s) = Some v \<and>
    federatedRatify ctx (commitPredicate (SCPBallot hi v) (lo, hi)) (mLatestEnvelopes s) \<and>
    setConfirmCommit proc ctx (SCPBallot lo v) (SCPBallot hi v) s = Inr (True, s')"
proof -
  let ?P = "\<lambda>ballot cur. federatedRatify ctx (commitPredicate ballot cur) (mLatestEnvelopes s)"
  let ?cand = "\<lambda>ballot. findExtendedInterval (0, 0) (getCommitBoundariesFromStatements ballot s) (?P ballot)"
  obtain ballot c0 where ph: "mPhase s = SCP_PHASE_CONFIRM" and c0: "mCommit s = Some c0"
    and compat: "areBallotsCompatible ballot c0" and found: "fst (?cand ballot) \<noteq> 0"
    and set: "setConfirmCommit proc ctx (SCPBallot (fst (?cand ballot)) (ballotValue ballot))
      (SCPBallot (snd (?cand ballot)) (ballotValue ballot)) s = Inr (True, s')"
    using assms unfolding attemptConfirmCommit_def Let_def
    by (cases "commitHint hint"; cases "mHighBallot s"; cases "mCommit s"; cases "pledges hint")
      (auto split: if_splits)
  have "?P ballot (?cand ballot)"
    using extendInterval_sound [of "(0, 0)" "?P ballot"] found by (simp add: findExtendedInterval_def)
  moreover have "commitPredicate ballot cur = commitPredicate (SCPBallot hi (ballotValue ballot)) cur" for cur hi
    by (rule ext) (auto simp: commitPredicate_def areBallotsCompatible_def split: SCPPledges.splits)
  ultimately show ?thesis
    using ph c0 compat set
    by (intro exI [of _ "fst (?cand ballot)"] exI [of _ "snd (?cand ballot)"] exI [of _ "ballotValue ballot"])
      (auto simp: areBallotsCompatible_def)
qed

lemma attemptConfirmCommit_justified:
  assumes inv: "slot_inv s" and ok: "attemptConfirmCommit (ballotSlotProcess (advanceSlot n ctx) ctx) ctx hint s = Inr (True, s')"
  shows "\<exists>v lo hi S. mPhase s' = SCP_PHASE_EXTERNALIZE \<and> map_option ballotValue (mCommit s) = Some v \<and>
    externalizeEvents s' = externalizeEvents s @ [v] \<and> quorum_for ctx (mLatestEnvelopes s) S \<and>
    S \<subseteq> supporters (mLatestEnvelopes s) (commitPredicate (SCPBallot hi v) (lo, hi))"
proof -
  obtain lo hi v where ph: "mPhase s = SCP_PHASE_CONFIRM" and v: "map_option ballotValue (mCommit s) = Some v"
    and q: "federatedRatify ctx (commitPredicate (SCPBallot hi v) (lo, hi)) (mLatestEnvelopes s)"
    and set: "setConfirmCommit (ballotSlotProcess (advanceSlot n ctx) ctx) ctx (SCPBallot lo v) (SCPBallot hi v) s = Inr (True, s')"
    using attemptConfirmCommit_cases [OF ok] by blast
  note C = ballot_cycle.setConfirmCommit_step [OF inv ph _ set]
  then have g: "good_step s s'" "mPhase s' = SCP_PHASE_EXTERNALIZE" using v by simp_all
  then have adv: "slot_adv s s'" "externalize_adv s s'" by (simp_all add: good_step_def slot_step_def)
  have "map_option ballotValue (mCommit s') = Some v" using slot_advD(5) [OF adv(1)] ph v by simp
  then have "externalizeEvents s' = externalizeEvents s @ [v]"
    using adv(2) ph g(2) by (auto simp: externalize_adv_def)
  then show ?thesis using g(2) v q unfolding federatedRatify_iff by blast
qed

subsection \<open>The prepared ballots\<close>

text \<open>
  The contract of \<open>p\<close> and \<open>p'\<close> for the set \<open>A\<close> of ballots accepted as prepared: the highest one,
  and the highest one that is incompatible with it.
\<close>

definition preparedPair :: "SCPBallot set \<Rightarrow> SCPBallot option \<times> SCPBallot option" where
  "preparedPair A =
     (if A = {} then (None, None)
      else
        let B = {x \<in> A. \<not> areBallotsCompatible x (Max A)}
        in (Some (Max A), if B = {} then None else Some (Max B)))"

lemma Max_insert_if: "finite A \<Longrightarrow> A \<noteq> {} \<Longrightarrow> Max (insert b A) = (if Max A < b then b else Max A)"
proof -
  assume "finite A" "A \<noteq> {}"
  then have "Max (insert b A) = max b (Max A)" by simp
  then show ?thesis unfolding max_def by (metis not_less)
qed

lemma preparedPair_insert:
  assumes fin: "finite A" and ne: "A \<noteq> {}" and new: "\<not> areBallotsLessAndCompatible b (Max A)"
  shows "preparedPair (insert b A) =
    (if Max A < b then (Some b, if areBallotsCompatible (Max A) b then snd (preparedPair A) else Some (Max A))
     else (Some (Max A), case snd (preparedPair A) of None \<Rightarrow> Some b | Some p' \<Rightarrow> Some (max p' b)))"
proof (cases "Max A < b")
  case True
  have max: "Max (insert b A) = b" using Max_insert_if [OF fin ne, of b] True by simp
  let ?B = "{x \<in> insert b A. \<not> areBallotsCompatible x b}"
  show ?thesis
  proof (cases "areBallotsCompatible (Max A) b")
    case c: True
    then have "?B = {x \<in> A. \<not> areBallotsCompatible x (Max A)}" by (auto simp: areBallotsCompatible_def)
    then show ?thesis using True ne c max by (simp add: preparedPair_def Let_def)
  next
    case c: False
    then have "Max A \<in> ?B" using Max_in [OF fin ne] by simp
    moreover have "\<forall>x \<in> ?B. x \<le> Max A" using fin by (auto simp: areBallotsCompatible_def)
    ultimately have "Max ?B = Max A" using fin by (intro Max_eqI) auto
    then show ?thesis using True c max \<open>Max A \<in> ?B\<close> by (auto simp: preparedPair_def Let_def)
  qed
next
  case False
  have max: "Max (insert b A) = Max A" using Max_insert_if [OF fin ne, of b] False by simp
  have inc: "\<not> areBallotsCompatible b (Max A)"
    using new False by (simp add: areBallotsLessAndCompatible_def ballot_simps)
  let ?B = "{x \<in> A. \<not> areBallotsCompatible x (Max A)}"
  have "{x \<in> insert b A. \<not> areBallotsCompatible x (Max A)} = insert b ?B" using inc by auto
  then show ?thesis
    using fin ne False max by (cases "?B = {}") (auto simp: preparedPair_def Let_def max.commute)
qed

lemma setPrepared_refines:
  assumes fin: "finite A" and abs: "(mPrepared s, mPreparedPrime s) = preparedPair A"
    and new: "\<not> (\<exists>p. mPrepared s = Some p \<and> areBallotsLessAndCompatible b p)"
    and s': "setPrepared b s = (w, s')"
  shows "(mPrepared s', mPreparedPrime s') = preparedPair (insert b A)"
proof (cases "A = {}")
  case True
  then show ?thesis using abs s' by (auto simp: preparedPair_def setPrepared_def)
next
  case False
  then have p: "mPrepared s = Some (Max A)" "snd (preparedPair A) = mPreparedPrime s"
    using abs by (auto simp: preparedPair_def Let_def split: if_splits)
  have ne: "\<not> areBallotsLessAndCompatible b (Max A)" using new p by simp
  then have "b \<noteq> Max A" by (auto simp: areBallotsLessAndCompatible_def areBallotsCompatible_def ballot_simps)
  moreover have "\<not> Max A < b \<Longrightarrow> \<not> areBallotsCompatible (Max A) b"
    using ne by (auto simp: areBallotsLessAndCompatible_def areBallotsCompatible_def ballot_simps)
  ultimately show ?thesis
    unfolding preparedPair_insert [OF fin False ne] using s' p
    by (auto simp: setPrepared_def ballot_simps max_def split: option.splits if_splits)
qed

end
