(* ===== verification/NominationSteps.thy ===== *)
theory NominationSteps
  imports NominationProtocol BallotFrame BallotTermination BallotVoting
begin

text \<open>
  Invariants of the nomination protocol and what every step of it keeps: the sets of votes,
  accepted values and candidates only grow, each inside the one before; what a node accepts or
  confirms is backed by federated voting; the ballot protocol's contract is kept as well.
\<close>

subsection \<open>Nomination statements\<close>

lemma adjacent_sorted: "\<not> adjacent_find (\<lambda>l r. \<not> l < r) xs \<longleftrightarrow> sorted_wrt (<) (xs :: 'a::linorder list)"
proof (induction xs rule: induct_list012)
  case (3 x y zs)
  then show ?case by (auto intro: less_trans)
qed auto

lemma isSane_iff:
  "isSane nom \<longleftrightarrow> \<not> (votes nom = [] \<and> accepted nom = []) \<and> sorted_wrt (<) (votes nom) \<and> sorted_wrt (<) (accepted nom)"
  by (auto simp: isSane_def adjacent_sorted)

lemma std_includes_iff:
  "sorted_wrt (<) v \<Longrightarrow> sorted_wrt (<) p \<Longrightarrow> std_includes v p \<longleftrightarrow> set p \<subseteq> set v"
proof (induction v p rule: std_includes.induct)
  case (3 x xs y ys)
  consider "y < x" | "x < y" | "x = y" by (rule linorder_cases)
  then show ?case
  proof cases
    case 1
    then have "y \<notin> set (x # xs)" using 3(3) by auto
    then show ?thesis using 1 by auto
  next
    case 2
    then have "std_includes (x # xs) (y # ys) \<longleftrightarrow> set (y # ys) \<subseteq> set xs" using 3 by auto
    moreover have "x \<notin> set (y # ys)" using 2 3(4) by auto
    ultimately show ?thesis by auto
  next
    case 3
    then have "std_includes (x # xs) (y # ys) \<longleftrightarrow> set ys \<subseteq> set xs" using "3.IH" "3.prems" by auto
    moreover have "x \<notin> set ys" using 3 "3.prems" by auto
    ultimately show ?thesis using 3 by auto
  qed
qed auto

lemma sorted_length_set: "sorted_wrt (<) (xs :: 'a::linorder list) \<Longrightarrow> length xs = card (set xs)"
  using strict_sorted_distinct distinct_card by metis

lemma isSubsetHelper_iff:
  assumes "sorted_wrt (<) p" "sorted_wrt (<) v"
  shows "isSubsetHelper p v = (set p \<subseteq> set v, set p \<noteq> set v)"
proof (cases "set p \<subseteq> set v")
  case True
  then have "length p \<le> length v" using assms by (simp add: sorted_length_set card_mono)
  moreover have "length p = length v \<longleftrightarrow> set p = set v"
    using assms True card_subset_eq [OF finite_set True] by (auto simp: sorted_length_set)
  ultimately show ?thesis using assms True by (simp add: isSubsetHelper_def std_includes_iff)
next
  case False
  then show ?thesis using assms by (auto simp: isSubsetHelper_def std_includes_iff)
qed

text \<open>The order that newer statements follow: both sets grow.\<close>

definition nomLe :: "SCPNomination \<Rightarrow> SCPNomination \<Rightarrow> bool" where
  "nomLe a b \<longleftrightarrow> set (votes a) \<subseteq> set (votes b) \<and> set (accepted a) \<subseteq> set (accepted b)"

lemma nomLe_refl [simp]: "nomLe a a"
  by (simp add: nomLe_def)

lemma nomLe_trans: "nomLe a b \<Longrightarrow> nomLe b c \<Longrightarrow> nomLe a c"
  by (auto simp: nomLe_def)

lemma nomIsNewerStatement_iff:
  assumes "isSane a" "isSane b"
  shows "nomIsNewerStatement a b \<longleftrightarrow> nomLe a b \<and> \<not> nomLe b a"
  using assms
  by (auto simp: nomIsNewerStatement_def isSane_iff isSubsetHelper_iff nomLe_def split: bool.splits)

subsection \<open>The invariant\<close>

definition nominations_ok :: "(NodeID \<times> SCPEnvelope) list \<Rightarrow> bool" where
  "nominations_ok m \<longleftrightarrow> map_ok m \<and>
     (\<forall>(n, e) \<in> set m. nodeID (envStatement e) = n \<and>
        (\<exists>nom. pledges (envStatement e) = SCP_ST_NOMINATE nom \<and> isSane nom))"

definition nom_inv :: "Slot \<Rightarrow> bool" where
  "nom_inv s \<longleftrightarrow>
     sorted_wrt (<) (mVotes s) \<and> sorted_wrt (<) (mAccepted s) \<and> sorted_wrt (<) (mCandidates s) \<and>
     set (mCandidates s) \<subseteq> set (mAccepted s) \<and> set (mAccepted s) \<subseteq> set (mVotes s) \<and>
     nominations_ok (mLatestNominations s) \<and>
     (\<forall>e. mNominationLastEnvelope s = Some e \<longrightarrow>
        (\<exists>nom. pledges (envStatement e) = SCP_ST_NOMINATE nom \<and> isSane nom))"

definition nomEnvLe :: "SCPEnvelope option \<Rightarrow> SCPEnvelope option \<Rightarrow> bool" where
  "nomEnvLe a b \<longleftrightarrow>
     (case a of
        None \<Rightarrow> True
      | Some e \<Rightarrow> (\<exists>e' nom nom'. b = Some e' \<and> pledges (envStatement e) = SCP_ST_NOMINATE nom \<and>
          pledges (envStatement e') = SCP_ST_NOMINATE nom' \<and> nomLe nom nom'))"

text \<open>How the nomination protocol may move.\<close>

definition nom_adv :: "Slot \<Rightarrow> Slot \<Rightarrow> bool" where
  "nom_adv s s' \<longleftrightarrow>
     set (mVotes s) \<subseteq> set (mVotes s') \<and> set (mAccepted s) \<subseteq> set (mAccepted s') \<and>
     set (mCandidates s) \<subseteq> set (mCandidates s') \<and>
     (\<forall>n. nomEnvLe (map_of (mLatestNominations s) n) (map_of (mLatestNominations s') n)) \<and>
     nomEnvLe (mNominationLastEnvelope s) (mNominationLastEnvelope s')"

lemma nomEnvLe_trans: "nomEnvLe a b \<Longrightarrow> nomEnvLe b c \<Longrightarrow> nomEnvLe a c"
  by (auto simp: nomEnvLe_def split: option.splits intro: nomLe_trans)

lemma nominations_ok_find:
  "nominations_ok m \<Longrightarrow> map_of m n = Some e \<Longrightarrow>
   nodeID (envStatement e) = n \<and> (\<exists>nom. pledges (envStatement e) = SCP_ST_NOMINATE nom \<and> isSane nom)"
  by (auto simp: nominations_ok_def dest!: map_of_SomeD)

lemma nomEnvLe_refl_map: "nominations_ok m \<Longrightarrow> nomEnvLe (map_of m n) (map_of m n)"
  by (auto simp: nomEnvLe_def split: option.splits dest: nominations_ok_find)

lemma nom_adv_refl: "nom_inv s \<Longrightarrow> nom_adv s s"
  using nomEnvLe_refl_map [of "mLatestNominations s"]
  by (auto simp: nom_adv_def nom_inv_def nomEnvLe_def split: option.splits)

lemma nom_adv_trans: "nom_adv a b \<Longrightarrow> nom_adv b c \<Longrightarrow> nom_adv a c"
  unfolding nom_adv_def by (blast intro: nomEnvLe_trans)

lemma nomPart_inv: "nomPart s' = nomPart s \<Longrightarrow> nom_inv s \<Longrightarrow> nom_inv s'"
  by (simp add: nomPart_def nom_inv_def)

lemma nomPart_adv: "nomPart s' = nomPart s \<Longrightarrow> nom_inv s \<Longrightarrow> nom_adv s s'"
  using nom_adv_refl [of s] by (simp add: nomPart_def nom_adv_def)

lemma nom_plain [simp]:
  "nom_inv (notify e s) = nom_inv s" "nom_adv s (notify e s') = nom_adv s s'"
  "nom_inv (recordStatement st s) = nom_inv s" "nom_adv s (recordStatement st s') = nom_adv s s'"
  by (simp_all add: notify_def recordStatement_def nom_inv_def nom_adv_def)

subsection \<open>Steps that leave the ballots alone\<close>

definition same_ballot :: "Slot \<Rightarrow> Slot \<Rightarrow> bool" where
  "same_ballot s s' \<longleftrightarrow> same_messages s s' \<and> mPhase s' = mPhase s \<and> mCurrentBallot s' = mCurrentBallot s \<and>
     mPrepared s' = mPrepared s \<and> mPreparedPrime s' = mPreparedPrime s \<and> mHighBallot s' = mHighBallot s \<and>
     mCommit s' = mCommit s"

lemma same_ballot_refl [simp]: "same_ballot s s"
  by (simp add: same_ballot_def)

lemma same_ballot_trans: "same_ballot a b \<Longrightarrow> same_ballot b c \<Longrightarrow> same_ballot a c"
  by (auto simp: same_ballot_def intro: same_messages_trans)

lemma same_ballot_updates [simp]:
  "same_ballot s (s'\<lparr>mRoundNumber := x1\<rparr>) \<longleftrightarrow> same_ballot s s'"
  "same_ballot s (s'\<lparr>mVotes := x2\<rparr>) \<longleftrightarrow> same_ballot s s'"
  "same_ballot s (s'\<lparr>mAccepted := x2\<rparr>) \<longleftrightarrow> same_ballot s s'"
  "same_ballot s (s'\<lparr>mCandidates := x2\<rparr>) \<longleftrightarrow> same_ballot s s'"
  "same_ballot s (s'\<lparr>mLatestNominations := x3\<rparr>) \<longleftrightarrow> same_ballot s s'"
  "same_ballot s (s'\<lparr>mNominationLastEnvelope := x4\<rparr>) \<longleftrightarrow> same_ballot s s'"
  "same_ballot s (s'\<lparr>mRoundLeaders := x5\<rparr>) \<longleftrightarrow> same_ballot s s'"
  "same_ballot s (s'\<lparr>mNominationStarted := x6\<rparr>) \<longleftrightarrow> same_ballot s s'"
  "same_ballot s (s'\<lparr>mLatestCompositeCandidate := x7\<rparr>) \<longleftrightarrow> same_ballot s s'"
  "same_ballot s (s'\<lparr>mPreviousValue := x8\<rparr>) \<longleftrightarrow> same_ballot s s'"
  "same_ballot s (s'\<lparr>mNominationTimerExpCount := x9\<rparr>) \<longleftrightarrow> same_ballot s s'"
  "same_ballot s (recordStatement st s') \<longleftrightarrow> same_ballot s s'"
  by (simp_all add: same_ballot_def same_messages_def recordStatement_def emittedBallots_def externalizeEvents_def)

lemma same_ballot_notify [simp]: "plainEvent e \<Longrightarrow> same_ballot s (notify e s') \<longleftrightarrow> same_ballot s s'"
  by (simp add: same_ballot_def)

lemma same_ballot_emit [simp]:
  "pledges (envStatement e) = SCP_ST_NOMINATE nom \<Longrightarrow> same_ballot s (notify (EmitEnvelope e) s') \<longleftrightarrow> same_ballot s s'"
  by (auto simp: same_ballot_def same_messages_def notify_def emittedBallots_def externalizeEvents_def pledgesType_def)

lemma same_ballot_step:
  assumes "slot_inv s" "same_ballot s s'"
  shows "good_step s s'"
proof (rule good_step_same)
  show "ballot_inv s'"
    using assms ballot_inv_cong [of s' s] by (simp add: slot_inv_def same_ballot_def)
qed (use assms in \<open>simp_all add: same_ballot_def ballots_adv_def\<close>)


subsection \<open>Accepting and ratifying values\<close>

definition acceptable :: "SCPContext \<Rightarrow> (NodeID \<times> SCPEnvelope) list \<Rightarrow> Value list \<Rightarrow> Value set" where
  "acceptable ctx m vs =
     {v \<in> set vs. federatedAccept ctx (votedPredicate v) (acceptPredicate v) m \<and>
        nomValidateValue ctx v = kFullyValidatedValue}"

text \<open>Valid variations of values that federated voting accepts but the node cannot validate.\<close>

definition variations :: "SCPContext \<Rightarrow> (NodeID \<times> SCPEnvelope) list \<Rightarrow> Value set \<Rightarrow> Value list \<Rightarrow> Value set" where
  "variations ctx m A vs =
     {w. \<exists>v \<in> set vs. v \<notin> A \<and> federatedAccept ctx (votedPredicate v) (acceptPredicate v) m \<and>
        nomValidateValue ctx v \<noteq> kFullyValidatedValue \<and> nomExtractValidValue ctx v = Some w}"

lemma acceptable_Cons:
  "acceptable ctx m (v # vs) =
     (if federatedAccept ctx (votedPredicate v) (acceptPredicate v) m \<and>
         nomValidateValue ctx v = kFullyValidatedValue then {v} else {}) \<union> acceptable ctx m vs"
  by (auto simp: acceptable_def)

lemma variations_Cons:
  "variations ctx m A (v # vs) =
     (if v \<notin> A \<and> federatedAccept ctx (votedPredicate v) (acceptPredicate v) m \<and>
         nomValidateValue ctx v \<noteq> kFullyValidatedValue then set_option (nomExtractValidValue ctx v) else {}) \<union>
     variations ctx m A vs"
  by (auto simp: variations_def)

lemma variations_insert:
  "nomValidateValue ctx v = kFullyValidatedValue \<Longrightarrow> variations ctx m (insert v A) vs = variations ctx m A vs"
  by (auto simp: variations_def)

lemma acceptVotes_fields:
  "acceptVotes ctx vs m s = (m', s') \<Longrightarrow> s'\<lparr>mVotes := V, mAccepted := A\<rparr> = s\<lparr>mVotes := V, mAccepted := A\<rparr>"
  by (induction vs arbitrary: m s) (auto split: if_splits option.splits)

lemma acceptVotes_effect:
  assumes "acceptVotes ctx vs m s = (m', s')"
  shows "set (mAccepted s') = set (mAccepted s) \<union> acceptable ctx (mLatestNominations s) vs \<and>
    set (mVotes s') = set (mVotes s) \<union> (acceptable ctx (mLatestNominations s) vs - set (mAccepted s)) \<union>
      variations ctx (mLatestNominations s) (set (mAccepted s)) vs \<and>
    (m' \<longleftrightarrow> m \<or> set (mAccepted s') \<noteq> set (mAccepted s) \<or> set (mVotes s') \<noteq> set (mVotes s)) \<and>
    (sorted_wrt (<) (mAccepted s) \<longrightarrow> sorted_wrt (<) (mAccepted s')) \<and>
    (sorted_wrt (<) (mVotes s) \<longrightarrow> sorted_wrt (<) (mVotes s'))"
  using assms
proof (induction vs arbitrary: m s)
  case (Cons v vs)
  let ?fed = "federatedAccept ctx (votedPredicate v) (acceptPredicate v) (mLatestNominations s)"
  let ?valid = "nomValidateValue ctx v = kFullyValidatedValue"
  consider (skip) "v \<in> set (mAccepted s) \<or> \<not> ?fed \<or> (\<not> ?valid \<and> nomExtractValidValue ctx v = None)"
    | (acc) "v \<notin> set (mAccepted s)" ?fed ?valid
    | (var) w where "v \<notin> set (mAccepted s)" ?fed "\<not> ?valid" "nomExtractValidValue ctx v = Some w"
    by (cases "nomExtractValidValue ctx v") auto
  then show ?case
  proof cases
    case skip
    then have "acceptVotes ctx vs m s = (m', s')" using Cons.prems by (auto split: if_splits)
    from Cons.IH [OF this] skip show ?thesis by (auto simp: acceptable_Cons variations_Cons)
  next
    case acc
    then have "acceptVotes ctx vs True (s\<lparr>mAccepted := set_insert v (mAccepted s), mVotes := set_insert v (mVotes s)\<rparr>) = (m', s')"
      using Cons.prems by simp
    from Cons.IH [OF this] acc show ?thesis
      by (simp add: acceptable_Cons variations_Cons variations_insert) blast
  next
    case var
    then have "acceptVotes ctx vs (m \<or> w \<notin> set (mVotes s)) (s\<lparr>mVotes := set_insert w (mVotes s)\<rparr>) = (m', s')"
      using Cons.prems by simp
    from Cons.IH [OF this] var show ?thesis
      by (cases "w \<in> set (mVotes s)") (simp_all add: acceptable_Cons variations_Cons insert_absorb, blast+)
  qed
qed (auto simp: acceptable_def variations_def)


lemma ratifyAccepted_fields:
  "ratifyAccepted ctx as w s = (w', s') \<Longrightarrow> s'\<lparr>mCandidates := C\<rparr> = s\<lparr>mCandidates := C\<rparr>"
  by (induction as arbitrary: w s) (auto split: if_splits)

lemma ratifyAccepted_effect:
  assumes "ratifyAccepted ctx as w s = (w', s')"
  shows "set (mCandidates s') =
      set (mCandidates s) \<union> {a \<in> set as. federatedRatify ctx (acceptPredicate a) (mLatestNominations s)} \<and>
    (w' \<longleftrightarrow> w \<or> set (mCandidates s') \<noteq> set (mCandidates s)) \<and>
    (sorted_wrt (<) (mCandidates s) \<longrightarrow> sorted_wrt (<) (mCandidates s'))"
  using assms
proof (induction as arbitrary: w s)
  case (Cons a as)
  show ?case
  proof (cases "a \<notin> set (mCandidates s) \<and> federatedRatify ctx (acceptPredicate a) (mLatestNominations s)")
    case True
    then have "ratifyAccepted ctx as True (s\<lparr>mCandidates := set_insert a (mCandidates s)\<rparr>) = (w', s')"
      using Cons.prems by simp
    from Cons.IH [OF this] True show ?thesis by simp blast
  next
    case False
    then have "ratifyAccepted ctx as w s = (w', s')" using Cons.prems by (auto split: if_splits)
    from Cons.IH [OF this] False show ?thesis by auto
  qed
qed auto

subsection \<open>Steps of the nomination protocol\<close>

definition nom_step :: "Slot \<Rightarrow> Slot \<Rightarrow> bool" where
  "nom_step s s' \<longleftrightarrow> good_step s s' \<and> nom_inv s' \<and> nom_adv s s'"

lemma nom_step_refl: "slot_inv s \<Longrightarrow> nom_inv s \<Longrightarrow> nom_step s s"
  by (simp add: nom_step_def good_step_refl nom_adv_refl)

lemma nom_step_trans: "nom_step a b \<Longrightarrow> nom_step b c \<Longrightarrow> nom_step a c"
  unfolding nom_step_def by (blast intro: good_step_trans nom_adv_trans)

lemma nom_stepD: "nom_step s s' \<Longrightarrow> slot_inv s' \<and> nom_inv s'"
  by (simp add: nom_step_def good_step_def)

lemma nom_step_local:
  "slot_inv s \<Longrightarrow> same_ballot s s' \<Longrightarrow> nom_inv s' \<Longrightarrow> nom_adv s s' \<Longrightarrow> nom_step s s'"
  by (simp add: nom_step_def same_ballot_step)

lemma nom_step_ballot: "good_step s s' \<Longrightarrow> nomPart s' = nomPart s \<Longrightarrow> nom_inv s \<Longrightarrow> nom_step s s'"
  by (simp add: nom_step_def nomPart_inv nomPart_adv)

lemma acceptVotes_step:
  assumes inv: "slot_inv s" "nom_inv s" and ok: "acceptVotes ctx vs m s = (m', s')"
  shows "nom_step s s'"
proof -
  note E = acceptVotes_effect [OF ok]
  define V A where "V = mVotes s'" and "A = mAccepted s'"
  have eq: "s' = s\<lparr>mVotes := V, mAccepted := A\<rparr>"
    using acceptVotes_fields [OF ok, where V = V and A = A] by (simp add: V_def A_def)
  have sub: "set (mVotes s) \<subseteq> set V" "set (mAccepted s) \<subseteq> set A" "set A \<subseteq> set V"
    using E inv(2) by (auto simp: V_def A_def nom_inv_def)
  have srt: "sorted_wrt (<) V" "sorted_wrt (<) A" using E inv(2) by (auto simp: V_def A_def nom_inv_def)
  have "nom_inv s'" using inv(2) sub srt unfolding eq by (auto simp: nom_inv_def)
  moreover have "nom_adv s s'" using nom_adv_refl [OF inv(2)] sub unfolding eq by (auto simp: nom_adv_def)
  moreover have "same_ballot s s'" unfolding eq by simp
  ultimately show ?thesis using inv(1) by (intro nom_step_local)
qed

lemma ratifyAccepted_step:
  assumes inv: "slot_inv s" "nom_inv s" and ok: "ratifyAccepted ctx (mAccepted s) w s = (w', s')"
  shows "nom_step s s'"
proof -
  note E = ratifyAccepted_effect [OF ok]
  define C where "C = mCandidates s'"
  have eq: "s' = s\<lparr>mCandidates := C\<rparr>"
    using ratifyAccepted_fields [OF ok, where C = C] by (simp add: C_def)
  have sub: "set (mCandidates s) \<subseteq> set C" "set C \<subseteq> set (mAccepted s)" "sorted_wrt (<) C"
    using E inv(2) by (auto simp: C_def nom_inv_def)
  have "nom_inv s'" using inv(2) sub unfolding eq by (auto simp: nom_inv_def)
  moreover have "nom_adv s s'" using nom_adv_refl [OF inv(2)] sub unfolding eq by (auto simp: nom_adv_def)
  moreover have "same_ballot s s'" unfolding eq by simp
  ultimately show ?thesis using inv(1) by (intro nom_step_local)
qed

lemma addVote_step:
  assumes "slot_inv s" "nom_inv s"
  shows "nom_step s (notify (NominatingValue v) (s\<lparr>mVotes := set_insert v (mVotes s)\<rparr>))"
  using assms nom_adv_refl [OF assms(2)]
  by (intro nom_step_local) (simp_all, auto simp: nom_inv_def nom_adv_def)

lemma takeLeaderVote_step:
  "slot_inv s \<Longrightarrow> nom_inv s \<Longrightarrow> takeLeaderVote ctx n nom s = Inr (w, s') \<Longrightarrow> nom_step s s'"
  by (auto simp: takeLeaderVote_def nom_step_refl split: if_splits option.splits intro: addVote_step)

lemma nomRecordEnvelope_step:
  assumes inv: "slot_inv s" "nom_inv s" and nom: "pledges (envStatement env) = SCP_ST_NOMINATE nom" "isSane nom"
    and new: "nomIsNewerStatementFrom (nodeID (envStatement env)) nom s"
  shows "nom_step s (nomRecordEnvelope env s)"
proof -
  let ?n = "nodeID (envStatement env)" and ?s = "nomRecordEnvelope env s"
  have ok: "nominations_ok (mLatestNominations s)" using inv(2) by (simp add: nom_inv_def)
  have eq: "?s = recordStatement (envStatement env) (s\<lparr>mLatestNominations := map_put ?n env (mLatestNominations s)\<rparr>)"
    by (simp add: nomRecordEnvelope_def)
  have "nominations_ok (map_put ?n env (mLatestNominations s))"
    using ok nom by (auto simp: nominations_ok_def set_map_put)
  then have "nom_inv ?s" using inv(2) by (simp add: eq recordStatement_def nom_inv_def)
  moreover have "nomEnvLe (map_of (mLatestNominations s) ?n) (Some env)"
    using new nom nominations_ok_find [OF ok]
    by (fastforce simp: nomEnvLe_def nomIsNewerStatementFrom_def newerThanEnvelope_def nomIsNewerStatement_iff
        split: option.splits)
  then have "nom_adv s ?s" using nom_adv_refl [OF inv(2)] by (auto simp: eq recordStatement_def nom_adv_def)
  moreover have "same_ballot s ?s" by (simp add: eq)
  ultimately show ?thesis using inv(1) by (intro nom_step_local)
qed


lemma updateCandidate_step:
  assumes inv: "slot_inv s" "nom_inv s" and ok: "updateCandidate ctx s = Inr s'"
  shows "nom_step s s'"
proof -
  let ?s1 = "s\<lparr>mLatestCompositeCandidate := combineCandidates ctx (slotIdx ctx) (mCandidates s)\<rparr>"
  obtain v w where v: "bumpStateForce (ballotProc ctx) ctx v False (notify (UpdatedCandidateValue v) ?s1) = Inr (w, s')"
    using ok by (auto simp: updateCandidate_def Let_def)
  let ?s2 = "notify (UpdatedCandidateValue v) ?s1"
  have "nom_inv ?s2" "nom_adv s ?s2"
    using inv(2) nom_adv_refl [OF inv(2)] by (simp_all, simp_all add: nom_inv_def nom_adv_def)
  then have s2: "nom_step s ?s2" using inv(1) by (intro nom_step_local) simp_all
  have "nom_step ?s2 s'"
    using ballot_cycle.bumpStateForce_step [OF _ v] ballot_only.bumpStateForce_frame [OF v] nom_stepD [OF s2]
    by (intro nom_step_ballot) auto
  then show ?thesis by (rule nom_step_trans [OF s2])
qed

lemma nominationOf_sane: "nom_inv s \<Longrightarrow> mVotes s \<noteq> [] \<Longrightarrow> isSane (nominationOf ctx s)"
  by (simp add: isSane_iff nominationOf_def nom_inv_def)

text \<open>The contract of \<open>Slot::processEnvelope\<close> that the nomination protocol relies on.\<close>

locale nomination_callback =
  fixes proc :: process_envelope and ctx :: SCPContext
  assumes proc_nom_step:
    "slot_inv s \<Longrightarrow> nom_inv s \<Longrightarrow> proc env self s = Inr (res, s') \<Longrightarrow> nom_step s s'"
begin

lemma emitNomination_step:
  assumes inv: "slot_inv s" "nom_inv s" and votes: "mVotes s \<noteq> []" and ok: "emitNomination proc ctx s = Inr s'"
  shows "nom_step s s'"
proof -
  let ?nom = "nominationOf ctx s"
  let ?env = "createEnvelope ctx \<lparr>nodeID = localNodeID ctx, slotIndex = 0, pledges = SCP_ST_NOMINATE ?nom\<rparr>"
  have nom: "pledges (envStatement ?env) = SCP_ST_NOMINATE ?nom" by (simp add: createEnvelope_def Let_def)
  obtain s1 where s1: "proc ?env True s = Inr (VALID, s1)"
    and s': "newerThanEnvelope (mNominationLastEnvelope s1) ?nom \<and>
       s' = (if mFullyValidated s1 then notify (EmitEnvelope ?env) (s1\<lparr>mNominationLastEnvelope := Some ?env\<rparr>)
             else s1\<lparr>mNominationLastEnvelope := Some ?env\<rparr>) \<or> s' = s1"
    using ok by (auto simp: emitNomination_def Let_def split: if_splits)
  have g: "nom_step s s1" by (rule proc_nom_step [OF inv s1])
  then have inv1: "slot_inv s1" "nom_inv s1" by (simp_all add: nom_stepD)
  show ?thesis
  proof (cases "s' = s1")
    case False
    then have new: "newerThanEnvelope (mNominationLastEnvelope s1) ?nom" using s' by blast
    let ?s2 = "s1\<lparr>mNominationLastEnvelope := Some ?env\<rparr>"
    have "nomEnvLe (mNominationLastEnvelope s1) (Some ?env)"
      using new nom inv1(2) nominationOf_sane [OF inv(2) votes]
      by (fastforce simp: nomEnvLe_def newerThanEnvelope_def nom_inv_def nomIsNewerStatement_iff split: option.splits)
    then have "nom_adv s1 ?s2" using nom_adv_refl [OF inv1(2)] by (simp add: nom_adv_def)
    moreover have "nom_inv ?s2" using inv1(2) nom nominationOf_sane [OF inv(2) votes] by (simp add: nom_inv_def)
    moreover have "same_ballot s1 s'" using s' nom False by auto
    ultimately have "nom_step s1 s'" using s' False inv1(1) by (intro nom_step_local) auto
    then show ?thesis by (rule nom_step_trans [OF g])
  qed (use g in simp)
qed

lemma nominationAdvance_step:
  assumes inv: "slot_inv s" "nom_inv s" and ok: "nominationAdvance proc ctx n nom s = Inr s'"
  shows "nom_step s s'"
proof -
  obtain m1 s1 nc s2 where s1: "acceptVotes ctx (votes nom) False s = (m1, s1)"
    and s2: "ratifyAccepted ctx (mAccepted s1) False s1 = (nc, s2)" by fastforce
  then obtain m2 s3 s4 where s3: "takeLeaderVote ctx n nom s2 = Inr (m2, s3)"
    and s4: "(if m1 \<or> m2 then emitNomination proc ctx s3 else Inr s3) = Inr s4"
    and s': "(if nc then updateCandidate ctx s4 else Inr s4) = Inr s'"
    using ok by (auto simp: nominationAdvance_def)
  have g1: "nom_step s s1" by (rule acceptVotes_step [OF inv s1])
  have g2: "nom_step s1 s2" using nom_stepD [OF g1] by (intro ratifyAccepted_step [OF _ _ s2]) auto
  have g3: "nom_step s2 s3" using nom_stepD [OF g2] by (intro takeLeaderVote_step [OF _ _ s3]) auto
  have votes: "mVotes s3 \<noteq> []" if "m1 \<or> m2"
  proof (cases m1)
    case True
    then have "set (mVotes s1) \<noteq> {}"
      using acceptVotes_effect [OF s1] nom_stepD [OF g1] by (auto simp: nom_inv_def)
    then show ?thesis using g2 g3 by (auto simp: nom_step_def nom_adv_def)
  next
    case False
    then show ?thesis using that s3 by (auto simp: takeLeaderVote_def notify_def split: if_splits option.splits)
  qed
  have g4: "nom_step s3 s4"
    using s4 nom_stepD [OF g3] votes emitNomination_step by (auto simp: nom_step_refl split: if_splits)
  then have "nom_step s4 s'"
    using s' nom_stepD [OF g4] updateCandidate_step by (auto simp: nom_step_refl split: if_splits)
  then show ?thesis using g1 g2 g3 g4 nom_step_trans by blast
qed

lemma nominationProcessEnvelope_step:
  assumes inv: "slot_inv s" "nom_inv s" and ok: "nominationProcessEnvelope proc ctx env s = Inr (res, s')"
  shows "nom_step s s'"
proof (cases "s' = s")
  case False
  then obtain nom where nom: "pledges (envStatement env) = SCP_ST_NOMINATE nom"
    and new: "nomIsNewerStatementFrom (nodeID (envStatement env)) nom s" "isSane nom"
    and s': "(if mNominationStarted (nomRecordEnvelope env s)
       then nominationAdvance proc ctx (nodeID (envStatement env)) nom (nomRecordEnvelope env s)
       else Inr (nomRecordEnvelope env s)) = Inr s'"
    using ok by (auto simp: nominationProcessEnvelope_def Let_def split: SCPPledges.splits if_splits)
  have g1: "nom_step s (nomRecordEnvelope env s)" by (rule nomRecordEnvelope_step [OF inv nom new(2,1)])
  then have "nom_step (nomRecordEnvelope env s) s'"
    using s' nom_stepD [OF g1] nominationAdvance_step by (auto simp: nom_step_refl split: if_splits)
  then show ?thesis by (rule nom_step_trans [OF g1])
qed (use inv in \<open>simp add: nom_step_refl\<close>)

end


subsection \<open>The whole slot\<close>

lemma maybeSetGotVBlocking_nom_step: "slot_inv s \<Longrightarrow> nom_inv s \<Longrightarrow> nom_step s (maybeSetGotVBlocking ctx s)"
  by (intro nom_step_ballot maybeSetGotVBlocking_step) simp_all

lemma slotProcessEnvelope_nom_step:
  assumes nom: "\<And>res s'. nomination env s = Inr (res, s') \<Longrightarrow> nom_step s s'"
    and bal: "\<And>res s'. ballot env self s = Inr (res, s') \<Longrightarrow> nom_step s s'"
    and ok: "slotProcessEnvelope nomination ballot ctx env self s = Inr (res, s')"
  shows "nom_step s s'"
proof -
  obtain s1 where s1: "nomination env s = Inr (res, s1) \<or> ballot env self s = Inr (res, s1)"
    and s': "s' = s1 \<or> s' = maybeSetGotVBlocking ctx s1"
    using ok by (auto simp: slotProcessEnvelope_def Let_def split: if_splits SCPPledges.splits)
  then have g: "nom_step s s1" using nom bal by blast
  then show ?thesis using s' maybeSetGotVBlocking_nom_step nom_stepD [OF g] nom_step_trans by blast
qed

lemma ballotProcessEnvelope_nom_step:
  assumes "slot_inv s" "nom_inv s" and ok: "ballotProcessEnvelope (advanceSlot n ctx) ctx env self s = Inr (res, s')"
  shows "nom_step s s'"
proof (rule nom_step_ballot)
  show "good_step s s'"
    by (rule ballotProcessEnvelope_step [OF _ assms(1) ok]) (rule advanceSlot_step)
  show "nomPart s' = nomPart s"
    by (rule ballotProcessEnvelope_frame [OF _ ok]) (rule advanceSlot_frame)
qed (rule assms(2))

lemma nominationProcess_step:
  "slot_inv s \<Longrightarrow> nom_inv s \<Longrightarrow> nominationProcess n ctx env s = Inr (res, s') \<Longrightarrow> nom_step s s'"
proof (induction n arbitrary: env s res s')
  case (Suc n)
  let ?proc = "slotProcessEnvelope (nominationProcess n ctx)
    (ballotProcessEnvelope (advanceSlot MAX_ADVANCE_SLOT_RECURSION ctx) ctx) ctx"
  have "nomination_callback ?proc"
  proof
    fix s env self res s'
    assume inv: "slot_inv s" "nom_inv s" and ok: "?proc env self s = Inr (res, s')"
    show "nom_step s s'"
      by (rule slotProcessEnvelope_nom_step [OF _ _ ok]) (blast intro: Suc.IH [OF inv] ballotProcessEnvelope_nom_step [OF inv])+
  qed
  then show ?case using Suc.prems by (auto intro: nomination_callback.nominationProcessEnvelope_step)
qed simp

lemma slotProcess_step:
  assumes inv: "slot_inv s" "nom_inv s" and ok: "slotProcess n ctx env self s = Inr (res, s')"
  shows "nom_step s s'"
  by (rule slotProcessEnvelope_nom_step [OF _ _ ok [unfolded slotProcess_def]])
    (blast intro: nominationProcess_step [OF inv] ballotProcessEnvelope_nom_step [OF inv])+

interpretation nomination_cycle: nomination_callback "slotProcess n ctx" ctx for n ctx
  by unfold_locales (rule slotProcess_step)

subsection \<open>Nominating\<close>

lemma updateRoundLeadersRound_fields:
  "updateRoundLeadersRound ctx q s = Inr (f, s') \<Longrightarrow> \<exists>l r. s' = s\<lparr>mRoundLeaders := l, mRoundNumber := r\<rparr>"
proof -
  have "\<exists>l r. s\<lparr>mRoundLeaders := x\<rparr> = s\<lparr>mRoundLeaders := l, mRoundNumber := r\<rparr>" for x
    by (intro exI [of _ x] exI [of _ "mRoundNumber s"]) simp
  then show "updateRoundLeadersRound ctx q s = Inr (f, s') \<Longrightarrow> ?thesis"
    by (auto simp: updateRoundLeadersRound_def Let_def split: if_splits)
qed

lemma updateRoundLeaders_fields:
  assumes "updateRoundLeaders ctx s = Inr s'"
  shows "\<exists>l r. s' = s\<lparr>mRoundLeaders := l, mRoundNumber := r\<rparr>"
proof -
  let ?body = "\<lambda>r. bindE r (\<lambda>(_ :: bool, s1). updateRoundLeadersRound ctx (leadersQSet ctx) s1)"
  let ?P = "\<lambda>r. okE (\<lambda>(_ :: bool, s1). \<exists>l r. s1 = s\<lparr>mRoundLeaders := l, mRoundNumber := r\<rparr>) r"
  obtain b r where r: "while_option b ?body (Inr (False, s)) = Some r" "bindE r (\<lambda>(_, s1). Inr s1) = Inr s'"
    using assms by (auto simp: updateRoundLeaders_def Let_def split: option.splits)
  have "?P r"
  proof (rule while_option_rule [OF _ r(1)])
    show "?P (?body r)" if "?P r" for r
      using that by (fastforce simp: okE_iff dest!: updateRoundLeadersRound_fields)
    show "?P (Inr (False, s))" by (auto intro!: exI [of _ "mRoundLeaders s"] exI [of _ "mRoundNumber s"])
  qed
  then show ?thesis using r(2) by (auto simp: okE_iff)
qed

lemma voteWithLeaders_step:
  "slot_inv s \<Longrightarrow> nom_inv s \<Longrightarrow> (w \<Longrightarrow> mVotes s \<noteq> []) \<Longrightarrow> voteWithLeaders ctx ls w s = Inr (w', s') \<Longrightarrow>
   nom_step s s' \<and> (w' \<longrightarrow> mVotes s' \<noteq> [])"
proof (induction ls arbitrary: w s)
  case (Cons l ls)
  show ?case
  proof (cases "voteWithLeaders ctx ls w s = Inr (w', s')")
    case False
    then obtain v where v: "voteWithLeaders ctx ls True
        (notify (NominatingValue v) (s\<lparr>mVotes := set_insert v (mVotes s)\<rparr>)) = Inr (w', s')"
      using Cons.prems by (auto split: option.splits SCPPledges.splits)
    let ?s = "notify (NominatingValue v) (s\<lparr>mVotes := set_insert v (mVotes s)\<rparr>)"
    have g: "nom_step s ?s" by (rule addVote_step [OF Cons.prems(1,2)])
    have "nom_step ?s s' \<and> (w' \<longrightarrow> mVotes s' \<noteq> [])"
      using nom_stepD [OF g] by (intro Cons.IH [OF _ _ _ v]) (auto simp: notify_def)
    then show ?thesis using nom_step_trans [OF g] by blast
  qed (use Cons.IH [of s w] Cons.prems in auto)
qed (auto simp: nom_step_refl)

lemma nominate_step:
  assumes inv: "slot_inv s" "nom_inv s" and ok: "nominate (slotProcess n ctx) ctx value prev timedout s = Inr (w, s')"
  shows "nom_step s s'"
proof -
  let ?s0 = "if timedout then s\<lparr>mNominationTimerExpCount := mNominationTimerExpCount s + 1\<rparr> else s"
  let ?s1 = "?s0\<lparr>mNominationStarted := True, mPreviousValue := prev, mRoundNumber := mRoundNumber ?s0 + 1\<rparr>"
  have local: "nom_step s (?s0\<lparr>mNominationStarted := a, mPreviousValue := b, mRoundLeaders := d, mRoundNumber := c\<rparr>)" for a b c d
    using inv nom_adv_refl [OF inv(2)] by (intro nom_step_local) (auto simp: nom_inv_def nom_adv_def)
  show ?thesis
  proof (cases "timedout \<and> \<not> mNominationStarted ?s0")
    case True
    then have "s' = ?s0" using ok by (auto simp: nominate_def Let_def)
    then show ?thesis using local [where a = "mNominationStarted ?s0" and b = "mPreviousValue ?s0" and c = "mRoundNumber ?s0"
          and d = "mRoundLeaders ?s0"] by simp
  next
    case False
    then obtain s2 s4 t u where s2: "updateRoundLeaders ctx ?s1 = Inr s2"
      and s4: "voteWithLeaders ctx (mRoundLeaders (snd (voteAsLeader ctx value s2))) (fst (voteAsLeader ctx value s2))
         (snd (voteAsLeader ctx value s2)) = Inr (u, s4)"
      and s': "(if u then emitNomination (slotProcess n ctx) ctx (notify t s4) else Inr (notify t s4)) = Inr s'"
      and t: "plainEvent t"
      using ok by (auto simp: nominate_def Let_def split_beta split: if_splits)
    have g2: "nom_step s s2"
      using updateRoundLeaders_fields [OF s2] local [where a = True and b = prev] by auto
    let ?s3 = "snd (voteAsLeader ctx value s2)"
    have g3: "nom_step s2 ?s3" "fst (voteAsLeader ctx value s2) \<Longrightarrow> mVotes ?s3 \<noteq> []"
      using nom_stepD [OF g2] addVote_step by (auto simp: voteAsLeader_def nom_step_refl notify_def [of _ "_ \<lparr> mVotes := _ \<rparr>"])
    have g4: "nom_step ?s3 s4 \<and> (u \<longrightarrow> mVotes s4 \<noteq> [])"
      using nom_stepD [OF g3(1)] by (intro voteWithLeaders_step [OF _ _ g3(2) s4]) auto
    then have inv4: "slot_inv s4" "nom_inv s4" using nom_stepD by blast+
    then have g5: "nom_step s4 (notify t s4)" using t nom_adv_refl by (intro nom_step_local) auto
    have "nom_step (notify t s4) s'"
      using s' g4 nom_stepD [OF g5] nomination_cycle.emitNomination_step [of "notify t s4" n ctx s']
      by (auto simp: nom_step_refl notify_def split: if_splits)
    then show ?thesis using g2 g3(1) g4 g5 nom_step_trans by blast
  qed
qed

end
