(* ===== verification/Slot.thy ===== *)
theory Slot
  imports NominationSteps
begin

text \<open>
  The public methods of \<open>src/src/scp/Slot.cpp\<close> over the two protocols, the histories they can
  produce, and the properties that hold along every history.
\<close>

subsection \<open>Methods\<close>

definition slotAbandonBallot :: "SCPContext \<Rightarrow> bool action" where
  "slotAbandonBallot ctx s = abandonBallot (ballotProc ctx) ctx 0 s"

definition slotBumpState :: "SCPContext \<Rightarrow> Value \<Rightarrow> bool \<Rightarrow> bool action" where
  "slotBumpState ctx v force s = bumpStateForce (ballotProc ctx) ctx v force s"

definition slotNominate :: "nat \<Rightarrow> SCPContext \<Rightarrow> Value \<Rightarrow> Value \<Rightarrow> bool \<Rightarrow> bool action" where
  "slotNominate n ctx value previousValue timedout s =
     nominate (slotProcess n ctx) ctx value previousValue timedout s"

definition slotTimerExpired :: "SCPContext \<Rightarrow> bool action" where
  "slotTimerExpired ctx s = ballotProtocolTimerExpired (ballotProc ctx) ctx s"

definition slotSetStateFromEnvelope :: "SCPContext \<Rightarrow> SCPEnvelope \<Rightarrow> Slot \<Rightarrow> scp_error + Slot" where
  "slotSetStateFromEnvelope ctx e s =
     (if nodeID (envStatement e) = localNodeID ctx \<and> slotIndex (envStatement e) = slotIdx ctx
      then
        let prev = getLatestMessage (nodeID (envStatement e)) s \<noteq> None
        in bindE (if pledgesType (pledges (envStatement e)) = TYPE_NOMINATE
                  then nominationSetStateFromEnvelope e s else ballotSetStateFromEnvelope e s)
             (\<lambda>s'. Inr (if \<not> prev then maybeSetGotVBlocking ctx s' else s'))
      else Inr s)"

definition slotLatestMessagesSend :: "Slot \<Rightarrow> SCPEnvelope list" where
  "slotLatestMessagesSend s =
     (if mFullyValidated s
      then (case mNominationLastEnvelope s of None \<Rightarrow> [] | Some e \<Rightarrow> [e]) @
           (case mLastEnvelopeEmit s of None \<Rightarrow> [] | Some e \<Rightarrow> [e])
      else [])"

definition slotProcessCurrentState ::
  "SCPContext \<Rightarrow> (SCPEnvelope \<Rightarrow> 's \<Rightarrow> bool \<times> 's) \<Rightarrow> bool \<Rightarrow> Slot \<Rightarrow> 's \<Rightarrow> 's" where
  "slotProcessCurrentState ctx f forceSelf s x =
     (case nominationProcessCurrentState ctx f forceSelf s x of
        (continue, x') \<Rightarrow> if continue then snd (ballotProcessCurrentState ctx f forceSelf s x') else x')"

definition getEntireCurrentState :: "SCPContext \<Rightarrow> Slot \<Rightarrow> SCPEnvelope list" where
  "getEntireCurrentState ctx s = slotProcessCurrentState ctx (\<lambda>e es. (True, es @ [e])) True s []"

definition isNewerNominationOrBallotSt :: "SCPStatement \<Rightarrow> SCPStatement \<Rightarrow> bool" where
  "isNewerNominationOrBallotSt oldSt newSt =
     (case (pledges oldSt, pledges newSt) of
        (SCP_ST_NOMINATE o', SCP_ST_NOMINATE n) \<Rightarrow> nomIsNewerStatement o' n
      | (SCP_ST_NOMINATE _, _) \<Rightarrow> False
      | (_, SCP_ST_NOMINATE _) \<Rightarrow> False
      | _ \<Rightarrow> isNewerStatement oldSt newSt)"

definition getStatementValues :: "SCPStatement \<Rightarrow> Value list" where
  "getStatementValues st =
     (case pledges st of
        SCP_ST_NOMINATE nom \<Rightarrow> nominationStatementValues nom
      | _ \<Rightarrow> ballotStatementValues st)"

definition slotGetState :: "SCPContext \<Rightarrow> NodeID \<Rightarrow> bool \<Rightarrow> Slot \<Rightarrow> QuorumInfoNodeState" where
  "slotGetState ctx n selfAlreadyMovedOn s =
     (let b = ballotGetState ctx n selfAlreadyMovedOn s
      in if b \<noteq> NO_INFO then b else nominationGetState ctx n selfAlreadyMovedOn s)"

subsection \<open>Histories\<close>

text \<open>
  What can happen to a slot after its creation: the calls that the rest of the node makes, in any
  order, each with any local quorum set and driver (both may change between calls), and with any
  fuel. A call that throws or aborts has no successor.
\<close>

inductive slot_call :: "Slot \<Rightarrow> Slot \<Rightarrow> bool" where
  receive: "slotProcess n ctx env False s = Inr (res, s') \<Longrightarrow> slot_call s s'"
| nominate: "slotNominate n ctx value previousValue timedout s = Inr (w, s') \<Longrightarrow> slot_call s s'"
| stop: "slot_call s (stopNomination s)"
| bump: "slotBumpState ctx v force s = Inr (w, s') \<Longrightarrow> slot_call s s'"
| abandon: "slotAbandonBallot ctx s = Inr (w, s') \<Longrightarrow> slot_call s s'"
| timer: "slotTimerExpired ctx s = Inr (w, s') \<Longrightarrow> slot_call s s'"

inductive_cases slot_callE: "slot_call s s'"

inductive slot_history :: "Slot \<Rightarrow> Slot \<Rightarrow> bool" where
  start: "slot_history s s"
| more: "slot_history s s' \<Longrightarrow> slot_call s' s'' \<Longrightarrow> slot_history s s''"

lemma stopNomination_step: "slot_inv s \<Longrightarrow> nom_inv s \<Longrightarrow> nom_step s (stopNomination s)"
  by (intro nom_step_ballot same_ballot_step) (simp_all add: stopNomination_def)

lemma slot_call_step:
  assumes "slot_call s s'" "slot_inv s" "nom_inv s"
  shows "nom_step s s'"
  using assms(1)
proof cases
  case receive
  then show ?thesis using slotProcess_step assms by blast
next
  case nominate
  then show ?thesis using nominate_step assms by (simp add: slotNominate_def)
next
  case stop
  then show ?thesis using stopNomination_step assms by simp
next
  case (bump ctx v force w)
  then show ?thesis
    using assms by (auto simp: slotBumpState_def
        intro!: nom_step_ballot ballot_cycle.bumpStateForce_step ballot_only.bumpStateForce_frame)
next
  case (abandon ctx w)
  then show ?thesis
    using assms by (auto simp: slotAbandonBallot_def
        intro!: nom_step_ballot ballot_cycle.abandonBallot_step ballot_only.abandonBallot_frame)
next
  case (timer ctx w)
  then show ?thesis
    using assms by (auto simp: slotTimerExpired_def
        intro!: nom_step_ballot ballot_cycle.ballotProtocolTimerExpired_step
          ballot_only.ballotProtocolTimerExpired_frame)
qed

lemma slot_history_step: "slot_history s s' \<Longrightarrow> slot_inv s \<Longrightarrow> nom_inv s \<Longrightarrow> nom_step s s'"
proof (induction rule: slot_history.induct)
  case (more s s' s'')
  then show ?case using slot_call_step nom_stepD nom_step_trans by blast
qed (rule nom_step_refl)

lemma newSlot_inv [simp]: "slot_inv (newSlot ctx)" "nom_inv (newSlot ctx)"
  by (simp_all add: newSlot_def slot_inv_def ballot_inv_def envelopes_ok_def emit_inv_def emittedBallots_def
      nom_inv_def nominations_ok_def)

lemmas new_slot_step = slot_history_step [OF _ newSlot_inv]

end
