(* ===== verification/NominationTermination.thy ===== *)
theory NominationTermination
  imports NominationSteps
begin

text \<open>
  The calls between \<open>NominationProtocol::emitNomination\<close> and \<open>Slot::processEnvelope\<close> end, although
  the code does not limit them: every nested call has more votes or accepted values than the one
  before, and all of them come from a finite set. This needs the documented behaviour of
  \<open>SCPDriver::extractValidValue\<close>, that the value it returns is valid.
\<close>

definition extracts_valid :: "SCPContext \<Rightarrow> bool" where
  "extracts_valid ctx \<longleftrightarrow>
     (\<forall>v w. nomExtractValidValue ctx v = Some w \<longrightarrow> nomValidateValue ctx w = kFullyValidatedValue)"

text \<open>The values that nested calls may vote for, when they start from the votes \<open>V\<close>.\<close>

definition reachableVotes :: "SCPContext \<Rightarrow> Value set \<Rightarrow> Value set" where
  "reachableVotes ctx V =
     V \<union> {w. \<exists>v \<in> V. nomValidateValue ctx v \<noteq> kFullyValidatedValue \<and> nomExtractValidValue ctx v = Some w}"

definition nomPotential :: "SCPContext \<Rightarrow> Slot \<Rightarrow> nat" where
  "nomPotential ctx s =
     (card (reachableVotes ctx (set (mVotes s))) - card (set (mVotes s))) +
     (card (reachableVotes ctx (set (mVotes s))) - card (set (mAccepted s)))"

lemma reachableVotes_image:
  "reachableVotes ctx V \<subseteq> V \<union> (\<lambda>v. the (nomExtractValidValue ctx v)) ` V"
  by (force simp: reachableVotes_def)

lemma finite_reachableVotes [simp]: "finite V \<Longrightarrow> finite (reachableVotes ctx V)"
  by (rule finite_subset [OF reachableVotes_image]) simp

lemma card_reachableVotes: "finite V \<Longrightarrow> card (reachableVotes ctx V) \<le> 2 * card V"
proof -
  assume fin: "finite V"
  have "card (reachableVotes ctx V) \<le> card (V \<union> (\<lambda>v. the (nomExtractValidValue ctx v)) ` V)"
    using fin by (intro card_mono reachableVotes_image) simp
  also have "\<dots> \<le> card V + card V"
    using card_Un_le card_image_le [OF fin] by (meson add_left_mono le_trans)
  finally show ?thesis by simp
qed

lemma reachableVotes_closed:
  "extracts_valid ctx \<Longrightarrow> V' \<subseteq> reachableVotes ctx V \<Longrightarrow> reachableVotes ctx V' \<subseteq> reachableVotes ctx V"
  by (auto simp: reachableVotes_def extracts_valid_def)

lemma reachableVotes_subset: "U \<subseteq> V \<Longrightarrow> V \<union> reachableVotes ctx U \<subseteq> reachableVotes ctx V"
  by (auto simp: reachableVotes_def)

lemma nomPotential_bound: "nom_inv s \<Longrightarrow> nomPotential ctx s \<le> 4 * length (mVotes s)"
  using card_reachableVotes [of "set (mVotes s)" ctx]
  by (simp add: nomPotential_def nom_inv_def flip: sorted_length_set)

lemma nomPotential_less:
  assumes ex: "extracts_valid ctx" and inv: "nom_inv s'"
    and le: "set (mVotes s) \<subseteq> set (mVotes s')" "set (mAccepted s) \<subseteq> set (mAccepted s')"
    and sub: "set (mVotes s') \<subseteq> reachableVotes ctx (set (mVotes s))"
    and new: "set (mVotes s') \<noteq> set (mVotes s) \<or> set (mAccepted s') \<noteq> set (mAccepted s)"
  shows "nomPotential ctx s' < nomPotential ctx s"
proof -
  let ?C = "card (reachableVotes ctx (set (mVotes s)))" and ?C' = "card (reachableVotes ctx (set (mVotes s')))"
  have "?C' \<le> ?C" by (intro card_mono reachableVotes_closed [OF ex sub]) simp
  moreover have "card (set (mVotes s)) \<le> card (set (mVotes s'))" "card (set (mAccepted s)) \<le> card (set (mAccepted s'))"
    using le by (auto intro: card_mono)
  moreover have "card (set (mVotes s)) < card (set (mVotes s')) \<or> card (set (mAccepted s)) < card (set (mAccepted s'))"
    using new le psubset_card_mono [of "set (mVotes s')"] psubset_card_mono [of "set (mAccepted s')"] by blast
  moreover have "card (set (mVotes s')) \<le> ?C" using sub by (intro card_mono) auto
  moreover have "card (set (mAccepted s')) \<le> ?C"
    using sub inv by (intro card_mono) (auto simp: nom_inv_def)
  ultimately show ?thesis by (auto simp: nomPotential_def)
qed

subsection \<open>Errors of the steps that do not call back\<close>

lemma hashValue_proper [proper_errors]: "hashValue ctx v s = Inl e \<Longrightarrow> proper_error e"
  by (auto simp: hashValue_def bindE_eq_Inl dest: proper_errors)

lemma pickNewVote_proper [proper_errors]: "pickNewVote ctx s vs h w = Inl e \<Longrightarrow> proper_error e"
  by (induction vs arbitrary: h w) (auto simp: bindE_eq_Inl split: option.splits if_splits dest: proper_errors)

lemma takeLeaderVote_proper [proper_errors]: "takeLeaderVote ctx n nom s = Inl e \<Longrightarrow> proper_error e"
  by (auto simp: takeLeaderVote_def getNewValueFromNomination_def bindE_eq_Inl split: option.splits if_splits
      dest: proper_errors)

lemma updateCandidate_proper:
  assumes inv: "slot_inv s" "mCurrentMessageLevel s = 0" and err: "updateCandidate ctx s = Inl e"
  shows "proper_error e"
proof -
  let ?s = "\<lambda>v. notify (UpdatedCandidateValue v)
    (s\<lparr>mLatestCompositeCandidate := combineCandidates ctx (slotIdx ctx) (mCandidates s)\<rparr>)"
  have "good_step s (?s v)" for v using inv(1) by (intro same_ballot_step) simp_all
  then have "slot_inv (?s v)" for v by (rule good_stepD)
  moreover have "mCurrentMessageLevel (?s v) = 0" for v using inv(2) by (simp add: notify_def)
  moreover have "proper_error e \<or> (\<exists>v. bumpStateForce (ballotProc ctx) ctx v False (?s v) = Inl e)"
    using err by (auto simp: updateCandidate_def Let_def bindE_eq_Inl split: prod.splits dest: proper_errors)
  ultimately show ?thesis using ballot_api.bumpStateForce_proper by blast
qed

subsection \<open>The votes a step may add\<close>

lemma pickNewVote_source:
  "pickNewVote ctx s vs h w = Inr (Some v) \<Longrightarrow>
   w = Some v \<or> (v \<notin> set (mVotes s) \<and> (\<exists>u \<in> set vs. valueToNominate ctx u = Some v))"
  by (induction vs arbitrary: h w) (fastforce split: option.splits if_splits)+

lemma takeLeaderVote_effect:
  assumes "takeLeaderVote ctx n nom s = Inr (m, s')"
  shows "mAccepted s' = mAccepted s \<and>
    (m \<longrightarrow> (\<exists>u v. u \<in> set (applyAll nom) \<and> valueToNominate ctx u = Some v \<and> v \<notin> set (mVotes s) \<and>
       mVotes s' = set_insert v (mVotes s))) \<and> (\<not> m \<longrightarrow> s' = s)"
  using assms
  by (auto simp: takeLeaderVote_def getNewValueFromNomination_def notify_def split: if_splits option.splits
      dest!: pickNewVote_source) blast

lemma valueToNominate_reachable:
  "valueToNominate ctx u = Some v \<Longrightarrow> u \<in> V \<Longrightarrow> v \<in> reachableVotes ctx V"
  by (auto simp: valueToNominate_def reachableVotes_def split: if_splits)

lemma set_applyAll: "set (applyAll nom) = set (votes nom) \<union> set (accepted nom)"
  by (auto simp: applyAll_def)

lemma card_union_image:
  assumes "A \<subseteq> set xs \<union> f ` set ys"
  shows "card A \<le> card (set xs) + length ys"
proof -
  have "card A \<le> card (set xs \<union> f ` set ys)" using assms by (intro card_mono) auto
  also have "\<dots> \<le> card (set xs) + card (f ` set ys)" by (rule card_Un_le)
  also have "card (f ` set ys) \<le> length ys" using card_image_le card_length le_trans by blast
  finally show ?thesis by simp
qed

text \<open>The part of a nomination's processing that precedes the emission of a new one.\<close>

definition nominationVotes :: "SCPContext \<Rightarrow> NodeID \<Rightarrow> SCPNomination \<Rightarrow> Slot \<Rightarrow> scp_error + (bool \<times> bool \<times> Slot)" where
  "nominationVotes ctx n nom s =
     (let (modified1, s1) = acceptVotes ctx (votes nom) False s;
          (newCandidates, s2) = ratifyAccepted ctx (mAccepted s1) False s1
      in bindE (takeLeaderVote ctx n nom s2) (\<lambda>(modified2, s3). Inr (modified1 \<or> modified2, newCandidates, s3)))"

lemma nominationAdvance_votes:
  "nominationAdvance proc ctx n nom s =
     bindE (nominationVotes ctx n nom s) (\<lambda>(modified, newCandidates, s3).
     bindE (if modified then emitNomination proc ctx s3 else Inr s3) (\<lambda>s4.
     if newCandidates then updateCandidate ctx s4 else Inr s4))"
proof -
  obtain m1 s1 where "acceptVotes ctx (votes nom) False s = (m1, s1)" by fastforce
  moreover obtain nc s2 where "ratifyAccepted ctx (mAccepted s1) False s1 = (nc, s2)" by fastforce
  ultimately show ?thesis
    by (cases "takeLeaderVote ctx n nom s2") (auto simp: nominationAdvance_def nominationVotes_def)
qed

lemma acceptVotes_source:
  assumes "acceptVotes ctx vs m s = (m', s')"
  shows "set (mVotes s') \<subseteq> set (mVotes s) \<union> {w. \<exists>v \<in> set vs. valueToNominate ctx v = Some w}"
proof -
  have "acceptable ctx (mLatestNominations s) vs \<union> variations ctx (mLatestNominations s) (set (mAccepted s)) vs
    \<subseteq> {w. \<exists>v \<in> set vs. valueToNominate ctx v = Some w}"
    by (auto simp: acceptable_def variations_def valueToNominate_def)
  then show ?thesis using acceptVotes_effect [OF assms] by blast
qed

lemma nominationVotes_effect:
  assumes inv: "slot_inv s" "nom_inv s" and ok: "nominationVotes ctx n nom s = Inr (m, nc, s3)"
  shows "nom_step s s3" "m \<Longrightarrow> mVotes s3 \<noteq> []"
    "m \<Longrightarrow> set (mVotes s3) \<noteq> set (mVotes s) \<or> set (mAccepted s3) \<noteq> set (mAccepted s)"
    "set (mVotes s3) \<subseteq> set (mVotes s) \<union> reachableVotes ctx (set (votes nom) \<union> set (accepted nom))"
    "card (set (mVotes s3)) \<le> card (set (mVotes s)) + length (votes nom) + 1"
proof -
  obtain m1 s1 s2 m2 where s1: "acceptVotes ctx (votes nom) False s = (m1, s1)"
    and s2: "ratifyAccepted ctx (mAccepted s1) False s1 = (nc, s2)"
    and s3: "takeLeaderVote ctx n nom s2 = Inr (m2, s3)" and m: "m \<longleftrightarrow> m1 \<or> m2"
    using ok by (auto simp: nominationVotes_def Let_def split: prod.splits)
  have g1: "nom_step s s1" by (rule acceptVotes_step [OF inv s1])
  have g2: "nom_step s1 s2" using nom_stepD [OF g1] by (intro ratifyAccepted_step [OF _ _ s2]) auto
  have g3: "nom_step s2 s3" using nom_stepD [OF g2] by (intro takeLeaderVote_step [OF _ _ s3]) auto
  show g: "nom_step s s3" using g1 g2 g3 nom_step_trans by blast
  note E1 = acceptVotes_effect [OF s1] and E3 = takeLeaderVote_effect [OF s3] and src = acceptVotes_source [OF s1]
  have E2: "mVotes s2 = mVotes s1" "mAccepted s2 = mAccepted s1"
    using ratifyAccepted_fields [OF s2, where C = "[]", THEN arg_cong [of _ _ mVotes]]
      ratifyAccepted_fields [OF s2, where C = "[]", THEN arg_cong [of _ _ mAccepted]] by simp_all
  have sub: "set (mVotes s) \<subseteq> set (mVotes s1)" "set (mAccepted s) \<subseteq> set (mAccepted s1)" using E1 by auto
  have m1: "m1 \<longleftrightarrow> set (mAccepted s1) \<noteq> set (mAccepted s) \<or> set (mVotes s1) \<noteq> set (mVotes s)" using E1 by blast
  have s3': "mAccepted s3 = mAccepted s1"
    "m2 \<Longrightarrow> \<exists>u v. u \<in> set (applyAll nom) \<and> valueToNominate ctx u = Some v \<and> v \<notin> set (mVotes s1) \<and>
       set (mVotes s3) = insert v (set (mVotes s1))" "\<not> m2 \<Longrightarrow> mVotes s3 = mVotes s1"
    using E2 E3 by auto
  show new: "set (mVotes s3) \<noteq> set (mVotes s) \<or> set (mAccepted s3) \<noteq> set (mAccepted s)" if m
    using that m m1 s3' sub by (cases m2) auto
  have "set (mVotes s) \<subseteq> set (mVotes s3)" "set (mAccepted s) \<subseteq> set (mAccepted s3)" "set (mAccepted s3) \<subseteq> set (mVotes s3)"
    using g by (simp_all add: nom_step_def nom_adv_def nom_inv_def)
  then show "m \<Longrightarrow> mVotes s3 \<noteq> []" using new by auto
  have leader: "set (mVotes s3) \<subseteq> set (mVotes s1) \<union> reachableVotes ctx (set (votes nom) \<union> set (accepted nom))"
    using s3' valueToNominate_reachable [of ctx _ _ "set (votes nom) \<union> set (accepted nom)"]
    by (cases m2) (auto simp: set_applyAll)
  have "{w. \<exists>v \<in> set (votes nom). valueToNominate ctx v = Some w} \<subseteq> reachableVotes ctx (set (votes nom) \<union> set (accepted nom))"
    using valueToNominate_reachable by blast
  then show "set (mVotes s3) \<subseteq> set (mVotes s) \<union> reachableVotes ctx (set (votes nom) \<union> set (accepted nom))"
    using leader src by blast
  have "set (mVotes s1) \<subseteq> set (mVotes s) \<union> (\<lambda>v. the (valueToNominate ctx v)) ` set (votes nom)"
    using src by force
  then have "card (set (mVotes s1)) \<le> card (set (mVotes s)) + length (votes nom)" by (rule card_union_image)
  moreover have "card (set (mVotes s3)) \<le> card (set (mVotes s1)) + 1"
    using s3'(2,3) by (cases m2) auto
  ultimately show "card (set (mVotes s3)) \<le> card (set (mVotes s)) + length (votes nom) + 1" by simp
qed

subsection \<open>Nested calls\<close>

abbreviation nominationEnvelope :: "SCPContext \<Rightarrow> Slot \<Rightarrow> SCPEnvelope" where
  "nominationEnvelope ctx s \<equiv> createEnvelope ctx
     \<lparr>nodeID = localNodeID ctx, slotIndex = 0, pledges = SCP_ST_NOMINATE (nominationOf ctx s)\<rparr>"

lemma nominationEnvelope_pledges [simp]:
  "pledges (envStatement (nominationEnvelope ctx s)) = SCP_ST_NOMINATE (nominationOf ctx s)"
  by (simp add: createEnvelope_def Let_def)

lemma nom_step_level: "nom_step s s' \<Longrightarrow> mCurrentMessageLevel s' = mCurrentMessageLevel s"
  by (simp add: nom_step_def good_step_def slot_step_def slot_adv_def)

lemma emitNomination_error:
  assumes "emitNomination (slotProcess n ctx) ctx s = Inl e"
  shows "proper_error e \<or> nominationProcess n ctx (nominationEnvelope ctx s) s = Inl e"
proof -
  have "e = BadState \<or> slotProcess n ctx (nominationEnvelope ctx s) True s = Inl e"
    using assms by (auto simp: emitNomination_def Let_def bindE_eq_Inl split: if_splits)
  then show ?thesis
    by (auto simp: slotProcess_def slotProcessEnvelope_def Let_def bindE_eq_Inl proper_error_def split: if_splits)
qed

lemma nominationAdvance_proper:
  assumes inv: "slot_inv s" "nom_inv s" "mCurrentMessageLevel s = 0"
    and nested: "\<And>nc s3. nominationVotes ctx k nom s = Inr (True, nc, s3) \<Longrightarrow>
      nominationProcess n ctx (nominationEnvelope ctx s3) s3 = Inl e \<Longrightarrow> proper_error e"
    and err: "nominationAdvance (slotProcess n ctx) ctx k nom s = Inl e"
  shows "proper_error e"
proof (cases "nominationVotes ctx k nom s")
  case (Inl e')
  then show ?thesis
    using err by (auto simp: nominationAdvance_votes nominationVotes_def Let_def bindE_eq_Inl split: prod.splits
        dest: proper_errors)
next
  case (Inr r)
  then obtain m nc s3 where s3: "nominationVotes ctx k nom s = Inr (m, nc, s3)" by (metis prod_cases3)
  note V = nominationVotes_effect [OF inv(1,2) s3]
  have inv3: "slot_inv s3" "nom_inv s3" "mCurrentMessageLevel s3 = 0"
    using nom_stepD [OF V(1)] nom_step_level [OF V(1)] inv(3) by auto
  show ?thesis
  proof (cases "if m then emitNomination (slotProcess n ctx) ctx s3 else Inr s3")
    case (Inl e')
    then have "m = True" "emitNomination (slotProcess n ctx) ctx s3 = Inl e"
      using err s3 by (auto simp: nominationAdvance_votes split: if_splits)
    then show ?thesis using emitNomination_error nested [of nc s3] s3 by blast
  next
    case (Inr s4)
    then have "nom_step s3 s4"
      using inv3 V(2) nomination_cycle.emitNomination_step by (auto simp: nom_step_refl split: if_splits)
    then have "slot_inv s4" "mCurrentMessageLevel s4 = 0"
      using inv3(3) nom_stepD nom_step_level by auto
    moreover have "updateCandidate ctx s4 = Inl e"
      using err s3 Inr by (auto simp: nominationAdvance_votes split: if_splits)
    ultimately show ?thesis by (rule updateCandidate_proper)
  qed
qed

lemma nominationProcess_proper_step:
  assumes inv: "slot_inv s" "nom_inv s" "mCurrentMessageLevel s = 0"
    and nom: "pledges (envStatement env) = SCP_ST_NOMINATE nom"
    and nested: "\<And>s3. nom_inv s3 \<Longrightarrow> slot_inv s3 \<Longrightarrow> mCurrentMessageLevel s3 = 0 \<Longrightarrow>
      set (mVotes s) \<subseteq> set (mVotes s3) \<Longrightarrow> set (mAccepted s) \<subseteq> set (mAccepted s3) \<Longrightarrow>
      set (mVotes s3) \<noteq> set (mVotes s) \<or> set (mAccepted s3) \<noteq> set (mAccepted s) \<Longrightarrow>
      set (mVotes s3) \<subseteq> set (mVotes s) \<union> reachableVotes ctx (set (votes nom) \<union> set (accepted nom)) \<Longrightarrow>
      card (set (mVotes s3)) \<le> card (set (mVotes s)) + length (votes nom) + 1 \<Longrightarrow>
      nominationProcess n ctx (nominationEnvelope ctx s3) s3 = Inl e \<Longrightarrow> proper_error e"
    and err: "nominationProcess (Suc n) ctx env s = Inl e"
  shows "proper_error e"
proof -
  let ?s1 = "nomRecordEnvelope env s"
  have new: "nomIsNewerStatementFrom (nodeID (envStatement env)) nom s" "isSane nom"
    and adv: "nominationAdvance (slotProcess n ctx) ctx (nodeID (envStatement env)) nom ?s1 = Inl e"
    using err nom by (auto simp: nominationProcessEnvelope_def slotProcess_def Let_def bindE_eq_Inl split: if_splits)
  have g1: "nom_step s ?s1" by (rule nomRecordEnvelope_step [OF inv(1,2) nom new(2,1)])
  have inv1: "slot_inv ?s1" "nom_inv ?s1" "mCurrentMessageLevel ?s1 = 0"
    using nom_stepD [OF g1] nom_step_level [OF g1] inv(3) by auto
  have sel: "mVotes ?s1 = mVotes s" "mAccepted ?s1 = mAccepted s"
    by (simp_all add: nomRecordEnvelope_def recordStatement_def)
  show ?thesis
  proof (rule nominationAdvance_proper [OF inv1 _ adv])
    fix nc s3
    assume s3: "nominationVotes ctx (nodeID (envStatement env)) nom ?s1 = Inr (True, nc, s3)"
      and err3: "nominationProcess n ctx (nominationEnvelope ctx s3) s3 = Inl e"
    note V = nominationVotes_effect [OF inv1(1,2) s3, unfolded sel]
    then have "set (mVotes s) \<subseteq> set (mVotes s3)" "set (mAccepted s) \<subseteq> set (mAccepted s3)"
      using sel by (simp_all add: nom_step_def nom_adv_def)
    then show "proper_error e"
      using V nom_stepD [OF V(1)] nom_step_level [OF V(1)] inv1(3) by (intro nested [OF _ _ _ _ _ _ _ _ err3]) auto
  qed
qed

lemma nominationProcess_own_proper:
  assumes ex: "extracts_valid ctx"
  shows "slot_inv s \<Longrightarrow> nom_inv s \<Longrightarrow> mCurrentMessageLevel s = 0 \<Longrightarrow>
    pledges (envStatement env) = SCP_ST_NOMINATE nom \<Longrightarrow>
    set (votes nom) \<union> set (accepted nom) \<subseteq> set (mVotes s) \<Longrightarrow> nomPotential ctx s \<le> n \<Longrightarrow>
    nominationProcess (Suc n) ctx env s = Inl e \<Longrightarrow> proper_error e"
proof (induction n arbitrary: env nom s)
  case (0 env nom s)
  show ?case
  proof (rule nominationProcess_proper_step [OF 0(1-4) _ 0(7)])
    fix s3
    assume s3: "nom_inv s3" "set (mVotes s) \<subseteq> set (mVotes s3)" "set (mAccepted s) \<subseteq> set (mAccepted s3)"
      "set (mVotes s3) \<noteq> set (mVotes s) \<or> set (mAccepted s3) \<noteq> set (mAccepted s)"
      "set (mVotes s3) \<subseteq> set (mVotes s) \<union> reachableVotes ctx (set (votes nom) \<union> set (accepted nom))"
    have "nomPotential ctx s3 < nomPotential ctx s"
      using s3(5) reachableVotes_subset [OF 0(5)] by (intro nomPotential_less [OF ex s3(1-3) _ s3(4)]) blast
    then show "proper_error e" using 0(6) by simp
  qed
next
  case (Suc n env nom s)
  show ?case
  proof (rule nominationProcess_proper_step [OF Suc.prems(1-4) _ Suc.prems(7)])
    fix s3
    assume s3: "nom_inv s3" "slot_inv s3" "mCurrentMessageLevel s3 = 0"
      "set (mVotes s) \<subseteq> set (mVotes s3)" "set (mAccepted s) \<subseteq> set (mAccepted s3)"
      "set (mVotes s3) \<noteq> set (mVotes s) \<or> set (mAccepted s3) \<noteq> set (mAccepted s)"
      "set (mVotes s3) \<subseteq> set (mVotes s) \<union> reachableVotes ctx (set (votes nom) \<union> set (accepted nom))"
      and err: "nominationProcess (Suc n) ctx (nominationEnvelope ctx s3) s3 = Inl e"
    have "nomPotential ctx s3 < nomPotential ctx s"
      using s3(7) reachableVotes_subset [OF Suc.prems(5)]
      by (intro nomPotential_less [OF ex s3(1,4,5) _ s3(6)]) blast
    then show "proper_error e"
      using s3 Suc.prems(6) by (intro Suc.IH [OF s3(2,1,3) nominationEnvelope_pledges _ _ err])
        (auto simp: nominationOf_def nom_inv_def)
  qed
qed

subsection \<open>Enough fuel\<close>

text \<open>A nomination of another node adds at most one vote per vote of it, and one more.\<close>

lemma nominationProcess_proper:
  assumes ex: "extracts_valid ctx" and inv: "slot_inv s" "nom_inv s" "mCurrentMessageLevel s = 0"
    and nom: "pledges (envStatement env) = SCP_ST_NOMINATE nom"
    and fuel: "4 * (length (mVotes s) + length (votes nom)) + 6 \<le> n"
    and err: "nominationProcess n ctx env s = Inl e"
  shows "proper_error e"
proof -
  obtain n' where n: "n = Suc (Suc n')" using fuel by (cases n; cases "n - 1") auto
  show ?thesis
  proof (rule nominationProcess_proper_step [OF inv nom _ err [unfolded n]])
    fix s3
    assume s3: "nom_inv s3" "slot_inv s3" "mCurrentMessageLevel s3 = 0"
      and card: "card (set (mVotes s3)) \<le> card (set (mVotes s)) + length (votes nom) + 1"
      and err3: "nominationProcess (Suc n') ctx (nominationEnvelope ctx s3) s3 = Inl e"
    have "length (mVotes s3) \<le> length (mVotes s) + length (votes nom) + 1"
      using card s3(1) inv(2) by (simp add: nom_inv_def sorted_length_set)
    then have "nomPotential ctx s3 \<le> n'" using nomPotential_bound [OF s3(1), of ctx] fuel n by simp
    then show "proper_error e"
      using s3(1) by (intro nominationProcess_own_proper [OF ex s3(2,1,3) nominationEnvelope_pledges _ _ err3])
        (auto simp: nominationOf_def nom_inv_def)
  qed
qed

lemma slotProcess_ballot:
  "pledgesType (pledges (envStatement env)) \<noteq> TYPE_NOMINATE \<Longrightarrow> slotProcess n ctx env self s = ballotProc ctx env self s"
  by (auto simp: slotProcess_def slotProcessEnvelope_def pledgesType_def split: SCPPledges.splits)

definition envelopeFuel :: "SCPEnvelope \<Rightarrow> Slot \<Rightarrow> nat" where
  "envelopeFuel env s =
     4 * (length (mVotes s) +
       (case pledges (envStatement env) of SCP_ST_NOMINATE nom \<Rightarrow> length (votes nom) | _ \<Rightarrow> 0)) + 6"

lemma slotProcess_proper:
  assumes ex: "extracts_valid ctx" and inv: "slot_inv s" "nom_inv s" "mCurrentMessageLevel s = 0"
    and fuel: "envelopeFuel env s \<le> n" and err: "slotProcess n ctx env self s = Inl e"
  shows "proper_error e"
proof (cases "pledges (envStatement env)")
  case (SCP_ST_NOMINATE nom)
  then have "proper_error e \<or> nominationProcess n ctx env s = Inl e"
    using err by (auto simp: slotProcess_def slotProcessEnvelope_def Let_def bindE_eq_Inl proper_error_def split: if_splits)
  then show ?thesis
    using nominationProcess_proper [OF ex inv SCP_ST_NOMINATE] fuel SCP_ST_NOMINATE
    by (auto simp: envelopeFuel_def)
qed (use err slotProcess_ballot [of env n ctx self s] ballot_api.proc_proper [OF inv(1,3)] in
  \<open>auto simp: pledgesType_def\<close>)

end
