(* ===== verification/SCP.thy ===== *)
theory SCP
  imports Slot NominationTermination
begin

text \<open>
  \<open>src/src/scp/SCP.cpp\<close>: the slots of a node, by index, and the calls that reach them. The local
  node and the driver are one \<open>SCPContext\<close>; a slot sees it with its own index.
\<close>

subsection \<open>State and slots\<close>

record SCP =
  mDriver :: SCPContext
  mKnownSlots :: "(uint64 \<times> Slot) list"

definition slotContext :: "SCP \<Rightarrow> uint64 \<Rightarrow> SCPContext" where
  "slotContext scp i = (mDriver scp)\<lparr>slotIdx := i\<rparr>"

text \<open>\<open>getSlot\<close>: the slot, and the table, which grows when a missing slot is created.\<close>

definition getSlot :: "uint64 \<Rightarrow> bool \<Rightarrow> SCP \<Rightarrow> Slot option \<times> SCP" where
  "getSlot i create scp =
     (case map_of (mKnownSlots scp) i of
        Some s \<Rightarrow> (Some s, scp)
      | None \<Rightarrow>
          if create
          then let s = newSlot (slotContext scp i)
               in (Some s, scp\<lparr>mKnownSlots := map_put i s (mKnownSlots scp)\<rparr>)
          else (None, scp))"

text \<open>A call of a method of the slot \<open>i\<close>, which is created when it is missing.\<close>

definition onSlot :: "uint64 \<Rightarrow> (SCPContext \<Rightarrow> 'a action) \<Rightarrow> SCP \<Rightarrow> scp_error + ('a \<times> SCP)" where
  "onSlot i f scp =
     (case getSlot i True scp of
        (None, scp1) \<Rightarrow> Inl NullDeref
      | (Some s, scp1) \<Rightarrow>
          bindE (f (slotContext scp1 i) s) (\<lambda>(x, s').
          Inr (x, scp1\<lparr>mKnownSlots := map_put i s' (mKnownSlots scp1)\<rparr>)))"

definition receiveEnvelope :: "nat \<Rightarrow> SCPEnvelope \<Rightarrow> SCP \<Rightarrow> scp_error + (EnvelopeState \<times> SCP)" where
  "receiveEnvelope n env scp =
     onSlot (slotIndex (envStatement env)) (\<lambda>ctx. slotProcess n ctx env False) scp"

definition scpNominate :: "nat \<Rightarrow> uint64 \<Rightarrow> Value \<Rightarrow> Value \<Rightarrow> SCP \<Rightarrow> scp_error + (bool \<times> SCP)" where
  "scpNominate n i value previousValue scp =
     bindE (dbgAssert (localIsValidator (mDriver scp))) (\<lambda>_.
     onSlot i (\<lambda>ctx. slotNominate n ctx value previousValue False) scp)"

definition scpStopNomination :: "uint64 \<Rightarrow> SCP \<Rightarrow> SCP" where
  "scpStopNomination i scp =
     (case map_of (mKnownSlots scp) i of
        None \<Rightarrow> scp
      | Some s \<Rightarrow> scp\<lparr>mKnownSlots := map_put i (stopNomination s) (mKnownSlots scp)\<rparr>)"

text \<open>\<open>LocalNode::updateQuorumSet\<close>; the hash of a quorum set is a parameter.\<close>

definition updateLocalQuorumSet :: "(SCPQuorumSet \<Rightarrow> Hash) \<Rightarrow> SCPQuorumSet \<Rightarrow> SCP \<Rightarrow> SCP" where
  "updateLocalQuorumSet hashOf q scp =
     scp\<lparr>mDriver := (mDriver scp)\<lparr>localQSetHash := hashOf q, localQSet := q\<rparr>\<rparr>"

text \<open>The loop of \<open>purgeSlots\<close> erases from the front while the index is below the bound.\<close>

definition purgeSlots :: "uint64 \<Rightarrow> SCP \<Rightarrow> SCP" where
  "purgeSlots maxSlotIndex scp =
     scp\<lparr>mKnownSlots := dropWhile (\<lambda>p. fst p < maxSlotIndex) (mKnownSlots scp)\<rparr>"

definition scpSetStateFromEnvelope :: "uint64 \<Rightarrow> SCPEnvelope \<Rightarrow> SCP \<Rightarrow> scp_error + SCP" where
  "scpSetStateFromEnvelope i e scp =
     bindE (onSlot i (\<lambda>ctx s. bindE (slotSetStateFromEnvelope ctx e s) (\<lambda>s'. Inr ((), s'))) scp) (\<lambda>(_, scp'). Inr scp')"

subsection \<open>Reports\<close>

definition NUM_SLOTS_TO_CHECK_FOR_REPORTING :: nat where
  "NUM_SLOTS_TO_CHECK_FOR_REPORTING = 2"

text \<open>The loop of \<open>getState\<close> from the \<open>k\<close>-th slot back, with \<open>m\<close> rounds left.\<close>

primrec getStateFrom :: "nat \<Rightarrow> nat \<Rightarrow> NodeID \<Rightarrow> uint64 \<Rightarrow> SCP \<Rightarrow> QuorumInfoNodeState" where
  "getStateFrom 0 k n i scp = MISSING"
| "getStateFrom (Suc m) k n i scp =
     (if i \<le> of_nat k then MISSING
      else case map_of (mKnownSlots scp) (i - of_nat k) of
        None \<Rightarrow> getStateFrom m (Suc k) n i scp
      | Some s \<Rightarrow>
          let st = slotGetState (slotContext scp (i - of_nat k)) n (k > 0) s
          in if st \<noteq> NO_INFO then st else getStateFrom m (Suc k) n i scp)"

definition scpGetState :: "NodeID \<Rightarrow> uint64 \<Rightarrow> SCP \<Rightarrow> QuorumInfoNodeState" where
  "scpGetState n i scp = getStateFrom NUM_SLOTS_TO_CHECK_FOR_REPORTING 0 n i scp"

text \<open>The counts of \<open>getJsonQuorumInfo\<close> with \<open>summary\<close>: disagree, missing, delayed, agree.\<close>

definition quorumInfoVisit ::
  "uint64 \<Rightarrow> SCP \<Rightarrow> NodeID \<Rightarrow> nat \<times> nat \<times> nat \<times> nat \<Rightarrow> bool \<times> nat \<times> nat \<times> nat \<times> nat" where
  "quorumInfoVisit index scp n counts =
     (case counts of (dis, mis, del, agr) \<Rightarrow>
        (case scpGetState n index scp of
           DISAGREE \<Rightarrow> (True, dis + 1, mis, del, agr)
         | DELAYED \<Rightarrow> (True, dis, mis, del + 1, agr)
         | MISSING \<Rightarrow> (True, dis, mis + 1, del, agr)
         | AGREE \<Rightarrow> (True, dis, mis, del, agr + 1)
         | NO_INFO \<Rightarrow> (False, dis, mis, del, agr)))"

definition quorumInfoSummary :: "uint64 \<Rightarrow> SCP \<Rightarrow> nat \<times> nat \<times> nat \<times> nat" where
  "quorumInfoSummary index scp =
     snd (forAllNodes (localQSet (mDriver scp)) (quorumInfoVisit index scp) (0, 0, 0, 0))"

definition isSlotFullyValidated :: "uint64 \<Rightarrow> SCP \<Rightarrow> bool" where
  "isSlotFullyValidated i scp = (case map_of (mKnownSlots scp) i of None \<Rightarrow> False | Some s \<Rightarrow> mFullyValidated s)"

definition scpGotVBlocking :: "uint64 \<Rightarrow> SCP \<Rightarrow> bool" where
  "scpGotVBlocking i scp = (case map_of (mKnownSlots scp) i of None \<Rightarrow> False | Some s \<Rightarrow> mGotVBlocking s)"

definition getKnownSlotsCount :: "SCP \<Rightarrow> nat" where
  "getKnownSlotsCount scp = length (mKnownSlots scp)"

definition getCumulativeStatemtCount :: "SCP \<Rightarrow> nat" where
  "getCumulativeStatemtCount scp = foldl (\<lambda>c p. c + length (mStatementsHistory (snd p))) 0 (mKnownSlots scp)"

definition scpLatestMessagesSend :: "uint64 \<Rightarrow> SCP \<Rightarrow> SCPEnvelope list" where
  "scpLatestMessagesSend i scp =
     (case map_of (mKnownSlots scp) i of None \<Rightarrow> [] | Some s \<Rightarrow> slotLatestMessagesSend s)"

definition scpProcessCurrentState ::
  "uint64 \<Rightarrow> (SCPEnvelope \<Rightarrow> 's \<Rightarrow> bool \<times> 's) \<Rightarrow> bool \<Rightarrow> SCP \<Rightarrow> 's \<Rightarrow> 's" where
  "scpProcessCurrentState i f forceSelf scp x =
     (case map_of (mKnownSlots scp) i of
        None \<Rightarrow> x
      | Some s \<Rightarrow> slotProcessCurrentState (slotContext scp i) f forceSelf s x)"

primrec visitSlots :: "(uint64 \<Rightarrow> 's \<Rightarrow> bool \<times> 's) \<Rightarrow> (uint64 \<times> Slot) list \<Rightarrow> 's \<Rightarrow> 's" where
  "visitSlots f [] x = x"
| "visitSlots f (p # ps) x = (case f (fst p) x of (continue, x') \<Rightarrow> if continue then visitSlots f ps x' else x')"

definition processSlotsAscendingFrom :: "uint64 \<Rightarrow> (uint64 \<Rightarrow> 's \<Rightarrow> bool \<times> 's) \<Rightarrow> SCP \<Rightarrow> 's \<Rightarrow> 's" where
  "processSlotsAscendingFrom startingSlot f scp x =
     visitSlots f (dropWhile (\<lambda>p. fst p < startingSlot) (mKnownSlots scp)) x"

definition processSlotsDescendingFrom :: "uint64 \<Rightarrow> (uint64 \<Rightarrow> 's \<Rightarrow> bool \<times> 's) \<Rightarrow> SCP \<Rightarrow> 's \<Rightarrow> 's" where
  "processSlotsDescendingFrom startingSlot f scp x =
     visitSlots f (rev (takeWhile (\<lambda>p. fst p \<le> startingSlot) (mKnownSlots scp))) x"

primrec firstMessage :: "NodeID \<Rightarrow> (uint64 \<times> Slot) list \<Rightarrow> SCPEnvelope option" where
  "firstMessage n [] = None"
| "firstMessage n (p # ps) = (case getLatestMessage n (snd p) of None \<Rightarrow> firstMessage n ps | Some e \<Rightarrow> Some e)"

definition scpGetLatestMessage :: "NodeID \<Rightarrow> SCP \<Rightarrow> SCPEnvelope option" where
  "scpGetLatestMessage n scp = firstMessage n (rev (mKnownSlots scp))"

definition scpIsNewerNominationOrBallotSt :: "SCPStatement \<Rightarrow> SCPStatement \<Rightarrow> SCP \<Rightarrow> bool" where
  "scpIsNewerNominationOrBallotSt oldSt newSt scp =
     (if slotIndex oldSt \<noteq> slotIndex newSt \<or> nodeID oldSt \<noteq> nodeID newSt then False
      else case map_of (mKnownSlots scp) (slotIndex oldSt) of
        None \<Rightarrow> False
      | Some _ \<Rightarrow> isNewerNominationOrBallotSt oldSt newSt)"

definition scpGetExternalizingState :: "uint64 \<Rightarrow> SCP \<Rightarrow> scp_error + SCPEnvelope list" where
  "scpGetExternalizingState i scp =
     (case map_of (mKnownSlots scp) i of None \<Rightarrow> Inr [] | Some s \<Rightarrow> getExternalizingState (slotContext scp i) s)"

definition scpEmpty :: "SCP \<Rightarrow> bool" where
  "scpEmpty scp \<longleftrightarrow> mKnownSlots scp = []"

end
