(* ===== verification/NominationLeaders.thy ===== *)
theory NominationLeaders
  imports NominationSteps
begin

text \<open>
  The leaders of a nomination round: \<open>updateRoundLeaders\<close> adds the nodes of the highest priority, and
  skips the rounds that would add none.
\<close>

subsection \<open>One round\<close>

definition topPriority :: "(NodeID \<Rightarrow> uint64) \<Rightarrow> NodeID set \<Rightarrow> uint64" where
  "topPriority prio N = Max (prio ` N)"

text \<open>The nodes of the highest priority; priority 0 only counts for the local node.\<close>

definition topNodes :: "(NodeID \<Rightarrow> uint64) \<Rightarrow> NodeID \<Rightarrow> NodeID set \<Rightarrow> NodeID set" where
  "topNodes prio self N = {n \<in> N. prio n = topPriority prio N \<and> (n = self \<or> prio n > 0)}"

lemma topPriority_insert:
  "finite N \<Longrightarrow> N \<noteq> {} \<Longrightarrow> topPriority prio (insert n N) = max (prio n) (topPriority prio N)"
  by (simp add: topPriority_def)

lemma topPriority_ge: "finite N \<Longrightarrow> n \<in> N \<Longrightarrow> prio n \<le> topPriority prio N"
  by (simp add: topPriority_def)

lemma topNodes_insert:
  assumes fin: "finite N" and self: "self \<in> N"
  shows "topNodes prio self (insert n N) =
    (if prio n > topPriority prio N then {n}
     else if prio n = topPriority prio N \<and> prio n > 0 then insert n (topNodes prio self N)
     else topNodes prio self N)"
proof -
  have ne: "N \<noteq> {}" using self by auto
  note top = topPriority_insert [OF fin ne, of prio n]
  have le: "prio m \<le> topPriority prio N" if "m \<in> N" for m using topPriority_ge [OF fin that] .
  consider "prio n > topPriority prio N" | "prio n = topPriority prio N" | "prio n < topPriority prio N"
    by (meson linorder_less_linear)
  then show ?thesis
  proof cases
    case 1
    then have "topPriority prio (insert n N) = prio n" using top by (auto simp: max_def)
    moreover have "prio m \<noteq> prio n" if "m \<in> N" for m using le [OF that] 1 by auto
    moreover have "prio n > 0" using 1 by (metis le_less_trans word_zero_le)
    ultimately show ?thesis using 1 by (auto simp: topNodes_def)
  next
    case 2
    then have "topPriority prio (insert n N) = topPriority prio N" using top by simp
    then show ?thesis using 2 self by (auto simp: topNodes_def)
  next
    case 3
    then have "topPriority prio (insert n N) = topPriority prio N" using top by simp
    then show ?thesis using 3 by (auto simp: topNodes_def)
  qed
qed

lemma leaderVisit_top:
  assumes prio: "getNodePriority ctx n q s = Inr (prio n)" and fin: "finite N" and self: "self \<in> N"
    and L: "set L = topNodes prio self N" "sorted_wrt (<) L"
  shows "\<exists>L'. leaderVisit ctx q s n (topPriority prio N, L) = Inr (topPriority prio (insert n N), L') \<and>
    set L' = topNodes prio self (insert n N) \<and> sorted_wrt (<) L'"
proof -
  have ne: "N \<noteq> {}" using self by auto
  have "prio n > topPriority prio N \<Longrightarrow> prio n > 0" by (metis le_less_trans word_zero_le)
  then show ?thesis
    using prio L topPriority_insert [OF fin ne, of prio n] topNodes_insert [OF fin self, of prio n]
    by (auto simp: leaderVisit_def max_def not_le)
qed

lemma newRoundLeaders_fold:
  assumes "\<forall>n \<in> set ns. getNodePriority ctx n q s = Inr (prio n)" "finite N" "self \<in> N"
    "set L = topNodes prio self N" "sorted_wrt (<) L"
  shows "\<exists>L'. fold (\<lambda>n acc. bindE acc (leaderVisit ctx q s n)) ns (Inr (topPriority prio N, L)) =
      Inr (topPriority prio (N \<union> set ns), L') \<and>
    set L' = topNodes prio self (N \<union> set ns) \<and> sorted_wrt (<) L'"
  using assms
proof (induction ns arbitrary: N L)
  case (Cons n ns)
  obtain L1 where "leaderVisit ctx q s n (topPriority prio N, L) = Inr (topPriority prio (insert n N), L1)"
    "set L1 = topNodes prio self (insert n N)" "sorted_wrt (<) L1"
    using leaderVisit_top [of ctx n q s prio N self L] Cons.prems by auto
  then show ?case using Cons.IH [of "insert n N" L1] Cons.prems by simp
qed simp

lemma newRoundLeaders_top:
  assumes prio: "\<forall>n \<in> insert (localNodeID ctx) (set (allNodes q)). getNodePriority ctx n q s = Inr (prio n)"
  shows "\<exists>L. newRoundLeaders ctx q s = Inr L \<and> sorted_wrt (<) L \<and>
    set L = topNodes prio (localNodeID ctx) (insert (localNodeID ctx) (set (allNodes q)))"
proof -
  let ?self = "localNodeID ctx"
  have start: "topPriority prio {?self} = prio ?self" "set [?self] = topNodes prio ?self {?self}"
    by (auto simp: topPriority_def topNodes_def)
  obtain L where L: "fold (\<lambda>n acc. bindE acc (leaderVisit ctx q s n)) (allNodes q) (Inr (prio ?self, [?self])) =
      Inr (topPriority prio (insert ?self (set (allNodes q))), L)"
    "set L = topNodes prio ?self (insert ?self (set (allNodes q)))" "sorted_wrt (<) L"
    using newRoundLeaders_fold [of "allNodes q" ctx q s prio "{?self}" ?self "[?self]"] prio start by auto
  have "forAllNodes q (\<lambda>cur acc. (True, bindE acc (leaderVisit ctx q s cur))) (Inr (prio ?self, [?self])) =
      (True, fold (\<lambda>n acc. bindE acc (leaderVisit ctx q s n)) (allNodes q) (Inr (prio ?self, [?self])))"
    by (subst forAllNodes_fold) simp_all
  then show ?thesis using prio L by (simp add: newRoundLeaders_def)
qed

subsection \<open>Skipping rounds\<close>

abbreviation atRound :: "Slot \<Rightarrow> nat \<Rightarrow> Slot" where
  "atRound s k \<equiv> s\<lparr>mRoundNumber := mRoundNumber s + int k\<rparr>"

lemma length_insert_all:
  assumes "sorted_wrt (<) xs"
  shows "length xs = length (foldl (\<lambda>acc n. set_insert n acc) xs ys) \<longleftrightarrow> set ys \<subseteq> set xs"
proof -
  have "length (foldl (\<lambda>acc n. set_insert n acc) xs ys) = card (set xs \<union> set ys)"
    using sorted_length_set [OF sorted_foldl_set_insert [OF assms]] by (simp add: set_foldl_set_insert)
  moreover have "card (set xs) = card (set xs \<union> set ys) \<longleftrightarrow> set ys \<subseteq> set xs"
    using card_subset_eq [of "set xs \<union> set ys" "set xs"] by (auto simp: sup_absorb1)
  ultimately show ?thesis using sorted_length_set [OF assms] by simp
qed

lemma insert_all_subset:
  assumes "sorted_wrt (<) xs" "set ys \<subseteq> set xs"
  shows "foldl (\<lambda>acc n. set_insert n acc) xs ys = xs"
  using assms
  by (intro strict_sorted_equal sorted_foldl_set_insert) (auto simp: set_foldl_set_insert)

lemma updateRoundLeadersRound_skip:
  assumes "sorted_wrt (<) (mRoundLeaders s)" "newRoundLeaders ctx q s = Inr L" "set L \<subseteq> set (mRoundLeaders s)"
  shows "updateRoundLeadersRound ctx q s = Inr (False, s\<lparr>mRoundNumber := mRoundNumber s + 1\<rparr>)"
  using assms by (simp add: updateRoundLeadersRound_def insert_all_subset)

lemma updateRoundLeadersRound_found:
  assumes "sorted_wrt (<) (mRoundLeaders s)" "newRoundLeaders ctx q s = Inr L" "\<not> set L \<subseteq> set (mRoundLeaders s)"
  shows "updateRoundLeadersRound ctx q s =
    Inr (True, s\<lparr>mRoundLeaders := foldl (\<lambda>acc n. set_insert n acc) (mRoundLeaders s) L\<rparr>)"
  using assms length_insert_all [of "mRoundLeaders s" L] by (simp add: updateRoundLeadersRound_def Let_def)

lemma while_option_next: "b s \<Longrightarrow> while_option b c s = while_option b c (c s)"
  by (subst while_option_unfold) simp

lemma while_option_done: "\<not> b s \<Longrightarrow> while_option b c s = Some s"
  by (subst while_option_unfold) simp

lemma updateRoundLeaders_first:
  assumes sorted: "sorted_wrt (<) (mRoundLeaders s)" and room: "length (mRoundLeaders s) < maxLeaderCount (leadersQSet ctx)"
    and skip: "\<forall>j < k. \<exists>L. newRoundLeaders ctx (leadersQSet ctx) (atRound s j) = Inr L \<and> set L \<subseteq> set (mRoundLeaders s)"
    and found: "newRoundLeaders ctx (leadersQSet ctx) (atRound s k) = Inr L" "\<not> set L \<subseteq> set (mRoundLeaders s)"
  shows "updateRoundLeaders ctx s =
    Inr ((atRound s k)\<lparr>mRoundLeaders := foldl (\<lambda>acc n. set_insert n acc) (mRoundLeaders s) L\<rparr>)"
proof -
  let ?b = "\<lambda>r :: scp_error + bool \<times> Slot. case r of
     Inl _ \<Rightarrow> False | Inr (f, s1) \<Rightarrow> \<not> f \<and> length (mRoundLeaders s1) < maxLeaderCount (leadersQSet ctx)"
  let ?c = "\<lambda>r. bindE r (\<lambda>(_ :: bool, s1). updateRoundLeadersRound ctx (leadersQSet ctx) s1)"
  let ?final = "(atRound s k)\<lparr>mRoundLeaders := foldl (\<lambda>acc n. set_insert n acc) (mRoundLeaders s) L\<rparr>"
  have "while_option ?b ?c (Inr (False, atRound s (k - d))) = Some (Inr (True, ?final))" if "d \<le> k" for d
    using that
  proof (induction d)
    case 0
    have "?c (Inr (False, atRound s k)) = Inr (True, ?final)"
      using updateRoundLeadersRound_found [of "atRound s k"] sorted found by simp
    moreover have "while_option ?b ?c (Inr (False, atRound s k)) = while_option ?b ?c (?c (Inr (False, atRound s k)))"
      using room by (intro while_option_next) simp
    moreover have "while_option ?b ?c (Inr (True, ?final)) = Some (Inr (True, ?final))"
      by (intro while_option_done) simp
    ultimately show ?case by (simp only: minus_nat.diff_0)
  next
    case (Suc d)
    have "k - Suc d < k" using Suc.prems by simp
    then obtain L' where "newRoundLeaders ctx (leadersQSet ctx) (atRound s (k - Suc d)) = Inr L'" "set L' \<subseteq> set (mRoundLeaders s)"
      using skip by blast
    moreover have "int (k - Suc d) + 1 = int (k - d)" using Suc.prems by auto
    ultimately have "?c (Inr (False, atRound s (k - Suc d))) = Inr (False, atRound s (k - d))"
      using updateRoundLeadersRound_skip [of "atRound s (k - Suc d)"] sorted by (simp add: algebra_simps)
    moreover have "while_option ?b ?c (Inr (False, atRound s (k - Suc d))) =
        while_option ?b ?c (?c (Inr (False, atRound s (k - Suc d))))"
      using room by (intro while_option_next) simp
    ultimately show ?case using Suc by (simp only: Suc_leD)
  qed
  from this [of k] show ?thesis by (simp add: updateRoundLeaders_def Let_def)
qed

end
