(* ===== verification/BallotRestore.thy ===== *)
theory BallotRestore
  imports BallotVoting
begin

text \<open>
  \<open>BallotProtocol::setStateFromEnvelope\<close> undoes \<open>createStatement\<close>: what a restart from the last
  statement of the local node restores.
\<close>

definition ballotFields :: "Slot \<Rightarrow> SCPPhase \<times> SCPBallot option \<times> SCPBallot option \<times> SCPBallot option \<times> SCPBallot option \<times> SCPBallot option" where
  "ballotFields s = (mPhase s, mCurrentBallot s, mPrepared s, mPreparedPrime s, mHighBallot s, mCommit s)"

lemma bumpToBallot_fresh:
  "mCurrentBallot s = None \<Longrightarrow> mHighBallot s = None \<Longrightarrow> mPhase s \<noteq> SCP_PHASE_EXTERNALIZE \<Longrightarrow>
   bumpToBallot b True s = Inr ((notify (StartedBallotProtocol b) s)\<lparr>mCurrentBallot := Some b, mHeardFromQuorum := False\<rparr>)"
  by (simp add: bumpToBallot_def notify_def)

lemma restore_prepare:
  assumes "pledges (envStatement e) = SCP_ST_PREPARE p"
  shows "\<exists>s'. ballotSetStateFromEnvelope e (newSlot ctx) = Inr s' \<and>
    ballotFields s' = (SCP_PHASE_PREPARE, Some (prepBallot p), prepared p, preparedPrime p,
      (if nH p = 0 then None else Some (SCPBallot (nH p) (ballotValue (prepBallot p)))),
      (if nC p = 0 then None else Some (SCPBallot (nC p) (ballotValue (prepBallot p)))))"
  using assms
  by (cases "prepared p"; cases "preparedPrime p")
    (simp_all add: ballotSetStateFromEnvelope_def newSlot_def recordEnvelope_def recordStatement_def
      bumpToBallot_fresh notify_def ballotFields_def Let_def)

lemma restore_confirm:
  assumes "pledges (envStatement e) = SCP_ST_CONFIRM c"
  shows "\<exists>s'. ballotSetStateFromEnvelope e (newSlot ctx) = Inr s' \<and>
    ballotFields s' = (SCP_PHASE_CONFIRM, Some (confBallot c), Some (SCPBallot (confNPrepared c) (ballotValue (confBallot c))), None,
      Some (SCPBallot (confNH c) (ballotValue (confBallot c))), Some (SCPBallot (confNCommit c) (ballotValue (confBallot c))))"
  using assms
  by (simp add: ballotSetStateFromEnvelope_def newSlot_def recordEnvelope_def recordStatement_def
      bumpToBallot_fresh notify_def ballotFields_def Let_def)

lemma restore_externalize:
  assumes "pledges (envStatement e) = SCP_ST_EXTERNALIZE x"
  shows "\<exists>s'. ballotSetStateFromEnvelope e (newSlot ctx) = Inr s' \<and>
    ballotFields s' = (SCP_PHASE_EXTERNALIZE, Some (SCPBallot UINT32_MAX (ballotValue (extCommit x))),
      Some (SCPBallot UINT32_MAX (ballotValue (extCommit x))), None,
      Some (SCPBallot (extNH x) (ballotValue (extCommit x))), Some (extCommit x))"
  using assms
  by (simp add: ballotSetStateFromEnvelope_def newSlot_def recordEnvelope_def recordStatement_def
      bumpToBallot_fresh notify_def ballotFields_def Let_def)

lemma ballot_inv_values:
  assumes "ballot_inv s" "mCurrentBallot s = Some b"
  shows "mHighBallot s = Some h \<Longrightarrow> ballotValue h = ballotValue b"
    "mCommit s = Some c \<Longrightarrow> ballotValue c = ballotValue b"
  using assms by (auto simp: ballot_inv_def areBallotsLessAndCompatible_def areBallotsCompatible_def)

lemma createEnvelope_pledges: "pledges (envStatement (createEnvelope ctx st)) = pledges st"
  by (simp add: createEnvelope_def Let_def)

lemma ballot_restore_prepare:
  assumes inv: "ballot_inv s" and b: "mCurrentBallot s = Some b" and ph: "mPhase s = SCP_PHASE_PREPARE"
    and h: "\<forall>h. mHighBallot s = Some h \<longrightarrow> counter h \<noteq> 0" and c: "\<forall>c. mCommit s = Some c \<longrightarrow> counter c \<noteq> 0"
    and st: "createStatement ctx TYPE_PREPARE s = Inr st"
  shows "\<exists>s'. ballotSetStateFromEnvelope (createEnvelope ctx st) (newSlot ctx) = Inr s' \<and> ballotFields s' = ballotFields s"
proof -
  obtain p where p: "pledges st = SCP_ST_PREPARE p" "prepBallot p = b" "prepared p = mPrepared s"
    "preparedPrime p = mPreparedPrime s" "nC p = (case mCommit s of None \<Rightarrow> 0 | Some c \<Rightarrow> counter c)"
    "nH p = (case mHighBallot s of None \<Rightarrow> 0 | Some h \<Rightarrow> counter h)"
    using st b by (auto simp: createStatement_def)
  have "(if nH p = 0 then None else Some (SCPBallot (nH p) (ballotValue b))) = mHighBallot s"
    using p(6) h ballot_inv_values(1) [OF inv b] by (cases "mHighBallot s") (auto intro: SCPBallot.expand)
  moreover have "(if nC p = 0 then None else Some (SCPBallot (nC p) (ballotValue b))) = mCommit s"
    using p(5) c ballot_inv_values(2) [OF inv b] by (cases "mCommit s") (auto intro: SCPBallot.expand)
  moreover obtain s' where "ballotSetStateFromEnvelope (createEnvelope ctx st) (newSlot ctx) = Inr s'"
    "ballotFields s' = (SCP_PHASE_PREPARE, Some b, mPrepared s, mPreparedPrime s,
      (if nH p = 0 then None else Some (SCPBallot (nH p) (ballotValue b))),
      (if nC p = 0 then None else Some (SCPBallot (nC p) (ballotValue b))))"
    using restore_prepare [of "createEnvelope ctx st" p ctx] p(1-4) by (auto simp: createEnvelope_pledges)
  ultimately show ?thesis using ph b by (simp add: ballotFields_def)
qed

lemma createStatement_fields:
  assumes "ballotFields s = ballotFields s'"
  shows "createStatement ctx t s = createStatement ctx t s'"
proof -
  have eq: "mPhase s = mPhase s'" "mCurrentBallot s = mCurrentBallot s'" "mPrepared s = mPrepared s'"
    "mPreparedPrime s = mPreparedPrime s'" "mHighBallot s = mHighBallot s'" "mCommit s = mCommit s'"
    using assms by (simp_all add: ballotFields_def)
  show ?thesis unfolding createStatement_def checkInvariants_def eq by (rule refl)
qed

lemma ballotFields_inv: "ballotFields s = ballotFields s' \<Longrightarrow> ballot_inv s = ballot_inv s'"
  by (simp add: ballotFields_def ballot_inv_def)

lemma ballot_restore_confirm:
  assumes inv: "ballot_inv s" and ph: "mPhase s = SCP_PHASE_CONFIRM"
    and st: "createStatement ctx TYPE_CONFIRM s = Inr st"
  shows "\<exists>s'. ballotSetStateFromEnvelope (createEnvelope ctx st) (newSlot ctx) = Inr s' \<and> ballot_inv s' \<and>
    mPhase s' = SCP_PHASE_CONFIRM \<and> mCurrentBallot s' = mCurrentBallot s \<and> mHighBallot s' = mHighBallot s \<and>
    mCommit s' = mCommit s \<and> createStatement ctx TYPE_CONFIRM s' = Inr st"
proof -
  obtain b p c h where f: "mCurrentBallot s = Some b" "mPrepared s = Some p" "mCommit s = Some c" "mHighBallot s = Some h"
    using inv ph by (auto simp: ballot_inv_def)
  let ?conf = "\<lparr>confBallot = b, confNPrepared = counter p, confNCommit = counter c, confNH = counter h,
    confQuorumSetHash = localQSetHash ctx\<rparr>"
  have st': "st = \<lparr>nodeID = 0, slotIndex = 0, pledges = SCP_ST_CONFIRM ?conf\<rparr>"
    using st f by (auto simp: createStatement_def deref_def)
  note v = ballot_inv_values [OF inv f(1)]
  have eq: "SCPBallot (counter h) (ballotValue b) = h" "SCPBallot (counter c) (ballotValue b) = c"
    using v f by (auto intro: SCPBallot.expand)
  obtain s' where s': "ballotSetStateFromEnvelope (createEnvelope ctx st) (newSlot ctx) = Inr s'"
    and F: "ballotFields s' = (SCP_PHASE_CONFIRM, Some b, Some (SCPBallot (counter p) (ballotValue b)), None, Some h, Some c)"
    using restore_confirm [of "createEnvelope ctx st" ?conf ctx] eq st' by (auto simp: createEnvelope_pledges)
  have inv': "ballot_inv s'" using F inv f ph by (simp add: ballotFields_def ballot_inv_def)
  then have "createStatement ctx TYPE_CONFIRM s' = Inr st"
    using F st' by (simp add: createStatement_def ballotFields_def deref_def checkInvariants_iff [symmetric])
  then show ?thesis using s' F inv' f by (simp add: ballotFields_def)
qed

lemma ballot_restore_externalize:
  assumes inv: "ballot_inv s" and ph: "mPhase s = SCP_PHASE_EXTERNALIZE"
    and st: "createStatement ctx TYPE_EXTERNALIZE s = Inr st"
  shows "\<exists>s'. ballotSetStateFromEnvelope (createEnvelope ctx st) (newSlot ctx) = Inr s' \<and> ballot_inv s' \<and>
    mPhase s' = SCP_PHASE_EXTERNALIZE \<and> mHighBallot s' = mHighBallot s \<and>
    mCommit s' = mCommit s \<and> createStatement ctx TYPE_EXTERNALIZE s' = Inr st"
proof -
  obtain b c h where f: "mCurrentBallot s = Some b" "mCommit s = Some c" "mHighBallot s = Some h"
    using inv ph by (auto simp: ballot_inv_def)
  let ?ext = "\<lparr>extCommit = c, extNH = counter h, extCommitQuorumSetHash = localQSetHash ctx\<rparr>"
  have st': "st = \<lparr>nodeID = 0, slotIndex = 0, pledges = SCP_ST_EXTERNALIZE ?ext\<rparr>"
    using st f by (auto simp: createStatement_def deref_def)
  have ch: "areBallotsLessAndCompatible c h" using inv f by (simp add: ballot_inv_def)
  then have eq: "SCPBallot (counter h) (ballotValue c) = h"
    by (auto simp: areBallotsLessAndCompatible_def areBallotsCompatible_def intro: SCPBallot.expand)
  obtain s' where s': "ballotSetStateFromEnvelope (createEnvelope ctx st) (newSlot ctx) = Inr s'"
    and F: "ballotFields s' = (SCP_PHASE_EXTERNALIZE, Some (SCPBallot UINT32_MAX (ballotValue c)),
      Some (SCPBallot UINT32_MAX (ballotValue c)), None, Some h, Some c)"
    using restore_externalize [of "createEnvelope ctx st" ?ext ctx] eq st' by (auto simp: createEnvelope_pledges)
  have "areBallotsLessAndCompatible h (SCPBallot UINT32_MAX (ballotValue c))"
    using ch le_UINT32_MAX [of "counter h"]
    by (auto simp: areBallotsLessAndCompatible_def areBallotsCompatible_def compareBallots_def)
  then have inv': "ballot_inv s'" using F ch by (simp add: ballotFields_def ballot_inv_def)
  then have "createStatement ctx TYPE_EXTERNALIZE s' = Inr st"
    using F st' by (simp add: createStatement_def ballotFields_def deref_def checkInvariants_iff [symmetric])
  then show ?thesis using s' F inv' f by (simp add: ballotFields_def)
qed

lemma ballot_restore:
  assumes inv: "ballot_inv s" and b: "mCurrentBallot s \<noteq> None"
    and h: "\<forall>h. mHighBallot s = Some h \<longrightarrow> counter h \<noteq> 0" and c: "\<forall>c. mCommit s = Some c \<longrightarrow> counter c \<noteq> 0"
    and st: "createStatement ctx (phaseType (mPhase s)) s = Inr st"
  shows "\<exists>s'. ballotSetStateFromEnvelope (createEnvelope ctx st) (newSlot ctx) = Inr s' \<and> ballot_inv s' \<and>
    mPhase s' = mPhase s \<and> mHighBallot s' = mHighBallot s \<and> mCommit s' = mCommit s \<and>
    (mPhase s \<noteq> SCP_PHASE_EXTERNALIZE \<longrightarrow> mCurrentBallot s' = mCurrentBallot s) \<and>
    (mPhase s = SCP_PHASE_PREPARE \<longrightarrow> mPrepared s' = mPrepared s \<and> mPreparedPrime s' = mPreparedPrime s) \<and>
    createStatement ctx (phaseType (mPhase s)) s' = Inr st"
proof (cases "mPhase s")
  case SCP_PHASE_PREPARE
  obtain b where b': "mCurrentBallot s = Some b" using b by blast
  have st': "createStatement ctx TYPE_PREPARE s = Inr st" using st SCP_PHASE_PREPARE by (simp add: phaseType_def)
  obtain s' where s': "ballotSetStateFromEnvelope (createEnvelope ctx st) (newSlot ctx) = Inr s'"
    and F: "ballotFields s' = ballotFields s"
    using ballot_restore_prepare [OF inv b' SCP_PHASE_PREPARE h c st'] by blast
  have "ballot_inv s'" "createStatement ctx (phaseType (mPhase s)) s' = Inr st"
    using ballotFields_inv [OF F] createStatement_fields [OF F] inv st by simp_all
  then show ?thesis using s' F by (intro exI [of _ s']) (simp add: ballotFields_def)
next
  case SCP_PHASE_CONFIRM
  then show ?thesis using ballot_restore_confirm [OF inv, of ctx st] st by (auto simp: phaseType_def)
next
  case SCP_PHASE_EXTERNALIZE
  then show ?thesis using ballot_restore_externalize [OF inv, of ctx st] st by (auto simp: phaseType_def)
qed

end
