(* ===== verification/NominationProperties.thy ===== *)
theory NominationProperties
  imports NominationTermination NominationLeaders BallotProperties
begin

text \<open>
  Properties of the nomination protocol: the order of its statements, which values a statement makes
  the node accept and confirm, the leaders of a round, the end of nested calls, and the numbers that
  the driver derives for it (leader hashes and timeouts).
\<close>

unbundle bit_operations_syntax

subsection \<open>Statements\<close>

text \<open>
  of two sane nominations of a node, one replaces the other exactly when both its sets of values
  contain those of the other and one of them is larger.
\<close>

lemma nomination_order:
  assumes "isSane a" "isSane b"
  shows "nomIsNewerStatement a b \<longleftrightarrow>
    set (votes a) \<subseteq> set (votes b) \<and> set (accepted a) \<subseteq> set (accepted b) \<and>
    (set (votes a) \<noteq> set (votes b) \<or> set (accepted a) \<noteq> set (accepted b))"
  using nomIsNewerStatement_iff [OF assms] by (auto simp: nomLe_def)

definition exampleNomination :: "Value list \<Rightarrow> Value list \<Rightarrow> SCPNomination" where
  "exampleNomination vs as = \<lparr>nomQuorumSetHash = 7, votes = vs, accepted = as\<rparr>"

lemma nomination_order_witness:
  "isSane (exampleNomination [[1]] []) \<and> isSane (exampleNomination [[1], [2]] [[1]]) \<and>
   nomIsNewerStatement (exampleNomination [[1]] []) (exampleNomination [[1], [2]] [[1]])"
proof -
  have sane: "isSane (exampleNomination [[1]] [])" "isSane (exampleNomination [[1], [2]] [[1]])" by code_simp+
  show ?thesis using nomination_order [OF sane] sane by (simp add: exampleNomination_def)
qed

subsection \<open>Accepting and confirming values\<close>

text \<open>
  C12: processing the votes of a nomination makes the node accept exactly those of them that federated
  voting accepts and the node can validate, on top of what it had accepted; it votes for them and for
  the valid variations of those it cannot validate; and it reports a change exactly when one of the
  two sets has grown. Of the accepted values, exactly those that a quorum accepted become candidates.
\<close>

theorem nomination_promotes:
  assumes "acceptVotes ctx vs False s = (modified, s1)"
    and "ratifyAccepted ctx (mAccepted s1) False s1 = (newCandidates, s2)"
  shows "set (mAccepted s2) = set (mAccepted s) \<union> acceptable ctx (mLatestNominations s) vs \<and>
    set (mVotes s2) = set (mVotes s) \<union> (acceptable ctx (mLatestNominations s) vs - set (mAccepted s)) \<union>
      variations ctx (mLatestNominations s) (set (mAccepted s)) vs \<and>
    (modified \<longleftrightarrow> set (mAccepted s2) \<noteq> set (mAccepted s) \<or> set (mVotes s2) \<noteq> set (mVotes s)) \<and>
    set (mCandidates s2) = set (mCandidates s) \<union>
      {a \<in> set (mAccepted s2). \<exists>S \<subseteq> supporters (mLatestNominations s) (acceptPredicate a). quorum_for ctx (mLatestNominations s) S} \<and>
    (newCandidates \<longleftrightarrow> set (mCandidates s2) \<noteq> set (mCandidates s))"
proof -
  note A = acceptVotes_effect [OF assms(1)] and R = ratifyAccepted_effect [OF assms(2)]
  have f1: "mLatestNominations s1 = mLatestNominations s" "mCandidates s1 = mCandidates s"
    using acceptVotes_fields [OF assms(1), where V = "[]" and A = "[]", THEN arg_cong [of _ _ mLatestNominations]]
      acceptVotes_fields [OF assms(1), where V = "[]" and A = "[]", THEN arg_cong [of _ _ mCandidates]] by simp_all
  have f2: "mAccepted s2 = mAccepted s1" "mVotes s2 = mVotes s1"
    using ratifyAccepted_fields [OF assms(2), where C = "[]", THEN arg_cong [of _ _ mAccepted]]
      ratifyAccepted_fields [OF assms(2), where C = "[]", THEN arg_cong [of _ _ mVotes]] by simp_all
  show ?thesis using A R unfolding f1 f2 federatedRatify_iff by blast
qed

definition exampleNominating :: Slot where
  "exampleNominating = (newSlot exampleContext)\<lparr>mNominationStarted := True,
     mLatestNominations :=
       [(2, exampleEnvelope 2 (SCP_ST_NOMINATE (exampleNomination [[1]] [[1]]))),
        (3, exampleEnvelope 3 (SCP_ST_NOMINATE (exampleNomination [[1]] [[1]])))]\<rparr>"

theorem nomination_promotes_witness:
  "\<exists>m s1 nc s2. acceptVotes exampleContext [[1]] False exampleNominating = (m, s1) \<and>
     ratifyAccepted exampleContext (mAccepted s1) False s1 = (nc, s2) \<and>
     mAccepted s2 = [[1]] \<and> set (mAccepted s2) =
       set (mAccepted exampleNominating) \<union> acceptable exampleContext (mLatestNominations exampleNominating) [[1]]"
proof -
  have "case acceptVotes exampleContext [[1]] False exampleNominating of (m, s1) \<Rightarrow>
      (case ratifyAccepted exampleContext (mAccepted s1) False s1 of (nc, s2) \<Rightarrow> mAccepted s2 = [[1]])"
    by code_simp
  then obtain m s1 nc s2 where "acceptVotes exampleContext [[1]] False exampleNominating = (m, s1)"
    "ratifyAccepted exampleContext (mAccepted s1) False s1 = (nc, s2)" "mAccepted s2 = [[1]]"
    by (auto split: prod.splits)
  then show ?thesis using nomination_promotes by blast
qed

subsection \<open>Leaders\<close>

text \<open>
  C30: the leaders of a round are the nodes with the highest priority among the local node and the
  nodes of its normalized quorum set; a node of priority 0 is one only if it is the local node.
\<close>

theorem round_leaders_correct:
  assumes "\<forall>n \<in> insert (localNodeID ctx) (set (allNodes q)). getNodePriority ctx n q s = Inr (prio n)"
  shows "\<exists>L. newRoundLeaders ctx q s = Inr L \<and> sorted_wrt (<) L \<and>
    set L = {n \<in> insert (localNodeID ctx) (set (allNodes q)).
      prio n = Max (prio ` insert (localNodeID ctx) (set (allNodes q))) \<and> (n = localNodeID ctx \<or> prio n > 0)}"
  using newRoundLeaders_top [OF assms] by (simp add: topNodes_def topPriority_def)

definition exampleRound :: Slot where
  "exampleRound = (newSlot exampleContext)\<lparr>mPreviousValue := [4], mRoundNumber := 1\<rparr>"

theorem round_leaders_correct_witness:
  "\<exists>L. newRoundLeaders exampleContext (SCPQuorumSet 2 [2, 3, 4] []) exampleRound = Inr L \<and> set L = {1}"
proof -
  have prio: "\<forall>n \<in> insert (localNodeID exampleContext) (set (allNodes (SCPQuorumSet 2 [2, 3, 4] []))).
      getNodePriority exampleContext n (SCPQuorumSet 2 [2, 3, 4] []) exampleRound = Inr ((\<lambda>_. 0) n)"
    by code_simp
  have self: "localNodeID exampleContext = 1" by (simp add: exampleContext_def)
  show ?thesis using round_leaders_correct [OF prio] unfolding self by auto
qed



subsection \<open>Nested calls end\<close>

text \<open>
  C8: processing an envelope always returns, or throws one of the code's own errors: given that the
  driver's \<open>extractValidValue\<close> returns valid values only, four nested calls for each vote of the node
  and of the statement, and six more, are always enough, and no loop runs forever. The code itself
  does not limit the depth.
\<close>

theorem processing_terminates:
  assumes "extracts_valid ctx" "slot_inv s" "nom_inv s" "mCurrentMessageLevel s = 0" "envelopeFuel env s \<le> n"
  shows "slotProcess n ctx env self s \<noteq> Inl OutOfFuel \<and> slotProcess n ctx env self s \<noteq> Inl Diverges"
  using slotProcess_proper [OF assms, of self] by (auto simp: proper_error_def)

theorem processing_terminates_witness:
  "slotProcess 20 exampleContext (exampleEnvelope 4 (SCP_ST_NOMINATE (exampleNomination [[1]] []))) False
     exampleNominating \<noteq> Inl OutOfFuel"
proof -
  have "extracts_valid exampleContext"
    by (simp add: extracts_valid_def nomExtractValidValue_def exampleContext_def)
  moreover have "slot_inv exampleNominating"
    by (simp add: exampleNominating_def newSlot_def slot_inv_def ballot_inv_def envelopes_ok_def emit_inv_def emittedBallots_def)
  moreover have "nom_inv exampleNominating"
    by (simp add: exampleNominating_def newSlot_def nom_inv_def nominations_ok_def map_ok_def exampleEnvelope_def
        exampleNomination_def isSane_def)
  moreover have "mCurrentMessageLevel exampleNominating = 0"
    "envelopeFuel (exampleEnvelope 4 (SCP_ST_NOMINATE (exampleNomination [[1]] []))) exampleNominating \<le> 20"
    by code_simp+
  ultimately show ?thesis using processing_terminates by blast
qed

subsection \<open>Hashes and timeouts\<close>

lemma append_byte: "push_bit 8 (ucast (drop_bit 8 x)) OR ucast (take_bit 8 x) = (ucast x :: uint64)" for x :: Hash
  by (rule bit_word_eqI) (auto simp: bit_simps not_le)

lemma hash_prefix:
  "k \<le> 8 \<Longrightarrow> foldl (\<lambda>res i. push_bit 8 res OR hashByte t i) 0 [0..<k] = ucast (drop_bit (8 * (32 - k)) t)"
proof (induction k)
  case 0
  have "drop_bit 256 t = 0" by (rule bit_word_eqI) (simp add: bit_simps)
  then show ?case by simp
next
  case (Suc k)
  have "drop_bit (8 * (32 - k)) t = drop_bit 8 (drop_bit (8 * (31 - k)) t)"
    using Suc.prems by (simp add: algebra_simps)
  then show ?case using Suc append_byte [of "drop_bit (8 * (31 - k)) t"] by (simp add: hashByte_def)
qed

text \<open>
  The number that leader election compares is the first 64 bits of the hash, whatever is hashed,
  and a round's timeout is its number in seconds, at most half an hour.
\<close>

lemma hash_and_timeout:
  "hashHelper ctx slot prev extra =
     ucast (drop_bit 192 (getHashOf ctx (map (xdr_to_opaque ctx) ([HashSlot slot, HashValue prev] @ extra)))) \<and>
   computeTimeout r = min (unat r) 1800"
proof
  show "hashHelper ctx slot prev extra =
     ucast (drop_bit 192 (getHashOf ctx (map (xdr_to_opaque ctx) ([HashSlot slot, HashValue prev] @ extra))))"
    using hash_prefix [of 8] by (simp add: hashHelper_def Let_def)
  have "unat MAX_TIMEOUT_SECONDS = 1800" by (simp add: MAX_TIMEOUT_SECONDS_def)
  then show "computeTimeout r = min (unat r) 1800" by (auto simp: computeTimeout_def word_less_nat_alt)
qed

end
