(* ===== verification/SCPProperties.thy ===== *)
theory SCPProperties
  imports SCP NominationProperties
begin

text \<open>
  Properties of whole slots along every history of calls, and of the table of slots.
\<close>

subsection \<open>A network of one node\<close>

definition soloContext :: SCPContext where
  "soloContext = \<lparr>
     localNodeID = 1, localIsValidator = True, localQSet = SCPQuorumSet 1 [1] [], localQSetHash = 7, slotIdx = 5,
     signEnvelope = (\<lambda>_. []), getQSet = (\<lambda>h. if h = 7 then Some (SCPQuorumSet 1 [1] []) else None),
     validateValue = (\<lambda>_ _ _. kFullyValidatedValue), extractValidValue = (\<lambda>_ _. None),
     combineCandidates = (\<lambda>_ c. case c of [] \<Rightarrow> None | v # _ \<Rightarrow> Some v), xdr_to_opaque = (\<lambda>_. []),
     getHashOf = (\<lambda>_. 0)\<rparr>"

definition soloRun :: "scp_error + (bool \<times> Slot)" where
  "soloRun = slotNominate 10 soloContext [9] [4] False (newSlot soloContext)"

definition soloSlot :: Slot where
  "soloSlot = (case soloRun of Inl _ \<Rightarrow> newSlot soloContext | Inr (_, s) \<Rightarrow> s)"

lemma soloRun_ok: "soloRun = Inr (True, soloSlot)"
proof -
  have "case soloRun of Inl _ \<Rightarrow> False | Inr (w, _) \<Rightarrow> w" by code_simp
  then obtain s where s: "soloRun = Inr (True, s)" by (auto split: sum.splits)
  show ?thesis unfolding soloSlot_def s by simp
qed

lemma soloSlot_call: "slot_call (newSlot soloContext) soloSlot"
  using soloRun_ok by (auto simp: soloRun_def intro: slot_call.nominate)

lemma soloSlot_history: "slot_history (newSlot soloContext) soloSlot"
  using slot_history.more [OF slot_history.start soloSlot_call] .

lemma soloSlot_phase: "mPhase soloSlot = SCP_PHASE_EXTERNALIZE"
  by code_simp

subsection \<open>Every history of a slot\<close>



text \<open>
  C6: the messages a slot stores are well formed: at most one per node, filed under the node that made
  it, only ballot statements in one map and only sane nominations in the other; the candidates are
  accepted values, and the accepted values are votes.
\<close>

theorem slot_messages_well_formed:
  assumes "slot_history (newSlot ctx) s"
  shows "envelopes_ok (mLatestEnvelopes s) \<and> nominations_ok (mLatestNominations s) \<and>
    set (mCandidates s) \<subseteq> set (mAccepted s) \<and> set (mAccepted s) \<subseteq> set (mVotes s)"
  using new_slot_step [OF assms] by (simp add: nom_step_def good_step_def slot_inv_def nom_inv_def)

theorem slot_messages_well_formed_witness:
  "envelopes_ok (mLatestEnvelopes soloSlot) \<and> set (mAccepted soloSlot) \<subseteq> set (mVotes soloSlot)"
  using slot_messages_well_formed [OF soloSlot_history] by blast

text \<open>
  C1: a node never changes its mind about a commit: once a slot has accepted to commit a value, every
  later state of it is in the same or a later phase and still commits that value.
\<close>

theorem commit_value_locked:
  assumes "slot_history (newSlot ctx) s" "slot_history s s'" "mPhase s \<noteq> SCP_PHASE_PREPARE"
  shows "mPhase s \<le> mPhase s' \<and> map_option ballotValue (mCommit s') = map_option ballotValue (mCommit s)"
proof -
  have "slot_inv s" "nom_inv s" using new_slot_step [OF assms(1)] nom_stepD by blast+
  then have "slot_adv s s'"
    using slot_history_step [OF assms(2)] by (simp add: nom_step_def good_step_def slot_step_def)
  then show ?thesis using slot_advD(2,5) assms(3) by blast
qed

theorem commit_value_locked_witness:
  "mPhase soloSlot \<le> mPhase (stopNomination soloSlot) \<and>
   map_option ballotValue (mCommit (stopNomination soloSlot)) = map_option ballotValue (mCommit soloSlot)"
  by (rule commit_value_locked [OF soloSlot_history slot_history.more [OF slot_history.start slot_call.stop]])
    (simp add: soloSlot_phase)



text \<open>
  C5: the ballot statements that a slot sends replace one another in the order of sending, so a
  receiver never has to drop a later one; and once a value could not be fully validated, the slot
  sends no ballot statement any more.
\<close>

theorem emitted_ballots_ascend:
  assumes "slot_history (newSlot ctx) s" "slot_history s s'"
  shows "sorted_wrt (\<lambda>a b. isNewerStatement (envStatement a) (envStatement b)) (emittedBallots s') \<and>
    (\<not> mFullyValidated s \<longrightarrow> emittedBallots s' = emittedBallots s)"
proof -
  have "slot_inv s" "nom_inv s" using new_slot_step [OF assms(1)] nom_stepD by blast+
  then have "slot_inv s'" "slot_adv s s'"
    using slot_history_step [OF assms(2)] by (simp_all add: nom_step_def good_step_def slot_step_def)
  then show ?thesis using slot_advD(9) by (auto simp: slot_inv_def emit_inv_def)
qed

theorem emitted_ballots_ascend_witness:
  "length (emittedBallots soloSlot) = 1 \<and>
   sorted_wrt (\<lambda>a b. isNewerStatement (envStatement a) (envStatement b)) (emittedBallots soloSlot)"
proof -
  have "length (emittedBallots soloSlot) = 1" by code_simp
  then show ?thesis using emitted_ballots_ascend [OF soloSlot_history slot_history.start] by blast
qed

text \<open>
  C7: a slot only moves forward: its phase, within a phase its ballot, its prepared ballot, its votes,
  accepted values and candidates, and the statements it keeps of every node.
\<close>

theorem slot_moves_forward:
  assumes "slot_history (newSlot ctx) s" "slot_history s s'"
  shows "mPhase s \<le> mPhase s' \<and> (mPhase s' = mPhase s \<longrightarrow> mCurrentBallot s \<le> mCurrentBallot s') \<and>
    mPrepared s \<le> mPrepared s' \<and> envelopes_adv (mLatestEnvelopes s) (mLatestEnvelopes s') \<and>
    set (mVotes s) \<subseteq> set (mVotes s') \<and> set (mAccepted s) \<subseteq> set (mAccepted s') \<and>
    set (mCandidates s) \<subseteq> set (mCandidates s')"
proof -
  have "slot_inv s" "nom_inv s" using new_slot_step [OF assms(1)] nom_stepD by blast+
  then have "slot_adv s s'" "nom_adv s s'"
    using slot_history_step [OF assms(2)] by (simp_all add: nom_step_def good_step_def slot_step_def)
  then show ?thesis using slot_advD(2,3,4,6) by (auto simp: nom_adv_def)
qed

theorem slot_moves_forward_witness: "mPhase (newSlot soloContext) \<le> mPhase soloSlot \<and> mPrepared (newSlot soloContext) \<le> mPrepared soloSlot"
  using slot_moves_forward [OF slot_history.start soloSlot_history] by blast

text \<open>
  An example: a node that is a quorum by itself externalizes the value it nominates within that call: the two
  protocols run to the end through their nested calls.
\<close>

lemma solo_node_externalizes:
  "case slotNominate 10 soloContext [9] [4] False (newSlot soloContext) of
     Inl _ \<Rightarrow> False
   | Inr (updated, s) \<Rightarrow> updated \<and> mPhase s = SCP_PHASE_EXTERNALIZE \<and> externalizeEvents s = [[9]] \<and>
       mCandidates s = [[9]] \<and> \<not> mNominationStarted s"
  by code_simp

subsection \<open>The table of slots\<close>

lemma onSlot_result:
  assumes "onSlot i f scp = Inr (x, scp')"
  shows "\<exists>s s'. (map_of (mKnownSlots scp) i = Some s \<or>
        map_of (mKnownSlots scp) i = None \<and> s = newSlot (slotContext scp i)) \<and>
      f (slotContext scp i) s = Inr (x, s') \<and> mDriver scp' = mDriver scp \<and>
      map_of (mKnownSlots scp') = (map_of (mKnownSlots scp))(i \<mapsto> s') \<and>
      (map_ok (mKnownSlots scp) \<longrightarrow> map_ok (mKnownSlots scp'))"
  using assms
  by (auto simp: onSlot_def getSlot_def slotContext_def Let_def split: option.splits)

text \<open>What can happen to a table: calls that create slots, calls of known slots, and changes of it.\<close>

inductive scp_call :: "SCP \<Rightarrow> SCP \<Rightarrow> bool" where
  receive: "receiveEnvelope n env scp = Inr (res, scp') \<Longrightarrow> scp_call scp scp'"
| nominate: "scpNominate n i v prev scp = Inr (w, scp') \<Longrightarrow> scp_call scp scp'"
| stop: "scp_call scp (scpStopNomination i scp)"
| slot: "map_of (mKnownSlots scp) i = Some s \<Longrightarrow> slot_call s s' \<Longrightarrow>
    scp_call scp (scp\<lparr>mKnownSlots := map_put i s' (mKnownSlots scp)\<rparr>)"
| quorum_set: "scp_call scp (updateLocalQuorumSet hashOf q scp)"
| purge: "scp_call scp (purgeSlots maxSlotIndex scp)"

inductive scp_history :: "SCP \<Rightarrow> SCP \<Rightarrow> bool" where
  start: "scp_history scp scp"
| more: "scp_history scp scp' \<Longrightarrow> scp_call scp' scp'' \<Longrightarrow> scp_history scp scp''"

text \<open>Every known slot is the result of a history of calls from a fresh slot with its index.\<close>

definition slots_ok :: "SCP \<Rightarrow> bool" where
  "slots_ok scp \<longleftrightarrow> map_ok (mKnownSlots scp) \<and>
     (\<forall>i s. map_of (mKnownSlots scp) i = Some s \<longrightarrow> (\<exists>ctx. slotIdx ctx = i \<and> slot_history (newSlot ctx) s))"

lemma slots_ok_put:
  assumes ok: "slots_ok scp"
    and s: "map_of (mKnownSlots scp) i = Some s \<or> map_of (mKnownSlots scp) i = None \<and> s = newSlot (slotContext scp i)"
    and call: "slot_call s s'"
    and scp': "map_of (mKnownSlots scp') = (map_of (mKnownSlots scp))(i \<mapsto> s')" "map_ok (mKnownSlots scp')"
  shows "slots_ok scp'"
proof -
  have "slotIdx (slotContext scp i) = i" by (simp add: slotContext_def)
  then have "\<exists>ctx. slotIdx ctx = i \<and> slot_history (newSlot ctx) s"
    using ok s slot_history.start unfolding slots_ok_def by blast
  then have "\<exists>ctx. slotIdx ctx = i \<and> slot_history (newSlot ctx) s'" using call slot_history.more by blast
  then show ?thesis using ok scp' by (simp add: slots_ok_def)
qed

lemma map_ok_dropWhile: "map_ok m \<Longrightarrow> map_ok (dropWhile P m)"
  by (induction m) (auto simp: map_ok_def)

lemma map_of_purge:
  "map_ok m \<Longrightarrow> map_of (dropWhile (\<lambda>p. fst p < k) m) i = (if i < k then None else map_of m i)"
proof (induction m)
  case (Cons p m)
  obtain j s where p: "p = (j, s)" by (rule prod.exhaust)
  show ?case
  proof (cases "j < k")
    case True
    then show ?thesis using Cons by (auto simp: p map_ok_Cons)
  next
    case False
    then have "i < k \<Longrightarrow> i \<notin> fst ` set ((j, s) # m)" using Cons.prems by (fastforce simp: p map_ok_Cons)
    then show ?thesis using False by (auto simp: p map_of_eq_None_iff)
  qed
qed simp

lemma slots_ok_call:
  assumes "scp_call scp scp'" "slots_ok scp"
  shows "slots_ok scp'"
  using assms(1)
proof cases
  case (receive n env res)
  then obtain s s' where "map_of (mKnownSlots scp) (slotIndex (envStatement env)) = Some s \<or>
      map_of (mKnownSlots scp) (slotIndex (envStatement env)) = None \<and> s = newSlot (slotContext scp (slotIndex (envStatement env)))"
    "slotProcess n (slotContext scp (slotIndex (envStatement env))) env False s = Inr (res, s')"
    "map_of (mKnownSlots scp') = (map_of (mKnownSlots scp))(slotIndex (envStatement env) \<mapsto> s')" "map_ok (mKnownSlots scp')"
    using onSlot_result [OF receive(1) [unfolded receiveEnvelope_def]] assms(2) by (auto simp: slots_ok_def)
  then show ?thesis using slots_ok_put [OF assms(2)] slot_call.receive by blast
next
  case (nominate n i v prev w)
  then have "onSlot i (\<lambda>ctx. slotNominate n ctx v prev False) scp = Inr (w, scp')"
    by (auto simp: scpNominate_def)
  from onSlot_result [OF this] assms(2) obtain s s' where
    "map_of (mKnownSlots scp) i = Some s \<or> map_of (mKnownSlots scp) i = None \<and> s = newSlot (slotContext scp i)"
    "slotNominate n (slotContext scp i) v prev False s = Inr (w, s')"
    "map_of (mKnownSlots scp') = (map_of (mKnownSlots scp))(i \<mapsto> s')" "map_ok (mKnownSlots scp')"
    by (auto simp: slots_ok_def)
  then show ?thesis using slots_ok_put [OF assms(2)] slot_call.nominate by blast
next
  case (stop i)
  show ?thesis
  proof (cases "map_of (mKnownSlots scp) i")
    case None
    then show ?thesis using stop assms(2) by (simp add: scpStopNomination_def)
  next
    case (Some s)
    then show ?thesis
      using stop assms(2) by (intro slots_ok_put [OF assms(2) _ slot_call.stop]) (auto simp: scpStopNomination_def slots_ok_def)
  qed
next
  case (slot i s s')
  then show ?thesis using assms(2) by (intro slots_ok_put [OF assms(2) _ slot(3)]) (auto simp: slots_ok_def)
next
  case quorum_set
  then show ?thesis using assms(2) by (simp add: updateLocalQuorumSet_def slots_ok_def)
next
  case purge
  then show ?thesis using assms(2) by (simp add: purgeSlots_def slots_ok_def map_ok_dropWhile map_of_purge)
qed

lemma slots_ok_history: "scp_history scp scp' \<Longrightarrow> slots_ok scp \<Longrightarrow> slots_ok scp'"
  by (induction rule: scp_history.induct) (auto intro: slots_ok_call)


definition soloSCP :: SCP where
  "soloSCP = \<lparr>mDriver = soloContext, mKnownSlots = []\<rparr>"

lemma soloSCP_nominate: "\<exists>scp'. scpNominate 10 5 [9] [4] soloSCP = Inr (True, scp') \<and> map fst (mKnownSlots scp') = [5]"
proof -
  have "case scpNominate 10 5 [9] [4] soloSCP of Inl _ \<Rightarrow> False | Inr (w, scp') \<Rightarrow> w \<and> map fst (mKnownSlots scp') = [5]"
    by code_simp
  then show ?thesis by (auto split: sum.splits)
qed


text \<open>
  receiving an envelope changes the slot of the envelope and no other one, and \<open>purgeSlots\<close>
  forgets exactly the slots below its bound.
\<close>

lemma slot_table_frame:
  assumes "map_ok (mKnownSlots scp)" "receiveEnvelope n env scp = Inr (res, scp')"
  shows "map_of (mKnownSlots (purgeSlots k scp')) i =
    (if i < k then None
     else if i \<noteq> slotIndex (envStatement env) then map_of (mKnownSlots scp) i
     else map_of (mKnownSlots scp') i)"
proof -
  obtain s' where "map_of (mKnownSlots scp') = (map_of (mKnownSlots scp))(slotIndex (envStatement env) \<mapsto> s')"
    "map_ok (mKnownSlots scp')"
    using onSlot_result [OF assms(2) [unfolded receiveEnvelope_def]] assms(1) by blast
  then show ?thesis by (simp add: purgeSlots_def map_of_purge)
qed

definition soloEnvelope :: SCPEnvelope where
  "soloEnvelope = \<lparr>envStatement = \<lparr>nodeID = 2, slotIndex = 6,
     pledges = SCP_ST_NOMINATE (exampleNomination [[1]] [])\<rparr>, envSignature = []\<rparr>"

lemma slot_table_frame_witness:
  "\<exists>scp' res. receiveEnvelope 10 soloEnvelope soloSCP = Inr (res, scp') \<and> map_of (mKnownSlots (purgeSlots 6 scp')) 5 = None"
proof -
  have "case receiveEnvelope 10 soloEnvelope soloSCP of Inl _ \<Rightarrow> False | Inr _ \<Rightarrow> True" by code_simp
  then obtain res scp' where r: "receiveEnvelope 10 soloEnvelope soloSCP = Inr (res, scp')" by (auto split: sum.splits)
  have "map_ok (mKnownSlots soloSCP)" by (simp add: soloSCP_def)
  from slot_table_frame [OF this r, of 6 5] show ?thesis using r by (intro exI [of _ scp'] exI [of _ res]) simp
qed

subsection \<open>Reports on the quorum\<close>

lemma getStateFrom_known: "getStateFrom m k n i scp \<noteq> NO_INFO"
  by (induction m arbitrary: k) (auto simp: Let_def split: option.splits)

text \<open>
  the state that is reported of a node is never \<open>NO_INFO\<close>, so that the summary of the quorum
  counts every node of the local quorum set, as often as it occurs in it.
\<close>

lemma quorum_summary_complete:
  "case quorumInfoSummary index scp of (disagree, missing, delayed, agree) \<Rightarrow>
     disagree + missing + delayed + agree = length (allNodes (localQSet (mDriver scp)))"
proof -
  let ?f = "quorumInfoVisit index scp"
  let ?total = "\<lambda>(dis, mis, del, agr). dis + mis + del + agr :: nat"
  have known: "scpGetState n index scp \<noteq> NO_INFO" for n by (simp add: scpGetState_def getStateFrom_known)
  have step: "fst (?f n c)" "?total (snd (?f n c)) = Suc (?total c)" for n c
    using known [of n] by (auto simp: quorumInfoVisit_def split: prod.splits QuorumInfoNodeState.splits)
  have fold: "?total (fold (\<lambda>n c. snd (?f n c)) ns c) = ?total c + length ns" for ns c
    by (induction ns arbitrary: c) (simp_all add: step(2))
  have "quorumInfoSummary index scp = fold (\<lambda>n c. snd (?f n c)) (allNodes (localQSet (mDriver scp))) (0, 0, 0, 0)"
    unfolding quorumInfoSummary_def by (subst forAllNodes_fold) (simp_all add: step(1))
  then show ?thesis using fold [of "allNodes (localQSet (mDriver scp))" "(0, 0, 0, 0)"] by (simp split: prod.splits)
qed

end
