(* ===== verification/LedgerEntries.thy ===== *)
theory LedgerEntries
  imports Prelude "HOL-Library.Product_Lexorder"
begin

text \<open>
  The entries of the ledger: the XDR types of \<open>Hcnet-ledger-entries.x\<close> with their keys, the function
  that gives the key of an entry (\<open>LedgerEntryKey\<close> in \<open>util/types.cpp\<close>), and the order of keys by which
  buckets are sorted (\<open>LedgerEntryIdCmp\<close> in \<open>bucket/LedgerCmp.h\<close>). Signed integers of the types are \<open>int\<close>,
  unsigned ones are words, byte strings are lists of bytes. The extension points that hold nothing
  are left out.
\<close>

subsection \<open>Assets\<close>

type_synonym AccountID = uint256
type_synonym PoolID = uint256
type_synonym opaque = "uint8 list"

datatype Asset =
    ASSET_TYPE_NATIVE
  | ASSET_TYPE_CREDIT_ALPHANUM4 opaque AccountID
  | ASSET_TYPE_CREDIT_ALPHANUM12 opaque AccountID

datatype TrustLineAsset = TrustLineAsset Asset | ASSET_TYPE_POOL_SHARE PoolID

record Price =
  priceN :: int
  priceD :: int

record Liabilities =
  liabBuying :: int
  liabSelling :: int

subsection \<open>Accounts, trust lines and offers\<close>

datatype SignerKey =
    SIGNER_KEY_TYPE_ED25519 uint256
  | SIGNER_KEY_TYPE_PRE_AUTH_TX uint256
  | SIGNER_KEY_TYPE_HASH_X uint256
  | SIGNER_KEY_TYPE_ED25519_SIGNED_PAYLOAD uint256 opaque

record Signer =
  signerKey :: SignerKey
  signerWeight :: uint32

type_synonym SponsorshipDescriptor = "AccountID option"

record AccountEntryExtensionV3 =
  seqLedger :: uint32
  seqTime :: uint64

record AccountEntryExtensionV2 =
  numSponsored :: uint32
  numSponsoring :: uint32
  signerSponsoringIDs :: "SponsorshipDescriptor list"
  accExtV3 :: "AccountEntryExtensionV3 option"

record AccountEntryExtensionV1 =
  accLiabilities :: Liabilities
  accExtV2 :: "AccountEntryExtensionV2 option"

record AccountEntry =
  accAccountID :: AccountID
  accBalance :: int
  accSeqNum :: int
  numSubEntries :: uint32
  inflationDest :: "AccountID option"
  accFlags :: uint32
  homeDomain :: opaque
  thresholds :: opaque
  signers :: "Signer list"
  accExtV1 :: "AccountEntryExtensionV1 option"

record TrustLineEntryExtensionV1 =
  tlLiabilities :: Liabilities
  liquidityPoolUseCount :: "int option"

record TrustLineEntry =
  tlAccountID :: AccountID
  tlAsset :: TrustLineAsset
  tlBalance :: int
  tlLimit :: int
  tlFlags :: uint32
  tlExtV1 :: "TrustLineEntryExtensionV1 option"

record OfferEntry =
  sellerID :: AccountID
  offerID :: int
  selling :: Asset
  buying :: Asset
  offerAmount :: int
  offerPrice :: Price
  offerFlags :: uint32

record DataEntry =
  dataAccountID :: AccountID
  dataName :: opaque
  dataValue :: opaque

subsection \<open>Claimable balances and liquidity pools\<close>

datatype ClaimPredicate =
    CLAIM_PREDICATE_UNCONDITIONAL
  | CLAIM_PREDICATE_AND "ClaimPredicate list"
  | CLAIM_PREDICATE_OR "ClaimPredicate list"
  | CLAIM_PREDICATE_NOT "ClaimPredicate option"
  | CLAIM_PREDICATE_BEFORE_ABSOLUTE_TIME int
  | CLAIM_PREDICATE_BEFORE_RELATIVE_TIME int

record Claimant =
  claimDestination :: AccountID
  claimPredicate :: ClaimPredicate

record ClaimableBalanceEntry =
  balanceID :: uint256
  claimants :: "Claimant list"
  cbAsset :: Asset
  cbAmount :: int
  cbFlags :: "uint32 option"

record LiquidityPoolConstantProductParameters =
  poolAssetA :: Asset
  poolAssetB :: Asset
  poolFee :: int

record LiquidityPoolEntry =
  liquidityPoolID :: PoolID
  poolParams :: LiquidityPoolConstantProductParameters
  reserveA :: int
  reserveB :: int
  totalPoolShares :: int
  poolSharesTrustLineCount :: int

subsection \<open>Entries and keys\<close>

datatype LedgerEntryData =
    AccountData AccountEntry
  | TrustLineData TrustLineEntry
  | OfferData OfferEntry
  | DataData DataEntry
  | ClaimableBalanceData ClaimableBalanceEntry
  | LiquidityPoolData LiquidityPoolEntry

record LedgerEntry =
  lastModifiedLedgerSeq :: uint32
  entryData :: LedgerEntryData
  entryExtV1 :: "SponsorshipDescriptor option"

datatype LedgerKey =
    ACCOUNT AccountID
  | TRUSTLINE AccountID TrustLineAsset
  | OFFER AccountID int
  | DATA AccountID opaque
  | CLAIMABLE_BALANCE uint256
  | LIQUIDITY_POOL PoolID

definition LedgerEntryKey :: "LedgerEntry \<Rightarrow> LedgerKey" where
  "LedgerEntryKey e =
     (case entryData e of
        AccountData a \<Rightarrow> ACCOUNT (accAccountID a)
      | TrustLineData t \<Rightarrow> TRUSTLINE (tlAccountID t) (tlAsset t)
      | OfferData f \<Rightarrow> OFFER (sellerID f) (offerID f)
      | DataData d \<Rightarrow> DATA (dataAccountID d) (dataName d)
      | ClaimableBalanceData c \<Rightarrow> CLAIMABLE_BALANCE (balanceID c)
      | LiquidityPoolData p \<Rightarrow> LIQUIDITY_POOL (liquidityPoolID p))"

subsection \<open>The order of keys\<close>

text \<open>The comparison of two values as the last of the arguments of \<open>lexCompare\<close>, or before others.\<close>

definition lexCompare :: "'a::linorder \<Rightarrow> 'a \<Rightarrow> bool \<Rightarrow> bool" where
  "lexCompare lhs rhs rest = (if lhs < rhs then True else if rhs < lhs then False else rest)"

text \<open>XDR unions compare by their type first, then by their content.\<close>

definition assetType :: "TrustLineAsset \<Rightarrow> nat" where
  "assetType a =
     (case a of
        TrustLineAsset ASSET_TYPE_NATIVE \<Rightarrow> 0
      | TrustLineAsset (ASSET_TYPE_CREDIT_ALPHANUM4 _ _) \<Rightarrow> 1
      | TrustLineAsset (ASSET_TYPE_CREDIT_ALPHANUM12 _ _) \<Rightarrow> 2
      | ASSET_TYPE_POOL_SHARE _ \<Rightarrow> 3)"

definition assetContent :: "TrustLineAsset \<Rightarrow> opaque \<times> uint256" where
  "assetContent a =
     (case a of
        TrustLineAsset ASSET_TYPE_NATIVE \<Rightarrow> ([], 0)
      | TrustLineAsset (ASSET_TYPE_CREDIT_ALPHANUM4 code issuer) \<Rightarrow> (code, issuer)
      | TrustLineAsset (ASSET_TYPE_CREDIT_ALPHANUM12 code issuer) \<Rightarrow> (code, issuer)
      | ASSET_TYPE_POOL_SHARE pool \<Rightarrow> ([], pool))"

definition assetLess :: "TrustLineAsset \<Rightarrow> TrustLineAsset \<Rightarrow> bool" where
  "assetLess a b =
     lexCompare (assetType a) (assetType b)
       (lexCompare (fst (assetContent a)) (fst (assetContent b)) (snd (assetContent a) < snd (assetContent b)))"

primrec keyType :: "LedgerKey \<Rightarrow> nat" where
  "keyType (ACCOUNT _) = 0"
| "keyType (TRUSTLINE _ _) = 1"
| "keyType (OFFER _ _) = 2"
| "keyType (DATA _ _) = 3"
| "keyType (CLAIMABLE_BALANCE _) = 4"
| "keyType (LIQUIDITY_POOL _) = 5"

definition LedgerEntryIdCmp :: "LedgerKey \<Rightarrow> LedgerKey \<Rightarrow> bool" where
  "LedgerEntryIdCmp a b =
     lexCompare (keyType a) (keyType b)
       (case (a, b) of
          (ACCOUNT x, ACCOUNT y) \<Rightarrow> x < y
        | (TRUSTLINE x s, TRUSTLINE y t) \<Rightarrow> lexCompare x y (assetLess s t)
        | (OFFER x i, OFFER y j) \<Rightarrow> lexCompare x y (i < j)
        | (DATA x s, DATA y t) \<Rightarrow> lexCompare x y (s < t)
        | (CLAIMABLE_BALANCE x, CLAIMABLE_BALANCE y) \<Rightarrow> x < y
        | (LIQUIDITY_POOL x, LIQUIDITY_POOL y) \<Rightarrow> x < y
        | _ \<Rightarrow> False)"

subsection \<open>The order is linear\<close>

type_synonym key_tuple = "nat \<times> uint256 \<times> (nat \<times> opaque \<times> uint256) \<times> int \<times> opaque"

definition assetTuple :: "TrustLineAsset \<Rightarrow> nat \<times> opaque \<times> uint256" where
  "assetTuple a = (assetType a, assetContent a)"

primrec keyTuple :: "LedgerKey \<Rightarrow> key_tuple" where
  "keyTuple (ACCOUNT x) = (0, x, (0, [], 0), 0, [])"
| "keyTuple (TRUSTLINE x s) = (1, x, assetTuple s, 0, [])"
| "keyTuple (OFFER x i) = (2, x, (0, [], 0), i, [])"
| "keyTuple (DATA x s) = (3, x, (0, [], 0), 0, s)"
| "keyTuple (CLAIMABLE_BALANCE x) = (4, x, (0, [], 0), 0, [])"
| "keyTuple (LIQUIDITY_POOL x) = (5, x, (0, [], 0), 0, [])"

lemma lexCompare_iff: "lexCompare x y r \<longleftrightarrow> x < y \<or> x = y \<and> r"
  by (auto simp: lexCompare_def)

lemma assetLess_tuple: "assetLess s t \<longleftrightarrow> assetTuple s < assetTuple t"
  by (auto simp: assetLess_def assetTuple_def lexCompare_iff less_prod_def' prod_eq_iff)

lemma inj_assetTuple: "assetTuple s = assetTuple t \<Longrightarrow> s = t"
  by (auto simp: assetTuple_def assetType_def assetContent_def
      split: TrustLineAsset.splits Asset.splits)

lemma LedgerEntryIdCmp_tuple: "LedgerEntryIdCmp a b \<longleftrightarrow> keyTuple a < keyTuple b"
  by (cases a; cases b) (auto simp: LedgerEntryIdCmp_def lexCompare_iff assetLess_tuple)

lemma inj_keyTuple: "keyTuple a = keyTuple b \<Longrightarrow> a = b"
  by (cases a; cases b) (auto dest: inj_assetTuple)

instantiation LedgerKey :: linorder
begin

definition less_LedgerKey :: "LedgerKey \<Rightarrow> LedgerKey \<Rightarrow> bool" where
  "less_LedgerKey a b \<longleftrightarrow> LedgerEntryIdCmp a b"

definition less_eq_LedgerKey :: "LedgerKey \<Rightarrow> LedgerKey \<Rightarrow> bool" where
  "less_eq_LedgerKey a b \<longleftrightarrow> LedgerEntryIdCmp a b \<or> a = b"

instance
proof
  fix a b c :: LedgerKey
  show "a < b \<longleftrightarrow> a \<le> b \<and> \<not> b \<le> a"
    by (auto simp: less_LedgerKey_def less_eq_LedgerKey_def LedgerEntryIdCmp_tuple)
  show "a \<le> a" by (simp add: less_eq_LedgerKey_def)
  show "a \<le> c" if "a \<le> b" "b \<le> c"
    using that by (auto simp: less_eq_LedgerKey_def LedgerEntryIdCmp_tuple intro: less_trans)
  show "a = b" if "a \<le> b" "b \<le> a"
    using that by (auto simp: less_eq_LedgerKey_def LedgerEntryIdCmp_tuple)
  show "a \<le> b \<or> b \<le> a"
    using inj_keyTuple [of a b]
    by (cases "keyTuple a" "keyTuple b" rule: linorder_cases)
      (auto simp: less_eq_LedgerKey_def LedgerEntryIdCmp_tuple)
qed

end

end
