(* ===== verification/OfferExchange.thy ===== *)
theory OfferExchange
  imports Numeric LedgerEntries
begin

text \<open>
  \<open>src/src/transactions/OfferExchange.cpp\<close>: how much two crossing offers exchange, and how much is
  exchanged with a liquidity pool. Amounts (\<open>int64_t\<close>) and prices (\<open>int32_t\<close>) are integers; all
  products are taken in the 128-bit words of \<open>Numeric\<close>, with the order and the rounding of the code.
\<close>

subsection \<open>Types\<close>

datatype RoundingType = NORMAL | PATH_PAYMENT_STRICT_SEND | PATH_PAYMENT_STRICT_RECEIVE

datatype ExchangeResultType = EXCHANGE_NORMAL | REDUCED_TO_ZERO | BOGUS

record ExchangeResult =
  numWheatReceived :: int
  numSheepSend :: int
  reduced :: bool

definition exchangeResultType :: "ExchangeResult \<Rightarrow> ExchangeResultType" where
  "exchangeResultType res =
     (if numWheatReceived res \<noteq> 0 \<and> numSheepSend res \<noteq> 0 then EXCHANGE_NORMAL
      else if reduced res then REDUCED_TO_ZERO else BOGUS)"

record ExchangeResultV10 =
  wheatReceivedV10 :: int
  sheepSendV10 :: int
  wheatStays :: bool

text \<open>The errors that the functions throw, by their message.\<close>

datatype exchange_error =
    NumericFailure numeric_error
  | WheatReceiveOutOfBounds | SheepSendOutOfBounds
  | FavoredSheepWhenWheatStays | FavoredWheatWhenSheepStays
  | ExceededPriceErrorBound | InvalidAmountOfSheepSent
  | PoolFeeOutOfRange | NonPositiveReserve | StrictSendBoundedReceive | StrictReceiveBoundedSend
  | ReceivedTooMuchFromPool | FromPoolNegative | ToPoolNegative | InvalidRoundingType

definition numE :: "numeric_error + 'a \<Rightarrow> exchange_error + 'a" where
  "numE r = (case r of Inl e \<Rightarrow> Inl (NumericFailure e) | Inr x \<Rightarrow> Inr x)"

subsection \<open>Exchanges before protocol version 10\<close>

definition exchangeV2 :: "int \<Rightarrow> Price \<Rightarrow> int \<Rightarrow> int \<Rightarrow> exchange_error + ExchangeResult" where
  "exchangeV2 wheatReceived price maxWheatReceive maxSheepSend =
     (let wheat = min wheatReceived maxWheatReceive
      in bindE (numE (bigDivide wheat (priceN price) (priceD price) ROUND_DOWN)) (\<lambda>(fits, q).
         let sheep = (if fits then q else INT64_MAX);
             sheepSend = min sheep maxSheepSend
         in bindE (numE (bigDivideOrThrow sheepSend (priceD price) (priceN price) ROUND_DOWN)) (\<lambda>w.
            Inr \<lparr>numWheatReceived = w, numSheepSend = sheepSend,
                 reduced = (wheatReceived > maxWheatReceive \<or> sheep > maxSheepSend)\<rparr>)))"

definition exchangeV3 :: "int \<Rightarrow> Price \<Rightarrow> int \<Rightarrow> int \<Rightarrow> exchange_error + ExchangeResult" where
  "exchangeV3 wheatReceived price maxWheatReceive maxSheepSend =
     (let wheat = min wheatReceived maxWheatReceive
      in bindE (numE (bigDivide wheat (priceN price) (priceD price) ROUND_UP)) (\<lambda>(fits, q).
         let sheep = (if fits then q else INT64_MAX);
             sheepSend = min sheep maxSheepSend
         in bindE (numE (bigDivide sheepSend (priceD price) (priceN price) ROUND_DOWN)) (\<lambda>(fits', q').
            let newWheat = (if fits' then q' else INT64_MAX)
            in Inr \<lparr>numWheatReceived = min wheat newWheat, numSheepSend = sheepSend,
                    reduced = (wheatReceived > maxWheatReceive \<or> \<not> fits \<or> sheep > maxSheepSend)\<rparr>)))"

subsection \<open>Exchanges from protocol version 10 on\<close>

definition checkPriceErrorBound :: "Price \<Rightarrow> int \<Rightarrow> int \<Rightarrow> bool \<Rightarrow> exchange_error + bool" where
  "checkPriceErrorBound price wheatReceive sheepSend canFavorWheat =
     (let errN = 100 * priceN price; errD = 100 * priceD price
      in bindE (numE (bigMultiply errN wheatReceive)) (\<lambda>lhs.
         bindE (numE (bigMultiply errD sheepSend)) (\<lambda>rhs.
         if canFavorWheat \<and> rhs > lhs then Inr True
         else
           let absDiff = (if lhs > rhs then lhs - rhs else rhs - lhs)
           in bindE (numE (bigMultiply (priceN price) wheatReceive)) (\<lambda>cap.
              Inr (absDiff \<le> cap)))))"

definition calculateOfferValue :: "int \<Rightarrow> int \<Rightarrow> int \<Rightarrow> int \<Rightarrow> exchange_error + uint128" where
  "calculateOfferValue pN pD maxSend maxReceive =
     bindE (numE (bigMultiply maxSend pN)) (\<lambda>sendValue.
     bindE (numE (bigMultiply maxReceive pD)) (\<lambda>receiveValue.
     Inr (min sendValue receiveValue)))"

text \<open>The amounts of wheat and sheep, before they are checked against the limits.\<close>

definition crossedAmounts ::
  "Price \<Rightarrow> int \<Rightarrow> int \<Rightarrow> uint128 \<Rightarrow> uint128 \<Rightarrow> RoundingType \<Rightarrow> exchange_error + int \<times> int" where
  "crossedAmounts price maxSheepSend maxSheepReceive wheatValue sheepValue round =
     (if wheatValue > sheepValue
      then
        if round = PATH_PAYMENT_STRICT_SEND
        then bindE (numE (bigDivideOrThrow128 sheepValue (priceN price) ROUND_DOWN)) (\<lambda>wheatReceive.
             Inr (wheatReceive, min maxSheepSend maxSheepReceive))
        else if priceN price > priceD price \<or> round = PATH_PAYMENT_STRICT_RECEIVE
        then bindE (numE (bigDivideOrThrow128 sheepValue (priceN price) ROUND_DOWN)) (\<lambda>wheatReceive.
             bindE (numE (bigDivideOrThrow wheatReceive (priceN price) (priceD price) ROUND_UP)) (\<lambda>sheepSend.
             Inr (wheatReceive, sheepSend)))
        else bindE (numE (bigDivideOrThrow128 sheepValue (priceD price) ROUND_DOWN)) (\<lambda>sheepSend.
             bindE (numE (bigDivideOrThrow sheepSend (priceD price) (priceN price) ROUND_DOWN)) (\<lambda>wheatReceive.
             Inr (wheatReceive, sheepSend)))
      else
        if priceN price > priceD price
        then bindE (numE (bigDivideOrThrow128 wheatValue (priceN price) ROUND_DOWN)) (\<lambda>wheatReceive.
             bindE (numE (bigDivideOrThrow wheatReceive (priceN price) (priceD price) ROUND_DOWN)) (\<lambda>sheepSend.
             Inr (wheatReceive, sheepSend)))
        else bindE (numE (bigDivideOrThrow128 wheatValue (priceD price) ROUND_DOWN)) (\<lambda>sheepSend.
             bindE (numE (bigDivideOrThrow sheepSend (priceD price) (priceN price) ROUND_UP)) (\<lambda>wheatReceive.
             Inr (wheatReceive, sheepSend))))"

definition exchangeV10WithoutPriceErrorThresholds ::
  "Price \<Rightarrow> int \<Rightarrow> int \<Rightarrow> int \<Rightarrow> int \<Rightarrow> RoundingType \<Rightarrow> exchange_error + ExchangeResultV10" where
  "exchangeV10WithoutPriceErrorThresholds price maxWheatSend maxWheatReceive maxSheepSend maxSheepReceive round =
     bindE (calculateOfferValue (priceN price) (priceD price) maxWheatSend maxSheepReceive) (\<lambda>wheatValue.
     bindE (calculateOfferValue (priceD price) (priceN price) maxSheepSend maxWheatReceive) (\<lambda>sheepValue.
     bindE (crossedAmounts price maxSheepSend maxSheepReceive wheatValue sheepValue round)
       (\<lambda>(wheatReceive, sheepSend).
     if wheatReceive < 0 \<or> wheatReceive > min maxWheatReceive maxWheatSend then Inl WheatReceiveOutOfBounds
     else if sheepSend < 0 \<or> sheepSend > min maxSheepReceive maxSheepSend then Inl SheepSendOutOfBounds
     else Inr \<lparr>wheatReceivedV10 = wheatReceive, sheepSendV10 = sheepSend,
               wheatStays = (wheatValue > sheepValue)\<rparr>)))"

definition applyPriceErrorThresholds ::
  "Price \<Rightarrow> int \<Rightarrow> int \<Rightarrow> bool \<Rightarrow> RoundingType \<Rightarrow> exchange_error + ExchangeResultV10" where
  "applyPriceErrorThresholds price wheatReceive sheepSend stays round =
     bindE
       (if wheatReceive > 0 \<and> sheepSend > 0
        then
          bindE (numE (bigMultiply wheatReceive (priceN price))) (\<lambda>wheatReceiveValue.
          bindE (numE (bigMultiply sheepSend (priceD price))) (\<lambda>sheepSendValue.
          if stays \<and> sheepSendValue < wheatReceiveValue then Inl FavoredSheepWhenWheatStays
          else if \<not> stays \<and> sheepSendValue > wheatReceiveValue then Inl FavoredWheatWhenSheepStays
          else if round = NORMAL
          then bindE (checkPriceErrorBound price wheatReceive sheepSend False) (\<lambda>ok.
               Inr (if ok then (wheatReceive, sheepSend) else (0, 0)))
          else bindE (checkPriceErrorBound price wheatReceive sheepSend True) (\<lambda>ok.
               if ok then Inr (wheatReceive, sheepSend) else Inl ExceededPriceErrorBound)))
        else
          if round = PATH_PAYMENT_STRICT_SEND
          then if sheepSend = 0 then Inl InvalidAmountOfSheepSent else Inr (wheatReceive, sheepSend)
          else Inr (0, 0))
       (\<lambda>(w, s). Inr \<lparr>wheatReceivedV10 = w, sheepSendV10 = s, wheatStays = stays\<rparr>)"

definition exchangeV10 ::
  "Price \<Rightarrow> int \<Rightarrow> int \<Rightarrow> int \<Rightarrow> int \<Rightarrow> RoundingType \<Rightarrow> exchange_error + ExchangeResultV10" where
  "exchangeV10 price maxWheatSend maxWheatReceive maxSheepSend maxSheepReceive round =
     bindE (exchangeV10WithoutPriceErrorThresholds price maxWheatSend maxWheatReceive maxSheepSend
              maxSheepReceive round) (\<lambda>before.
     applyPriceErrorThresholds price (wheatReceivedV10 before) (sheepSendV10 before) (wheatStays before) round)"

text \<open>What is left of an offer after the limits of its owner: what a buyer without limits would take.\<close>

definition adjustOffer :: "Price \<Rightarrow> int \<Rightarrow> int \<Rightarrow> exchange_error + int" where
  "adjustOffer price maxWheatSend maxSheepReceive =
     bindE (exchangeV10 price maxWheatSend INT64_MAX INT64_MAX maxSheepReceive NORMAL) (\<lambda>res.
     Inr (wheatReceivedV10 res))"

subsection \<open>Liquidity pools\<close>

text \<open>The result is whether the exchange is possible, and the amounts to and from the pool.\<close>

definition exchangeWithPool ::
  "int \<Rightarrow> int \<Rightarrow> int \<Rightarrow> int \<Rightarrow> int \<Rightarrow> RoundingType \<Rightarrow> exchange_error + (bool \<times> int \<times> int)" where
  "exchangeWithPool reservesToPool maxSendToPool reservesFromPool maxReceiveFromPool feeBps round =
     (if feeBps < 0 \<or> 10000 \<le> feeBps then Inl PoolFeeOutOfRange
      else if reservesToPool \<le> 0 \<or> reservesFromPool \<le> 0 then Inl NonPositiveReserve
      else case round of
        PATH_PAYMENT_STRICT_SEND \<Rightarrow>
          if maxReceiveFromPool \<noteq> INT64_MAX then Inl StrictSendBoundedReceive
          else if maxSendToPool > INT64_MAX - reservesToPool then Inr (False, 0, 0)
          else
            let toPool = maxSendToPool
            in bindE (numE (bigMultiply 10000 reservesToPool)) (\<lambda>d1.
               bindE (numE (bigMultiply (10000 - feeBps) toPool)) (\<lambda>d2.
               bindE (numE (bigMultiply reservesFromPool toPool)) (\<lambda>product.
               bindE (numE (hugeDivide (10000 - feeBps) product (d1 + d2) ROUND_DOWN)) (\<lambda>(res, fromPool).
               if res \<and> fromPool > reservesFromPool then Inl ReceivedTooMuchFromPool
               else if res \<and> fromPool < 0 then Inl FromPoolNegative
               else Inr (res \<and> fromPool \<noteq> 0, toPool, fromPool)))))
      | PATH_PAYMENT_STRICT_RECEIVE \<Rightarrow>
          if maxSendToPool \<noteq> INT64_MAX then Inl StrictReceiveBoundedSend
          else if maxReceiveFromPool \<ge> reservesFromPool then Inr (False, 0, 0)
          else
            let fromPool = maxReceiveFromPool
            in bindE (numE (bigMultiply reservesToPool fromPool)) (\<lambda>product.
               bindE (numE (bigMultiply (reservesFromPool - fromPool) (10000 - feeBps))) (\<lambda>denominator.
               bindE (numE (hugeDivide 10000 product denominator ROUND_UP)) (\<lambda>(res, toPool).
               if res \<and> toPool < 0 then Inl ToPoolNegative
               else Inr (res \<and> toPool \<le> INT64_MAX - reservesToPool, toPool, fromPool))))
      | NORMAL \<Rightarrow> Inl InvalidRoundingType)"

subsection \<open>Exact arithmetic\<close>

definition amount_ok :: "int \<Rightarrow> bool" where
  "amount_ok x \<longleftrightarrow> 0 \<le> x \<and> x \<le> INT64_MAX"

definition price_ok :: "Price \<Rightarrow> bool" where
  "price_ok p \<longleftrightarrow> 0 < priceN p \<and> priceN p \<le> INT32_MAX \<and> 0 < priceD p \<and> priceD p \<le> INT32_MAX"

text \<open>Division of integers with a rounding mode.\<close>

definition rdiv :: "Rounding \<Rightarrow> int \<Rightarrow> int \<Rightarrow> int" where
  "rdiv rounding a c = (if rounding = ROUND_DOWN then a div c else (a + c - 1) div c)"

lemma int_le_div_iff: "0 < (c :: int) \<Longrightarrow> x \<le> a div c \<longleftrightarrow> x * c \<le> a"
proof
  assume "0 < c" "x \<le> a div c"
  then have "x * c \<le> a div c * c" by simp
  then show "x * c \<le> a" using pos_mod_sign [OF \<open>0 < c\<close>, of a] by (simp add: minus_mod_eq_div_mult [symmetric])
next
  assume "0 < c" "x * c \<le> a"
  then show "x \<le> a div c" using zdiv_mono1 [of "x * c" a c] by simp
qed

lemma le_rdiv_down: "0 < c \<Longrightarrow> x \<le> rdiv ROUND_DOWN a c \<longleftrightarrow> x * c \<le> a"
  by (simp add: rdiv_def int_le_div_iff)

lemma rdiv_up_le: "0 < c \<Longrightarrow> rdiv ROUND_UP a c \<le> x \<longleftrightarrow> a \<le> x * c"
  using int_le_div_iff [of c "x + 1" "a + c - 1"] by (auto simp: rdiv_def algebra_simps)

lemma rdiv_down_times: "0 < c \<Longrightarrow> rdiv ROUND_DOWN v c * c \<le> v"
  using le_rdiv_down [of c "rdiv ROUND_DOWN v c" v] by simp

lemma rdiv_up_times: "0 < c \<Longrightarrow> v \<le> rdiv ROUND_UP v c * c"
  using rdiv_up_le [of c v "rdiv ROUND_UP v c"] by simp

lemma rdiv_nonneg: "0 < c \<Longrightarrow> 0 \<le> a \<Longrightarrow> 0 \<le> rdiv r a c"
  by (simp add: rdiv_def pos_imp_zdiv_nonneg_iff)

lemma rdiv_mult [simp]: "0 < c \<Longrightarrow> rdiv r (x * c) c = x"
  using div_mult_self3 [of c x "c - 1"] by (simp add: rdiv_def add_diff_eq [symmetric] div_pos_pos_trivial)

lemma rdiv_0 [simp]: "0 < c \<Longrightarrow> rdiv r 0 c = 0"
  by (simp add: rdiv_def div_pos_pos_trivial)

lemma int_round_div: "0 < d \<Longrightarrow> int (round_div r n d) = rdiv r (int n) (int d)"
  by (simp add: round_div_def rdiv_def zdiv_int of_nat_diff)

lemma amount_times:
  assumes "amount_ok a" "amount_ok b"
  shows "0 \<le> a * b" "a * b \<le> 85070591730234615847396907784232501249"
  using assms mult_mono [of a INT64_MAX b INT64_MAX] by (auto simp: amount_ok_def)

lemma price_amount: "price_ok p \<Longrightarrow> amount_ok (priceN p) \<and> amount_ok (priceD p)"
  by (auto simp: price_ok_def amount_ok_def)

definition u128 :: "int \<Rightarrow> uint128" where
  "u128 x = word_of_int x"

lemma uint_u128: "0 \<le> x \<Longrightarrow> x < 340282366920938463463374607431768211456 \<Longrightarrow> uint (u128 x) = x"
  by (simp add: u128_def uint_word_of_int take_bit_int_eq_self)

lemma u128_diff: "u128 x - u128 y = u128 (x - y)"
  by (simp add: u128_def)

lemma bigMultiply_int:
  assumes "amount_ok a" "amount_ok b"
  shows "bigMultiply a b = Inr (u128 (a * b))"
proof -
  have "uint (bigMultiplyUnsigned (word_of_int a) (word_of_int b)) = a * b"
    unfolding uint_nat unat_bigMultiplyUnsigned using assms by (simp add: amount_ok_def unat_word_of_int_64)
  then have "bigMultiplyUnsigned (word_of_int a) (word_of_int b) = word_of_int (a * b)"
    by (metis word_of_int_uint)
  then show ?thesis using assms by (simp add: bigMultiply_def amount_ok_def u128_def)
qed

lemma bigDivide_int:
  assumes "amount_ok a" "amount_ok b" "0 < c" "c \<le> INT64_MAX"
  shows "\<exists>q. bigDivide a b c r = Inr (rdiv r (a * b) c \<le> INT64_MAX, q) \<and>
    (rdiv r (a * b) c \<le> INT64_MAX \<longrightarrow> q = rdiv r (a * b) c)"
proof -
  have "int (round_div r (nat a * nat b) (nat c)) = rdiv r (a * b) c"
    using assms by (simp add: int_round_div amount_ok_def)
  then show ?thesis using bigDivide_exact [of a b c r] assms by (simp add: amount_ok_def)
qed

lemma bigDivideOrThrow_int:
  assumes "amount_ok a" "amount_ok b" "0 < c" "c \<le> INT64_MAX" "rdiv r (a * b) c \<le> INT64_MAX"
  shows "bigDivideOrThrow a b c r = Inr (rdiv r (a * b) c)"
  using bigDivide_int [OF assms(1-4), of r] assms(5) by (auto simp: bigDivideOrThrow_def)

lemma bigDivideOrThrow128_int:
  assumes "0 \<le> x" "x < 340282366920938463463374607431768211456" "0 < c" "c \<le> INT64_MAX" "rdiv r x c \<le> INT64_MAX"
  shows "bigDivideOrThrow128 (u128 x) c r = Inr (rdiv r x c)"
proof -
  have "int (round_div r (unat (u128 x)) (nat c)) = rdiv r x c"
    using assms uint_u128 [of x] by (simp add: int_round_div)
  then show ?thesis using bigDivideOrThrow128_exact [OF assms(3,4), of "u128 x" r] assms(5)
    by (simp add: Let_def)
qed

subsection \<open>The amounts of an exchange\<close>

text \<open>
  The exchange in unbounded integers. \<open>W\<close> and \<open>S\<close> are the amounts of wheat and sheep that can be
  sent, \<open>WR\<close> and \<open>SR\<close> those that can be received.
\<close>

definition wheatStaysIn :: "Price \<Rightarrow> int \<Rightarrow> int \<Rightarrow> int \<Rightarrow> int \<Rightarrow> bool" where
  "wheatStaysIn p W WR S SR \<longleftrightarrow>
     min (S * priceD p) (WR * priceN p) < min (W * priceN p) (SR * priceD p)"

definition crossing :: "Price \<Rightarrow> int \<Rightarrow> int \<Rightarrow> int \<Rightarrow> int \<Rightarrow> RoundingType \<Rightarrow> int \<times> int" where
  "crossing p W WR S SR round =
     (let n = priceN p; d = priceD p;
          wheatValue = min (W * n) (SR * d); sheepValue = min (S * d) (WR * n)
      in if wheatStaysIn p W WR S SR
         then if round = PATH_PAYMENT_STRICT_SEND then (rdiv ROUND_DOWN sheepValue n, min S SR)
              else if n > d \<or> round = PATH_PAYMENT_STRICT_RECEIVE
              then let w = rdiv ROUND_DOWN sheepValue n in (w, rdiv ROUND_UP (w * n) d)
              else let s = rdiv ROUND_DOWN sheepValue d in (rdiv ROUND_DOWN (s * d) n, s)
         else if n > d then let w = rdiv ROUND_DOWN wheatValue n in (w, rdiv ROUND_DOWN (w * n) d)
              else let s = rdiv ROUND_DOWN wheatValue d in (rdiv ROUND_UP (s * d) n, s))"

text \<open>The four ways in which an amount is rounded from a value, with the other amount from it.\<close>

lemma round_from:
  fixes n d :: int
  assumes "0 < n" "0 < d" "0 \<le> v"
  shows "0 \<le> rdiv ROUND_DOWN v n" "rdiv ROUND_DOWN v n * n \<le> v"
    and "v \<le> x * n \<Longrightarrow> rdiv ROUND_DOWN v n \<le> x"
    and "v \<le> y * d \<Longrightarrow> rdiv r (rdiv ROUND_DOWN v n * n) d \<le> y"
    and "0 \<le> rdiv r (rdiv ROUND_DOWN v n * n) d"
proof -
  have *: "rdiv ROUND_DOWN v n * n \<le> v" by (rule rdiv_down_times [OF assms(1)])
  then show "rdiv ROUND_DOWN v n * n \<le> v" .
  show nn: "0 \<le> rdiv ROUND_DOWN v n" using assms by (simp add: rdiv_nonneg)
  show "rdiv ROUND_DOWN v n \<le> x" if "v \<le> x * n"
    using * that mult_le_cancel_right_pos [of n "rdiv ROUND_DOWN v n" x] assms by linarith
  show "0 \<le> rdiv r (rdiv ROUND_DOWN v n * n) d" using nn assms by (intro rdiv_nonneg) auto
  show "rdiv r (rdiv ROUND_DOWN v n * n) d \<le> y" if "v \<le> y * d"
  proof (cases r)
    case ROUND_UP
    then show ?thesis using * that assms by (simp add: rdiv_up_le)
  next
    case ROUND_DOWN
    have "rdiv ROUND_DOWN (rdiv ROUND_DOWN v n * n) d * d \<le> rdiv ROUND_DOWN v n * n"
      by (rule rdiv_down_times [OF assms(2)])
    then show ?thesis unfolding ROUND_DOWN using * that assms(2)
        mult_le_cancel_right_pos [of d "rdiv ROUND_DOWN (rdiv ROUND_DOWN v n * n) d" y] by linarith
  qed
qed

lemma crossing_limits:
  assumes p: "price_ok p" and limits: "0 \<le> W" "0 \<le> WR" "0 \<le> S" "0 \<le> SR"
    and c: "crossing p W WR S SR round = (w, s)"
  shows "0 \<le> w \<and> w \<le> min WR W \<and> 0 \<le> s \<and> s \<le> min SR S \<and>
    (wheatStaysIn p W WR S SR \<longrightarrow> w * priceN p \<le> s * priceD p) \<and>
    (\<not> wheatStaysIn p W WR S SR \<longrightarrow> s * priceD p \<le> w * priceN p)"
proof -
  let ?n = "priceN p" and ?d = "priceD p"
  let ?wv = "min (W * ?n) (SR * ?d)" and ?sv = "min (S * ?d) (WR * ?n)"
  have nd: "0 < ?n" "0 < ?d" using p by (auto simp: price_ok_def)
  have v: "0 \<le> ?wv" "0 \<le> ?sv" using nd limits by auto
  note sn = round_from [OF nd v(2)] and sd = round_from [OF nd(2,1) v(2)]
  note wn = round_from [OF nd v(1)] and wd = round_from [OF nd(2,1) v(1)]
  show ?thesis
  proof (cases "wheatStaysIn p W WR S SR")
    case True
    then have le: "?sv \<le> W * ?n" "?sv \<le> SR * ?d" "?sv \<le> WR * ?n" "?sv \<le> S * ?d" by (auto simp: wheatStaysIn_def)
    consider (send) "round = PATH_PAYMENT_STRICT_SEND" | (wheat) "round \<noteq> PATH_PAYMENT_STRICT_SEND"
        "?n > ?d \<or> round = PATH_PAYMENT_STRICT_RECEIVE"
      | (sheep) "round \<noteq> PATH_PAYMENT_STRICT_SEND" "\<not> (?n > ?d \<or> round = PATH_PAYMENT_STRICT_RECEIVE)" by blast
    then show ?thesis
    proof cases
      case send
      then have eq: "w = rdiv ROUND_DOWN ?sv ?n" "s = min S SR" using c True by (simp_all add: crossing_def Let_def)
      have "w * ?n \<le> s * ?d" using sn(2) le eq by (auto simp: min_def)
      then show ?thesis using True limits eq sn(1) sn(3) [OF le(1)] sn(3) [OF le(3)] by simp
    next
      case wheat
      then have eq: "w = rdiv ROUND_DOWN ?sv ?n" "s = rdiv ROUND_UP (w * ?n) ?d"
        using c True by (auto simp: crossing_def Let_def)
      show ?thesis using True eq sn(1) sn(3) [OF le(1)] sn(3) [OF le(3)] sn(4) [OF le(2)] sn(4) [OF le(4)]
          sn(5) rdiv_up_times [OF nd(2)] by simp
    next
      case sheep
      then have eq: "s = rdiv ROUND_DOWN ?sv ?d" "w = rdiv ROUND_DOWN (s * ?d) ?n"
        using c True by (auto simp: crossing_def Let_def)
      show ?thesis using True eq sd(1) sd(3) [OF le(2)] sd(3) [OF le(4)] sd(4) [OF le(1)] sd(4) [OF le(3)]
          sd(5) rdiv_down_times [OF nd(1)] by simp
    qed
  next
    case False
    then have le: "?wv \<le> W * ?n" "?wv \<le> SR * ?d" "?wv \<le> WR * ?n" "?wv \<le> S * ?d" by (auto simp: wheatStaysIn_def)
    show ?thesis
    proof (cases "?n > ?d")
      case True
      then have eq: "w = rdiv ROUND_DOWN ?wv ?n" "s = rdiv ROUND_DOWN (w * ?n) ?d"
        using c False by (auto simp: crossing_def Let_def)
      show ?thesis using False eq wn(1) wn(3) [OF le(1)] wn(3) [OF le(3)] wn(4) [OF le(2)] wn(4) [OF le(4)]
          wn(5) rdiv_down_times [OF nd(2)] by simp
    next
      case sheep: False
      then have eq: "s = rdiv ROUND_DOWN ?wv ?d" "w = rdiv ROUND_UP (s * ?d) ?n"
        using c False by (auto simp: crossing_def Let_def)
      show ?thesis using False eq wd(1) wd(3) [OF le(2)] wd(3) [OF le(4)] wd(4) [OF le(1)] wd(4) [OF le(3)]
          wd(5) rdiv_up_times [OF nd(1)] by simp
    qed
  qed
qed

lemma word_less_int:
  assumes "0 \<le> x" "x \<le> 85070591730234615847396907784232501249" "0 \<le> y" "y \<le> 85070591730234615847396907784232501249"
  shows "u128 x < u128 y \<longleftrightarrow> x < y"
    and "u128 x \<le> u128 y \<longleftrightarrow> x \<le> y"
  using assms uint_u128 [of x] uint_u128 [of y] by (simp_all add: word_less_def word_le_def)

lemma calculateOfferValue_int:
  assumes "amount_ok a" "amount_ok b" "amount_ok m" "amount_ok k"
  shows "calculateOfferValue m k a b = Inr (u128 (min (a * m) (b * k)))"
  using assms amount_times [of a m] amount_times [of b k]
  by (simp add: calculateOfferValue_def numE_def bigMultiply_int min_def word_less_int)

lemma crossedAmounts_int:
  assumes p: "price_ok p" and ok: "amount_ok W" "amount_ok WR" "amount_ok S" "amount_ok SR"
  shows "crossedAmounts p S SR (u128 (min (W * priceN p) (SR * priceD p)))
      (u128 (min (S * priceD p) (WR * priceN p))) round = Inr (crossing p W WR S SR round)"
proof -
  let ?n = "priceN p" and ?d = "priceD p"
  let ?wv = "min (W * ?n) (SR * ?d)" and ?sv = "min (S * ?d) (WR * ?n)"
  have nd: "0 < ?n" "?n \<le> INT64_MAX" "0 < ?d" "?d \<le> INT64_MAX" "amount_ok ?n" "amount_ok ?d"
    using p by (auto simp: price_ok_def amount_ok_def)
  have v: "0 \<le> ?wv" "?wv \<le> 85070591730234615847396907784232501249" "0 \<le> ?sv" "?sv \<le> 85070591730234615847396907784232501249"
    using amount_times [of W ?n] amount_times [of SR ?d] amount_times [of S ?d] amount_times [of WR ?n] ok nd by auto
  have stays: "u128 ?sv < u128 ?wv \<longleftrightarrow> wheatStaysIn p W WR S SR"
    using v by (simp add: word_less_int wheatStaysIn_def)
  obtain w s where c: "crossing p W WR S SR round = (w, s)" by fastforce
  have lim: "0 \<le> w" "w \<le> INT64_MAX" "0 \<le> s" "s \<le> INT64_MAX"
    using crossing_limits [OF p _ _ _ _ c] ok by (auto simp: amount_ok_def)
  have div: "bigDivideOrThrow128 (u128 x) c r = Inr (rdiv r x c)"
    if "x = ?sv \<or> x = ?wv" "c = ?n \<or> c = ?d" "rdiv r x c \<le> INT64_MAX" for x c r
    using that v nd by (intro bigDivideOrThrow128_int) auto
  have div': "bigDivideOrThrow x n' d' r = Inr (rdiv r (x * n') d')"
    if "amount_ok x" "n' = ?n \<or> n' = ?d" "d' = ?n \<or> d' = ?d" "rdiv r (x * n') d' \<le> INT64_MAX" for x n' d' r
    using that nd by (intro bigDivideOrThrow_int) auto
  have ws: "amount_ok w" "amount_ok s" using lim by (simp_all add: amount_ok_def)
  show ?thesis
    unfolding crossedAmounts_def stays c
    using c lim ws by (auto simp: crossing_def Let_def numE_def div div' split: if_splits)
qed

lemma exchangeV10_amounts:
  assumes p: "price_ok p" and ok: "amount_ok W" "amount_ok WR" "amount_ok S" "amount_ok SR"
    and c: "crossing p W WR S SR round = (w, s)"
  shows "exchangeV10WithoutPriceErrorThresholds p W WR S SR round =
    Inr \<lparr>wheatReceivedV10 = w, sheepSendV10 = s, wheatStays = wheatStaysIn p W WR S SR\<rparr>"
proof -
  let ?n = "priceN p" and ?d = "priceD p"
  have nd: "amount_ok ?n" "amount_ok ?d" using p by (auto simp: price_amount)
  have "u128 (min (S * ?d) (WR * ?n)) < u128 (min (W * ?n) (SR * ?d))
      \<longleftrightarrow> wheatStaysIn p W WR S SR"
    using amount_times [of W ?n] amount_times [of SR ?d] amount_times [of S ?d] amount_times [of WR ?n] ok nd
    by (simp add: word_less_int wheatStaysIn_def min_def)
  moreover have "\<not> w < 0" "\<not> w > min WR W" "\<not> s < 0" "\<not> s > min SR S"
    using crossing_limits [OF p _ _ _ _ c] ok by (simp_all add: amount_ok_def not_less)
  ultimately show ?thesis
    using ok c crossedAmounts_int [OF p ok, of round]
    by (simp add: exchangeV10WithoutPriceErrorThresholds_def calculateOfferValue_int nd)
qed

subsection \<open>The price error\<close>

definition withinOnePercent :: "Price \<Rightarrow> int \<Rightarrow> int \<Rightarrow> bool" where
  "withinOnePercent p w s \<longleftrightarrow> \<bar>100 * priceN p * w - 100 * priceD p * s\<bar> \<le> priceN p * w"

lemma checkPriceErrorBound_int:
  assumes p: "price_ok p" and ok: "amount_ok w" "amount_ok s"
  shows "checkPriceErrorBound p w s favor =
    Inr (favor \<and> priceN p * w < priceD p * s \<or> withinOnePercent p w s)"
proof -
  let ?n = "priceN p" and ?d = "priceD p"
  have nd: "amount_ok (100 * ?n)" "amount_ok (100 * ?d)" "amount_ok ?n" "amount_ok ?d"
    using p by (auto simp: price_ok_def amount_ok_def)
  note b = amount_times [OF nd(1) ok(1)] amount_times [OF nd(2) ok(2)] amount_times [OF nd(3) ok(1)]
  let ?l = "100 * ?n * w" and ?r = "100 * ?d * s"
  have less: "u128 ?l < u128 ?r \<longleftrightarrow> ?l < ?r"
      "u128 ?r < u128 ?l \<longleftrightarrow> ?r < ?l"
    by (rule word_less_int [OF b(1,2) b(3,4)], rule word_less_int [OF b(3,4) b(1,2)])
  have "u128 (?l - ?r) \<le> u128 (?n * w) \<longleftrightarrow> ?l - ?r \<le> ?n * w" if "?r < ?l"
    using b that by (intro word_less_int) linarith+
  moreover have "u128 (?r - ?l) \<le> u128 (?n * w) \<longleftrightarrow> ?r - ?l \<le> ?n * w" if "\<not> ?r < ?l"
    using b that by (intro word_less_int) linarith+
  ultimately show ?thesis
    by (auto simp: checkPriceErrorBound_def Let_def numE_def bigMultiply_int nd ok less withinOnePercent_def
        simp: u128_diff)
qed

lemma applyPriceErrorThresholds_int:
  assumes p: "price_ok p" and ok: "amount_ok w" "amount_ok s"
    and favor: "stays \<Longrightarrow> w * priceN p \<le> s * priceD p" "\<not> stays \<Longrightarrow> s * priceD p \<le> w * priceN p"
  shows "applyPriceErrorThresholds p w s stays round =
    bindE
      (if w > 0 \<and> s > 0
       then if round = NORMAL then Inr (if withinOnePercent p w s then (w, s) else (0, 0))
            else if priceN p * w < priceD p * s \<or> withinOnePercent p w s then Inr (w, s)
            else Inl ExceededPriceErrorBound
       else if round = PATH_PAYMENT_STRICT_SEND
       then if s = 0 then Inl InvalidAmountOfSheepSent else Inr (w, s) else Inr (0, 0))
      (\<lambda>(w, s). Inr \<lparr>wheatReceivedV10 = w, sheepSendV10 = s, wheatStays = stays\<rparr>)"
proof -
  have nd: "amount_ok (priceN p)" "amount_ok (priceD p)" using p by (auto simp: price_amount)
  note b = amount_times [OF ok(1) nd(1)] amount_times [OF ok(2) nd(2)]
  have "u128 (s * priceD p) < u128 (w * priceN p) \<longleftrightarrow> s * priceD p < w * priceN p"
    "u128 (w * priceN p) < u128 (s * priceD p) \<longleftrightarrow> w * priceN p < s * priceD p"
    by (rule word_less_int [OF b(3,4) b(1,2)], rule word_less_int [OF b(1,2) b(3,4)])
  then show ?thesis using favor
    by (auto simp: applyPriceErrorThresholds_def numE_def bigMultiply_int ok nd checkPriceErrorBound_int [OF p ok])
qed

lemma exchangeV10_int:
  assumes p: "price_ok p" and ok: "amount_ok W" "amount_ok WR" "amount_ok S" "amount_ok SR"
    and c: "crossing p W WR S SR round = (w, s)"
  shows "exchangeV10 p W WR S SR round =
    bindE
      (if w > 0 \<and> s > 0
       then if round = NORMAL then Inr (if withinOnePercent p w s then (w, s) else (0, 0))
            else if priceN p * w < priceD p * s \<or> withinOnePercent p w s then Inr (w, s)
            else Inl ExceededPriceErrorBound
       else if round = PATH_PAYMENT_STRICT_SEND
       then if s = 0 then Inl InvalidAmountOfSheepSent else Inr (w, s) else Inr (0, 0))
      (\<lambda>(w, s). Inr \<lparr>wheatReceivedV10 = w, sheepSendV10 = s, wheatStays = wheatStaysIn p W WR S SR\<rparr>)"
proof -
  have lim: "0 \<le> w" "w \<le> min WR W" "0 \<le> s" "s \<le> min SR S"
      "wheatStaysIn p W WR S SR \<longrightarrow> w * priceN p \<le> s * priceD p"
      "\<not> wheatStaysIn p W WR S SR \<longrightarrow> s * priceD p \<le> w * priceN p"
    using crossing_limits [OF p _ _ _ _ c] ok by (auto simp: amount_ok_def)
  then have "amount_ok w" "amount_ok s" using ok by (auto simp: amount_ok_def)
  note thr = applyPriceErrorThresholds_int [OF p this, of "wheatStaysIn p W WR S SR" round]
  show ?thesis
    by (simp only: exchangeV10_def exchangeV10_amounts [OF p ok c] bindE.simps ExchangeResultV10.simps)
      (rule thr, use lim in auto)
qed

text \<open>Either both amounts are zero or none is, except for a path payment that must send all its sheep.\<close>

lemma rdiv_zero:
  assumes "0 < n" "0 \<le> (x :: int)"
  shows "rdiv ROUND_UP (x * m) n = 0 \<Longrightarrow> 0 < m \<Longrightarrow> x = 0"
    and "rdiv ROUND_DOWN (x * m) n = 0 \<Longrightarrow> n \<le> m \<Longrightarrow> x = 0"
proof -
  show "x = 0" if "rdiv ROUND_UP (x * m) n = 0" "0 < m"
    using rdiv_up_times [OF assms(1), of "x * m"] that assms(2) mult_pos_pos [of x m] by fastforce
  show "x = 0" if "rdiv ROUND_DOWN (x * m) n = 0" "n \<le> m"
  proof (rule ccontr)
    assume "x \<noteq> 0"
    then have "1 * n \<le> x * m" using assms that by (intro mult_mono) auto
    then show False using le_rdiv_down [OF assms(1), of 1 "x * m"] that by simp
  qed
qed

lemma crossing_zero:
  assumes p: "price_ok p" and limits: "0 \<le> W" "0 \<le> WR" "0 \<le> S" "0 \<le> SR"
    and c: "crossing p W WR S SR round = (w, s)" and "round \<noteq> PATH_PAYMENT_STRICT_SEND"
  shows "w = 0 \<longleftrightarrow> s = 0"
proof -
  have nd: "0 < priceN p" "0 < priceD p" using p by (auto simp: price_ok_def)
  have "0 \<le> w" "0 \<le> s" using crossing_limits [OF p limits c] by auto
  note z = rdiv_zero [OF nd(1) \<open>0 \<le> s\<close>] rdiv_zero [OF nd(2) \<open>0 \<le> w\<close>]
  show ?thesis using c assms(7) nd z
    by (auto simp: crossing_def Let_def split: if_splits)
qed

text \<open>What a path payment gets when the offer stays.\<close>

lemma crossing_path_payment:
  assumes p: "price_ok p" and c: "crossing p W WR S SR round = (w, s)" and stays: "wheatStaysIn p W WR S SR"
  shows "round = PATH_PAYMENT_STRICT_RECEIVE \<Longrightarrow> WR * priceN p \<le> S * priceD p \<Longrightarrow> w = WR"
    and "round = PATH_PAYMENT_STRICT_SEND \<Longrightarrow> w < WR \<Longrightarrow> s = S"
proof -
  have nd: "0 < priceN p" "0 < priceD p" using p by (auto simp: price_ok_def)
  show "w = WR" if "round = PATH_PAYMENT_STRICT_RECEIVE" "WR * priceN p \<le> S * priceD p"
    using that c stays nd by (auto simp: crossing_def Let_def min_absorb2)
  show "s = S" if "round = PATH_PAYMENT_STRICT_SEND" "w < WR"
  proof -
    have eq: "w = rdiv ROUND_DOWN (min (S * priceD p) (WR * priceN p)) (priceN p)" "s = min S SR"
      using that c stays by (simp_all add: crossing_def Let_def)
    have "S * priceD p < WR * priceN p"
    proof (rule ccontr)
      assume "\<not> S * priceD p < WR * priceN p"
      then have "w = WR" using eq(1) nd by (simp add: min_absorb2)
      then show False using that by simp
    qed
    then have "S * priceD p < SR * priceD p" using stays by (simp add: wheatStaysIn_def min_def split: if_splits)
    then show ?thesis using eq(2) nd by simp
  qed
qed

lemma exchangeV10_stays:
  assumes p: "price_ok p" and ok: "amount_ok W" "amount_ok WR" "amount_ok S" "amount_ok SR"
    and c: "crossing p W WR S SR round = (w, s)" and stays: "wheatStaysIn p W WR S SR" and pos: "0 < S" "0 < SR"
  shows "exchangeV10 p W WR S SR round =
    Inr (if round = NORMAL \<and> \<not> withinOnePercent p w s
         then \<lparr>wheatReceivedV10 = 0, sheepSendV10 = 0, wheatStays = True\<rparr>
         else \<lparr>wheatReceivedV10 = w, sheepSendV10 = s, wheatStays = True\<rparr>)"
proof -
  have lim: "0 \<le> w" "0 \<le> s" "w * priceN p \<le> s * priceD p"
    using crossing_limits [OF p _ _ _ _ c] ok stays by (simp_all add: amount_ok_def)
  have "withinOnePercent p w s" if "priceN p * w = priceD p * s"
    using that p lim(2) by (simp add: withinOnePercent_def mult.assoc price_ok_def)
  then have favored: "priceN p * w < priceD p * s \<or> withinOnePercent p w s"
    using lim(3) by (simp only: mult.commute [of w] mult.commute [of s] le_less) blast
  show ?thesis
  proof (cases "w > 0 \<and> s > 0")
    case True
    then show ?thesis unfolding exchangeV10_int [OF p ok c] using stays favored by simp
  next
    case False
    show ?thesis
    proof (cases "round = PATH_PAYMENT_STRICT_SEND")
      case True
      then have "s = min S SR" using c stays by (simp add: crossing_def Let_def)
      then have "s \<noteq> 0" using pos by auto
      then show ?thesis unfolding exchangeV10_int [OF p ok c] using True False stays by simp
    next
      case other: False
      then have "w = 0 \<longleftrightarrow> s = 0" using crossing_zero [OF p _ _ _ _ c] ok by (simp add: amount_ok_def)
      then have "w = 0" "s = 0" using False lim by auto
      then show ?thesis unfolding exchangeV10_int [OF p ok c] using other stays by simp
    qed
  qed
qed

subsection \<open>Adjusted offers\<close>

text \<open>The amounts when the wheat offer is used up; they only depend on its value.\<close>

definition offerAmounts :: "Price \<Rightarrow> int \<Rightarrow> int \<times> int" where
  "offerAmounts p v =
     (if priceN p > priceD p then let w = rdiv ROUND_DOWN v (priceN p) in (w, rdiv ROUND_DOWN (w * priceN p) (priceD p))
      else let s = rdiv ROUND_DOWN v (priceD p) in (rdiv ROUND_UP (s * priceD p) (priceN p), s))"

lemma crossing_not_stays:
  "\<not> wheatStaysIn p W WR S SR \<Longrightarrow>
   crossing p W WR S SR round = offerAmounts p (min (W * priceN p) (SR * priceD p))"
  by (auto simp: crossing_def offerAmounts_def Let_def)

lemma offerAmounts_stable:
  assumes p: "price_ok p" and "0 \<le> W" "0 \<le> SR"
    and a: "offerAmounts p (min (W * priceN p) (SR * priceD p)) = (w, s)"
  shows "offerAmounts p (min (w * priceN p) (SR * priceD p)) = (w, s)"
proof -
  let ?n = "priceN p" and ?d = "priceD p" and ?v = "min (W * priceN p) (SR * priceD p)"
  have nd: "0 < ?n" "0 < ?d" using p by (auto simp: price_ok_def)
  have v: "0 \<le> ?v" using assms nd by simp
  show ?thesis
  proof (cases "?n > ?d")
    case True
    then have eq: "w = rdiv ROUND_DOWN ?v ?n" "s = rdiv ROUND_DOWN (w * ?n) ?d"
      using a by (auto simp: offerAmounts_def Let_def)
    have "w * ?n \<le> ?v" using round_from(2) [OF nd v] eq by simp
    then have "min (w * ?n) (SR * ?d) = w * ?n" by simp
    then show ?thesis using True eq nd by (simp add: offerAmounts_def Let_def)
  next
    case False
    then have eq: "s = rdiv ROUND_DOWN ?v ?d" "w = rdiv ROUND_UP (s * ?d) ?n"
      using a by (auto simp: offerAmounts_def Let_def)
    note r = round_from [OF nd(2,1) v]
    have "w \<le> W" using r(4) [of W ROUND_UP] eq by simp
    then have up: "min (w * ?n) (SR * ?d) \<le> ?v" using nd by (auto simp: min_le_iff_disj)
    have "s * ?d \<le> w * ?n" using rdiv_up_times [OF nd(1)] eq by simp
    moreover have "s * ?d \<le> SR * ?d" using r(2) eq by simp
    ultimately have "s \<le> rdiv ROUND_DOWN (min (w * ?n) (SR * ?d)) ?d" using nd by (simp add: le_rdiv_down)
    moreover have "rdiv ROUND_DOWN (min (w * ?n) (SR * ?d)) ?d \<le> s"
      unfolding eq(1) using up nd by (simp add: rdiv_def zdiv_mono1)
    ultimately have "rdiv ROUND_DOWN (min (w * ?n) (SR * ?d)) ?d = s" by simp
    then show ?thesis using False eq by (simp add: offerAmounts_def Let_def)
  qed
qed

lemma buyer_without_limits:
  assumes "price_ok p" "amount_ok W" "amount_ok SR"
  shows "\<not> wheatStaysIn p W INT64_MAX INT64_MAX SR"
proof -
  have "W * priceN p \<le> INT64_MAX * priceN p" "SR * priceD p \<le> INT64_MAX * priceD p"
    using assms by (simp_all add: price_ok_def amount_ok_def)
  then show ?thesis by (auto simp: wheatStaysIn_def min_def)
qed

lemma adjustOffer_int:
  assumes p: "price_ok p" and ok: "amount_ok W" "amount_ok SR"
    and a: "offerAmounts p (min (W * priceN p) (SR * priceD p)) = (w, s)"
  shows "adjustOffer p W SR = Inr (if w > 0 \<and> s > 0 \<and> withinOnePercent p w s then w else 0)"
proof -
  have m: "amount_ok INT64_MAX" by (simp add: amount_ok_def)
  have stays: "\<not> wheatStaysIn p W INT64_MAX INT64_MAX SR" by (rule buyer_without_limits [OF p ok])
  then have c: "crossing p W INT64_MAX INT64_MAX SR NORMAL = (w, s)" using a by (simp add: crossing_not_stays)
  show ?thesis using stays by (simp add: adjustOffer_def exchangeV10_int [OF p ok(1) m m ok(2) c])
qed

subsection \<open>Exchanges with a pool\<close>

text \<open>
  The contract of a pool with reserves \<open>rT\<close> and \<open>rF\<close>: after \<open>t\<close> goes in and \<open>f\<close> comes out, the product
  of the reserves is not smaller, where the fee does not count as part of the reserves.
\<close>

definition poolKeeps :: "int \<Rightarrow> int \<Rightarrow> int \<Rightarrow> int \<Rightarrow> int \<Rightarrow> bool" where
  "poolKeeps rT rF fee t f \<longleftrightarrow> 10000 * rT * rF \<le> (10000 * rT + (10000 - fee) * t) * (rF - f)"

lemma poolKeeps_product:
  assumes "poolKeeps rT rF fee t f" "0 \<le> fee" "fee < 10000" "0 \<le> t" "f \<le> rF"
  shows "rT * rF \<le> (rT + t) * (rF - f)"
proof -
  have "(10000 * rT + (10000 - fee) * t) * (rF - f) \<le> (10000 * rT + 10000 * t) * (rF - f)"
    using assms by (intro mult_right_mono add_left_mono) auto
  then have "10000 * (rT * rF) \<le> 10000 * ((rT + t) * (rF - f))"
    using assms(1) by (simp add: poolKeeps_def algebra_simps)
  then show ?thesis by simp
qed

lemma hugeDivide_int:
  assumes "0 < a" "a \<le> 10000" "0 \<le> x" "x \<le> 85070591730234615847396907784232501249"
    and "0 < c" "c \<le> 20000 * INT64_MAX"
  shows "hugeDivide a (u128 x) (u128 c) r =
    (if rdiv r (a * x) c \<le> INT64_MAX then Inr (True, rdiv r (a * x) c) else Inr (False, 0))"
proof -
  have u: "uint (u128 x) = x" "uint (u128 c) = c" using assms by (simp_all add: uint_u128)
  have "u128 c \<noteq> 0" using u(2) assms(5) by auto
  moreover have "uint (word_of_int INT32_MAX * word_of_int INT64_MAX :: uint128) = INT32_MAX * INT64_MAX"
    by simp
  then have "u128 c \<le> word_of_int INT32_MAX * word_of_int INT64_MAX"
    unfolding word_le_def u using assms(6) by simp
  moreover have "unat (u128 x) = nat x" "unat (u128 c) = nat c" using u by (simp_all add: unat_eq_nat_uint)
  then have "int (round_div r (nat a * unat (u128 x)) (unat (u128 c))) = rdiv r (a * x) c"
    using assms by (simp add: int_round_div)
  ultimately show ?thesis using hugeDivide_value [of a "u128 c" "u128 x" r] assms by (simp add: Let_def)
qed

lemma u128_add: "u128 x + u128 y = u128 (x + y)"
  by (simp add: u128_def)

text \<open>The amount that the code computes is the best one that keeps the contract.\<close>

lemma poolKeeps_send:
  assumes "0 \<le> fee" "fee < 10000" "0 < rT" "0 \<le> t"
  shows "poolKeeps rT rF fee t f \<longleftrightarrow>
    f \<le> rdiv ROUND_DOWN ((10000 - fee) * (rF * t)) (10000 * rT + (10000 - fee) * t)"
proof -
  have "0 < 10000 * rT + (10000 - fee) * t" using assms by (simp add: add_pos_nonneg)
  then show ?thesis by (simp add: poolKeeps_def le_rdiv_down algebra_simps)
qed

lemma poolKeeps_receive:
  assumes "0 \<le> fee" "fee < 10000" "f < rF"
  shows "poolKeeps rT rF fee t f \<longleftrightarrow>
    rdiv ROUND_UP (10000 * (rT * f)) ((rF - f) * (10000 - fee)) \<le> t"
proof -
  have "0 < (rF - f) * (10000 - fee)" using assms by simp
  then show ?thesis by (simp add: poolKeeps_def rdiv_up_le algebra_simps)
qed

lemma exchangeWithPool_send:
  assumes fee: "0 \<le> fee" "fee < 10000" and r: "0 < rT" "rT \<le> INT64_MAX" "0 < rF" "rF \<le> INT64_MAX"
    and x: "amount_ok x" "x \<le> INT64_MAX - rT"
  defines "q \<equiv> rdiv ROUND_DOWN ((10000 - fee) * (rF * x)) (10000 * rT + (10000 - fee) * x)"
  shows "exchangeWithPool rT x rF INT64_MAX fee PATH_PAYMENT_STRICT_SEND = Inr (q \<noteq> 0, x, q)" "0 \<le> q" "q < rF"
proof -
  have ok: "amount_ok rT" "amount_ok rF" "amount_ok 10000" "amount_ok (10000 - fee)"
    using r fee by (simp_all add: amount_ok_def)
  let ?D = "10000 * rT + (10000 - fee) * x"
  have "(10000 - fee) * x \<le> 10000 * INT64_MAX" using fee x by (intro mult_mono) (auto simp: amount_ok_def)
  moreover have "10000 * rT \<le> 10000 * INT64_MAX" using r by simp
  ultimately have D: "0 < ?D" "?D \<le> 20000 * INT64_MAX"
    using r fee x(1) by (auto simp: amount_ok_def add_pos_nonneg)
  show q0: "0 \<le> q" unfolding q_def using D r fee x(1) by (intro rdiv_nonneg) (auto simp: amount_ok_def)
  have "\<not> poolKeeps rT rF fee x rF" using r by (simp add: poolKeeps_def mult_le_0_iff)
  then show q1: "q < rF"
    using poolKeeps_send [OF fee r(1), of x rF rF] x(1) unfolding q_def amount_ok_def by simp
  have "hugeDivide (10000 - fee) (u128 (rF * x)) (u128 ?D) ROUND_DOWN = Inr (True, q)"
    using hugeDivide_int [of "10000 - fee" "rF * x" ?D ROUND_DOWN] amount_times [OF ok(2) x(1)] fee D q1 r(4)
    unfolding q_def [symmetric] by simp
  then show "exchangeWithPool rT x rF INT64_MAX fee PATH_PAYMENT_STRICT_SEND = Inr (q \<noteq> 0, x, q)"
    using fee r x(2) q0 q1 by (simp add: exchangeWithPool_def Let_def numE_def bigMultiply_int ok x(1) u128_add)
qed

lemma exchangeWithPool_receive:
  assumes fee: "0 \<le> fee" "fee < 10000" and r: "0 < rT" "rT \<le> INT64_MAX" "0 < rF" "rF \<le> INT64_MAX"
    and x: "0 \<le> x" "x < rF"
  defines "q \<equiv> rdiv ROUND_UP (10000 * (rT * x)) ((rF - x) * (10000 - fee))"
  shows "exchangeWithPool rT INT64_MAX rF x fee PATH_PAYMENT_STRICT_RECEIVE =
    Inr (q \<le> INT64_MAX - rT, if q \<le> INT64_MAX then q else 0, x)" "0 \<le> q"
proof -
  have ok: "amount_ok rT" "amount_ok x" "amount_ok (rF - x)" "amount_ok (10000 - fee)"
    using r fee x by (simp_all add: amount_ok_def)
  let ?D = "(rF - x) * (10000 - fee)"
  have "?D \<le> INT64_MAX * 10000" using r x fee by (intro mult_mono) auto
  then have D: "0 < ?D" "?D \<le> 20000 * INT64_MAX" using fee x by auto
  show q0: "0 \<le> q" unfolding q_def using D r x by (intro rdiv_nonneg) auto
  have "hugeDivide 10000 (u128 (rT * x)) (u128 ?D) ROUND_UP =
      (if q \<le> INT64_MAX then Inr (True, q) else Inr (False, 0))"
    using hugeDivide_int [of 10000 "rT * x" ?D ROUND_UP] amount_times [OF ok(1,2)] D
    unfolding q_def [symmetric] by simp
  then show "exchangeWithPool rT INT64_MAX rF x fee PATH_PAYMENT_STRICT_RECEIVE =
      Inr (q \<le> INT64_MAX - rT, if q \<le> INT64_MAX then q else 0, x)"
    using fee r x q0 by (auto simp: exchangeWithPool_def Let_def numE_def bigMultiply_int ok)
qed

subsection \<open>Exchanges before version 10\<close>

text \<open>The divisions never fail, and the rounding never favours the one who takes the offer.\<close>

lemma exchangeV2_int:
  assumes p: "price_ok p" and ok: "amount_ok x" "amount_ok WR" "amount_ok S"
  shows "\<exists>w s red. exchangeV2 x p WR S = Inr \<lparr>numWheatReceived = w, numSheepSend = s, reduced = red\<rparr> \<and>
    0 \<le> w \<and> w \<le> min x WR \<and> 0 \<le> s \<and> s \<le> S \<and> w * priceN p \<le> s * priceD p \<and>
    (\<not> red \<longrightarrow> x \<le> WR \<and> s = min INT64_MAX (x * priceN p div priceD p))"
proof -
  define n where "n = priceN p"
  define d where "d = priceD p"
  define w where "w = min x WR"
  define q where "q = rdiv ROUND_DOWN (w * n) d"
  define s where "s = min (min q INT64_MAX) S"
  define r where "r = rdiv ROUND_DOWN (s * d) n"
  have nd: "0 < n" "n \<le> INT64_MAX" "0 < d" "d \<le> INT64_MAX" "amount_ok n" "amount_ok d"
    using p by (auto simp: price_ok_def amount_ok_def n_def d_def)
  have w: "amount_ok w" using ok by (auto simp: amount_ok_def min_def w_def)
  have q0: "0 \<le> q" unfolding q_def by (rule rdiv_nonneg [OF nd(3) amount_times(1) [OF w nd(5)]])
  have s: "amount_ok s" using ok(3) q0 by (auto simp: amount_ok_def s_def)
  have "s * d \<le> q * d" using nd by (intro mult_right_mono) (auto simp: s_def)
  also have "\<dots> \<le> w * n" unfolding q_def by (rule rdiv_down_times [OF nd(3)])
  finally have sw: "s * d \<le> w * n" .
  have rs: "r * n \<le> s * d" unfolding r_def by (rule rdiv_down_times [OF nd(1)])
  then have r: "r \<le> w" using sw mult_le_cancel_right_pos [OF nd(1), of r w] by linarith
  have r0: "0 \<le> r" unfolding r_def by (rule rdiv_nonneg [OF nd(1) amount_times(1) [OF s nd(6)]])
  obtain q' where div1: "bigDivide w n d ROUND_DOWN = Inr (q \<le> INT64_MAX, q')" "q \<le> INT64_MAX \<longrightarrow> q' = q"
    using bigDivide_int [OF w nd(5,3,4), of ROUND_DOWN] unfolding q_def by blast
  have sheep: "(if q \<le> INT64_MAX then q' else INT64_MAX) = min q INT64_MAX" using div1(2) by auto
  have div2: "bigDivideOrThrow s d n ROUND_DOWN = Inr r"
    using bigDivideOrThrow_int [OF s nd(6,1,2), of ROUND_DOWN] r w unfolding r_def amount_ok_def by simp
  have res: "exchangeV2 x p WR S =
      Inr \<lparr>numWheatReceived = r, numSheepSend = s, reduced = (x > WR \<or> min q INT64_MAX > S)\<rparr>"
    by (simp only: exchangeV2_def Let_def numE_def n_def [symmetric] d_def [symmetric] w_def [symmetric]
        div1(1) sum.case bindE.simps prod.case sheep s_def [symmetric] div2)
  have "x \<le> WR \<and> s = min INT64_MAX (x * n div d)" if "\<not> (x > WR \<or> min q INT64_MAX > S)"
    using that by (auto simp: s_def q_def w_def rdiv_def)
  then show ?thesis using res r0 r s rs unfolding amount_ok_def n_def d_def w_def by (auto simp: s_def)
qed

lemma exchangeV3_int:
  assumes p: "price_ok p" and ok: "amount_ok x" "amount_ok WR" "amount_ok S"
  shows "\<exists>w s red. exchangeV3 x p WR S = Inr \<lparr>numWheatReceived = w, numSheepSend = s, reduced = red\<rparr> \<and>
    0 \<le> w \<and> w \<le> min x WR \<and> 0 \<le> s \<and> s \<le> S \<and> w * priceN p \<le> s * priceD p \<and>
    (\<not> red \<longrightarrow> w = x \<and> s = rdiv ROUND_UP (x * priceN p) (priceD p))"
proof -
  define n where "n = priceN p"
  define d where "d = priceD p"
  define w where "w = min x WR"
  define q where "q = rdiv ROUND_UP (w * n) d"
  define s where "s = min (min q INT64_MAX) S"
  define r where "r = rdiv ROUND_DOWN (s * d) n"
  have nd: "0 < n" "n \<le> INT64_MAX" "0 < d" "d \<le> INT64_MAX" "amount_ok n" "amount_ok d"
    using p by (auto simp: price_ok_def amount_ok_def n_def d_def)
  have w: "amount_ok w" using ok by (auto simp: amount_ok_def min_def w_def)
  have q0: "0 \<le> q" unfolding q_def by (rule rdiv_nonneg [OF nd(3) amount_times(1) [OF w nd(5)]])
  have s: "amount_ok s" using ok(3) q0 by (auto simp: amount_ok_def s_def)
  have r0: "0 \<le> r" unfolding r_def by (rule rdiv_nonneg [OF nd(1) amount_times(1) [OF s nd(6)]])
  have "min w r * n \<le> r * n" using nd by (intro mult_right_mono) auto
  also have "\<dots> \<le> s * d" unfolding r_def by (rule rdiv_down_times [OF nd(1)])
  finally have rs: "min w r * n \<le> s * d" .
  obtain q' where div1: "bigDivide w n d ROUND_UP = Inr (q \<le> INT64_MAX, q')" "q \<le> INT64_MAX \<longrightarrow> q' = q"
    using bigDivide_int [OF w nd(5,3,4), of ROUND_UP] unfolding q_def by blast
  obtain r' where div2: "bigDivide s d n ROUND_DOWN = Inr (r \<le> INT64_MAX, r')" "r \<le> INT64_MAX \<longrightarrow> r' = r"
    using bigDivide_int [OF s nd(6,1,2), of ROUND_DOWN] unfolding r_def by blast
  have sheep: "(if q \<le> INT64_MAX then q' else INT64_MAX) = min q INT64_MAX" using div1(2) by auto
  have wheat: "min w (if r \<le> INT64_MAX then r' else INT64_MAX) = min w r"
    using div2(2) w by (auto simp: amount_ok_def)
  have res: "exchangeV3 x p WR S = Inr \<lparr>numWheatReceived = min w r, numSheepSend = s,
      reduced = (x > WR \<or> \<not> q \<le> INT64_MAX \<or> min q INT64_MAX > S)\<rparr>"
    by (simp only: exchangeV3_def Let_def numE_def n_def [symmetric] d_def [symmetric] w_def [symmetric]
        div1(1) sum.case bindE.simps prod.case sheep s_def [symmetric] div2(1) wheat)
  have full: "min w r = x \<and> s = rdiv ROUND_UP (x * n) d"
    if "\<not> (x > WR \<or> \<not> q \<le> INT64_MAX \<or> min q INT64_MAX > S)"
  proof -
    have eq: "w = x" "s = q" using that by (auto simp: w_def s_def)
    have "x * n \<le> s * d" unfolding eq(2) q_def eq(1) by (rule rdiv_up_times [OF nd(3)])
    then have "x \<le> r" unfolding r_def using le_rdiv_down [OF nd(1)] by blast
    then show ?thesis using eq q_def by simp
  qed
  have "0 \<le> min w r" "min w r \<le> min x WR" "0 \<le> s" "s \<le> S"
    using r0 w s by (auto simp: amount_ok_def w_def s_def)
  then show ?thesis using res rs full unfolding n_def d_def by blast
qed

end
