(* ===== verification/ExchangeProperties.thy ===== *)
theory ExchangeProperties
  imports OfferExchange
begin

text \<open>
  The properties of the exchange of offers and of the exchange with liquidity pools, which the code
  states in the comments before \<open>exchangeV10\<close>, \<open>adjustOffer\<close> and \<open>exchangeWithPool\<close>.
\<close>

subsection \<open>Crossing offers\<close>

text \<open>
  C16: for valid prices and limits a normal exchange never throws: no 128-bit product or quotient
  overflows and no check fails. Both amounts stay within the limits of both sides, both or none are
  zero, the effective price is within one percent of the price, and the rounding favours the offer
  that stays in the book.
\<close>

theorem exchangeV10_fair:
  assumes "price_ok p" "amount_ok W" "amount_ok WR" "amount_ok S" "amount_ok SR"
  shows "\<exists>w s stays. exchangeV10 p W WR S SR NORMAL = Inr \<lparr>wheatReceivedV10 = w, sheepSendV10 = s, wheatStays = stays\<rparr> \<and>
    0 \<le> w \<and> w \<le> min W WR \<and> 0 \<le> s \<and> s \<le> min S SR \<and> (w = 0 \<longleftrightarrow> s = 0) \<and>
    \<bar>100 * priceN p * w - 100 * priceD p * s\<bar> \<le> priceN p * w \<and>
    (if stays then w * priceN p \<le> s * priceD p else s * priceD p \<le> w * priceN p)"
proof -
  obtain w s where c: "crossing p W WR S SR NORMAL = (w, s)" by (meson surj_pair)
  let ?st = "wheatStaysIn p W WR S SR"
  have lim: "0 \<le> w" "w \<le> min WR W" "0 \<le> s" "s \<le> min SR S" "?st \<longrightarrow> w * priceN p \<le> s * priceD p"
      "\<not> ?st \<longrightarrow> s * priceD p \<le> w * priceN p"
    using crossing_limits [OF assms(1) _ _ _ _ c] assms(2-5) by (simp_all add: amount_ok_def)
  note eq = exchangeV10_int [OF assms c]
  show ?thesis
  proof (cases "w > 0 \<and> s > 0 \<and> withinOnePercent p w s")
    case True
    then have "exchangeV10 p W WR S SR NORMAL = Inr \<lparr>wheatReceivedV10 = w, sheepSendV10 = s, wheatStays = ?st\<rparr>"
      using lim by (simp add: eq)
    moreover have "w \<le> min W WR" "s \<le> min S SR" using lim by simp_all
    ultimately show ?thesis
      using True lim unfolding withinOnePercent_def by (rule_tac exI [of _ w], rule_tac exI [of _ s], rule_tac exI [of _ ?st]) simp
  next
    case False
    then have "exchangeV10 p W WR S SR NORMAL = Inr \<lparr>wheatReceivedV10 = 0, sheepSendV10 = 0, wheatStays = ?st\<rparr>"
      by (cases "w > 0 \<and> s > 0") (simp_all add: eq)
    then show ?thesis using assms by (simp add: amount_ok_def)
  qed
qed

theorem exchangeV10_fair_witness:
  "\<exists>w s. exchangeV10 \<lparr>priceN = 3, priceD = 2\<rparr> 150 101 500 INT64_MAX NORMAL =
     Inr \<lparr>wheatReceivedV10 = w, sheepSendV10 = s, wheatStays = True\<rparr> \<and> w = 101 \<and> s = 152 \<and> 300 * w \<le> 200 * s"
proof -
  let ?p = "\<lparr>priceN = 3, priceD = 2\<rparr>"
  have ok: "price_ok ?p" "amount_ok 150" "amount_ok 101" "amount_ok 500" "amount_ok INT64_MAX"
    by (simp_all add: price_ok_def amount_ok_def)
  have "crossing ?p 150 101 500 INT64_MAX NORMAL = (101, 152)" "wheatStaysIn ?p 150 101 500 INT64_MAX"
    by (simp_all add: crossing_def wheatStaysIn_def rdiv_def)
  then have "exchangeV10 ?p 150 101 500 INT64_MAX NORMAL =
      Inr \<lparr>wheatReceivedV10 = 101, sheepSendV10 = 152, wheatStays = True\<rparr>"
    using exchangeV10_int [OF ok] by (simp add: withinOnePercent_def)
  then show ?thesis using exchangeV10_fair [OF ok] by auto
qed

text \<open>
  C17: \<open>adjustOffer\<close> has no effect on an offer that has been adjusted; it never throws and never
  increases the amount.
\<close>

theorem adjustOffer_idempotent:
  assumes "price_ok p" "amount_ok W" "amount_ok SR"
  shows "\<exists>a. adjustOffer p W SR = Inr a \<and> 0 \<le> a \<and> a \<le> W \<and> adjustOffer p a SR = Inr a"
proof -
  obtain w s where a: "offerAmounts p (min (W * priceN p) (SR * priceD p)) = (w, s)" by (meson surj_pair)
  have nd: "0 < priceN p" "0 < priceD p" using assms by (auto simp: price_ok_def)
  let ?a = "if w > 0 \<and> s > 0 \<and> withinOnePercent p w s then w else 0"
  have adj: "adjustOffer p W SR = Inr ?a" by (rule adjustOffer_int [OF assms a])
  have "crossing p W INT64_MAX INT64_MAX SR NORMAL = (w, s)"
    using a buyer_without_limits [OF assms] by (simp add: crossing_not_stays)
  from crossing_limits [OF assms(1) _ _ _ _ this] have w: "0 \<le> w" "w \<le> W"
    using assms(2,3) by (simp_all add: amount_ok_def)
  have "min (0 * priceN p) (SR * priceD p) = 0" using assms(3) nd by (simp add: amount_ok_def)
  then have z: "offerAmounts p (min (0 * priceN p) (SR * priceD p)) = (0, 0)"
    using nd by (simp add: offerAmounts_def)
  have "adjustOffer p ?a SR = Inr ?a"
  proof (cases "w > 0 \<and> s > 0 \<and> withinOnePercent p w s")
    case True
    have "offerAmounts p (min (w * priceN p) (SR * priceD p)) = (w, s)"
      using offerAmounts_stable [OF assms(1) _ _ a] assms by (simp add: amount_ok_def)
    then show ?thesis using adjustOffer_int [OF assms(1) _ assms(3)] True w assms(2) by (simp add: amount_ok_def)
  next
    case False
    then have "?a = 0" by (rule if_not_P)
    then show ?thesis using adjustOffer_int [OF assms(1) _ assms(3) z] by (simp only:) (simp add: amount_ok_def)
  qed
  then show ?thesis using adj w by (intro exI [of _ ?a]) simp
qed

theorem adjustOffer_idempotent_witness:
  "\<exists>a. adjustOffer \<lparr>priceN = 2, priceD = 3\<rparr> 1000 INT64_MAX = Inr a \<and> a = 999 \<and>
     adjustOffer \<lparr>priceN = 2, priceD = 3\<rparr> a INT64_MAX = Inr a"
proof -
  let ?p = "\<lparr>priceN = 2, priceD = 3\<rparr>"
  have ok: "price_ok ?p" "amount_ok 1000" "amount_ok INT64_MAX" by (simp_all add: price_ok_def amount_ok_def)
  have "offerAmounts ?p (min (1000 * priceN ?p) (INT64_MAX * priceD ?p)) = (999, 666)"
    by (simp add: offerAmounts_def rdiv_def)
  then have "adjustOffer ?p 1000 INT64_MAX = Inr 999"
    using adjustOffer_int [OF ok] by (simp add: withinOnePercent_def)
  then show ?thesis using adjustOffer_idempotent [OF ok] by auto
qed

text \<open>
  C18: crossing an offer that has just been adjusted never throws, for whatever kind of payment, if
  there is something left to send: in particular the error of the price is never exceeded, as the
  code argues. If the offer does not stay in the book, its whole amount is taken. If it stays, a
  payment that must receive an amount receives exactly that, if it can send enough for it, and a
  payment that must send an amount sends exactly that, unless it receives all it can.
\<close>

theorem adjusted_offer_crosses:
  assumes "price_ok p" "amount_ok W" "amount_ok WR" "amount_ok S" "amount_ok SR"
    and adjusted: "adjustOffer p W SR = Inr a" "0 < a" and "0 < S"
  shows "\<exists>w s stays. exchangeV10 p a WR S SR round = Inr \<lparr>wheatReceivedV10 = w, sheepSendV10 = s, wheatStays = stays\<rparr> \<and>
    0 \<le> w \<and> w \<le> min a WR \<and> 0 \<le> s \<and> s \<le> min S SR \<and>
    (\<not> stays \<longrightarrow> w = a \<and> \<bar>100 * priceN p * w - 100 * priceD p * s\<bar> \<le> priceN p * w) \<and>
    (stays \<and> round = PATH_PAYMENT_STRICT_RECEIVE \<and> WR * priceN p \<le> S * priceD p \<longrightarrow> w = WR) \<and>
    (stays \<and> round = PATH_PAYMENT_STRICT_SEND \<and> w < WR \<longrightarrow> s = S)"
proof -
  obtain w0 s0 where a0: "offerAmounts p (min (W * priceN p) (SR * priceD p)) = (w0, s0)" by (meson surj_pair)
  have pos: "a = w0" "0 < w0" "0 < s0" "withinOnePercent p w0 s0"
    using adjustOffer_int [OF assms(1,2,5) a0] adjusted by (auto split: if_splits)
  have again: "offerAmounts p (min (a * priceN p) (SR * priceD p)) = (w0, s0)"
    using offerAmounts_stable [OF assms(1) _ _ a0] assms(2,5) pos by (simp add: amount_ok_def)
  have "crossing p W INT64_MAX INT64_MAX SR NORMAL = (w0, s0)"
    using a0 buyer_without_limits [OF assms(1,2,5)] by (simp add: crossing_not_stays)
  from crossing_limits [OF assms(1) _ _ _ _ this] have "w0 \<le> W" "s0 \<le> SR"
    using assms(2,5) by (simp_all add: amount_ok_def)
  then have a: "amount_ok a" and "0 < SR" using pos assms(2) by (auto simp: amount_ok_def)
  obtain w s where c: "crossing p a WR S SR round = (w, s)" by (meson surj_pair)
  note eq = exchangeV10_int [OF assms(1) a assms(3-5) c]
  have lim: "0 \<le> w" "w \<le> min a WR" "0 \<le> s" "s \<le> min S SR"
      "wheatStaysIn p a WR S SR \<longrightarrow> w * priceN p \<le> s * priceD p"
    using crossing_limits [OF assms(1) _ _ _ _ c] a assms(3-5) by (simp_all add: amount_ok_def)
  show ?thesis
  proof (cases "wheatStaysIn p a WR S SR")
    case False
    then have "w = a" "s = s0" using c again pos by (simp_all add: crossing_not_stays)
    moreover have "exchangeV10 p a WR S SR round = Inr \<lparr>wheatReceivedV10 = w, sheepSendV10 = s, wheatStays = False\<rparr>"
      unfolding eq using False pos calculation by simp
    ultimately show ?thesis using False pos lim unfolding withinOnePercent_def
      by (rule_tac exI [of _ w], rule_tac exI [of _ s], rule_tac exI [of _ False]) simp
  next
    case True
    have amounts: "amount_ok WR" "amount_ok S" "amount_ok SR" by fact+
    show ?thesis
    proof (cases "round = NORMAL \<and> \<not> withinOnePercent p w s")
      case zero: True
      then show ?thesis using exchangeV10_stays [OF assms(1) a amounts c True \<open>0 < S\<close> \<open>0 < SR\<close>] a amounts
        by (rule_tac exI [of _ 0], rule_tac exI [of _ 0], rule_tac exI [of _ True]) (simp add: amount_ok_def)
    next
      case False
      then show ?thesis
        using exchangeV10_stays [OF assms(1) a amounts c True \<open>0 < S\<close> \<open>0 < SR\<close>] lim(1-4)
          crossing_path_payment [OF assms(1) c True]
        by (rule_tac exI [of _ w], rule_tac exI [of _ s], rule_tac exI [of _ True]) auto
    qed
  qed
qed

theorem adjusted_offer_crosses_witness:
  "\<exists>w s. exchangeV10 \<lparr>priceN = 2, priceD = 3\<rparr> 999 101 INT64_MAX INT64_MAX PATH_PAYMENT_STRICT_RECEIVE =
     Inr \<lparr>wheatReceivedV10 = w, sheepSendV10 = s, wheatStays = True\<rparr> \<and> w = 101 \<and> s = 68"
proof -
  let ?p = "\<lparr>priceN = 2, priceD = 3\<rparr>"
  have ok: "price_ok ?p" "amount_ok 1000" "amount_ok 101" "amount_ok INT64_MAX" "amount_ok INT64_MAX" "amount_ok 999"
    by (simp_all add: price_ok_def amount_ok_def)
  have "offerAmounts ?p (min (1000 * priceN ?p) (INT64_MAX * priceD ?p)) = (999, 666)"
    by (simp add: offerAmounts_def rdiv_def)
  then have "adjustOffer ?p 1000 INT64_MAX = Inr 999"
    using adjustOffer_int [OF ok(1,2,4)] by (simp add: withinOnePercent_def)
  from adjusted_offer_crosses [OF ok(1-5) this, of PATH_PAYMENT_STRICT_RECEIVE]
  obtain w s stays where x: "exchangeV10 ?p 999 101 INT64_MAX INT64_MAX PATH_PAYMENT_STRICT_RECEIVE =
      Inr \<lparr>wheatReceivedV10 = w, sheepSendV10 = s, wheatStays = stays\<rparr>" by auto
  have "crossing ?p 999 101 INT64_MAX INT64_MAX PATH_PAYMENT_STRICT_RECEIVE = (101, 68)"
      "wheatStaysIn ?p 999 101 INT64_MAX INT64_MAX"
    by (simp_all add: crossing_def wheatStaysIn_def rdiv_def)
  then show ?thesis using x exchangeV10_stays [OF ok(1,6,3,4,5)] by simp
qed

subsection \<open>Liquidity pools\<close>

text \<open>
  C19: an exchange with a pool never throws, and it succeeds exactly when it is possible. The product
  of the reserves never decreases; it does not even decrease when the fee is not counted. The amount
  that the payment does not fix is the best one for it with this property: what comes out is the
  largest, what goes in is the smallest. The reserves stay positive and within 64 bits.
\<close>

theorem exchangeWithPool_best:
  assumes "0 \<le> fee" "fee < 10000" "0 < rT" "rT \<le> INT64_MAX" "0 < rF" "rF \<le> INT64_MAX" "amount_ok x"
  shows "(\<exists>done toPool fromPool.
      exchangeWithPool rT x rF INT64_MAX fee PATH_PAYMENT_STRICT_SEND = Inr (done, toPool, fromPool) \<and>
      (done \<longleftrightarrow> rT + x \<le> INT64_MAX \<and> poolKeeps rT rF fee x 1) \<and>
      (done \<longrightarrow> toPool = x \<and> 0 < fromPool \<and> fromPool < rF \<and> rT * rF \<le> (rT + toPool) * (rF - fromPool) \<and>
        poolKeeps rT rF fee x fromPool \<and> \<not> poolKeeps rT rF fee x (fromPool + 1))) \<and>
    (\<exists>done toPool fromPool.
      exchangeWithPool rT INT64_MAX rF x fee PATH_PAYMENT_STRICT_RECEIVE = Inr (done, toPool, fromPool) \<and>
      (done \<longleftrightarrow> x < rF \<and> poolKeeps rT rF fee (INT64_MAX - rT) x) \<and>
      (done \<longrightarrow> fromPool = x \<and> 0 \<le> toPool \<and> rT + toPool \<le> INT64_MAX \<and> rT * rF \<le> (rT + toPool) * (rF - fromPool) \<and>
        poolKeeps rT rF fee toPool x \<and> \<not> poolKeeps rT rF fee (toPool - 1) x))"
proof (rule conjI, goal_cases)
  case 1
  show ?case
  proof (cases "rT + x \<le> INT64_MAX")
    case True
    then have x: "x \<le> INT64_MAX - rT" "0 \<le> x" using assms(7) by (simp_all add: amount_ok_def)
    note send = exchangeWithPool_send [OF assms x(1)] and keeps = poolKeeps_send [OF assms(1-3) x(2)]
    show ?thesis
      using send keeps True poolKeeps_product [OF _ assms(1,2) x(2)]
      by (intro exI conjI) (rule send(1), auto)
  next
    case False
    then show ?thesis using assms by (auto simp: exchangeWithPool_def)
  qed
next
  case 2
  show ?case
  proof (cases "x < rF")
    case True
    have x: "0 \<le> x" "x \<le> rF" using assms(7) True by (simp_all add: amount_ok_def)
    note receive = exchangeWithPool_receive [OF assms(1-6) x(1) True] and keeps = poolKeeps_receive [OF assms(1,2) True]
    show ?thesis
      using receive keeps True assms(3) poolKeeps_product [OF _ assms(1,2) receive(2) x(2)]
      by (intro exI conjI) (rule receive(1), auto)
  next
    case False
    then show ?thesis using assms by (auto simp: exchangeWithPool_def)
  qed
qed

theorem exchangeWithPool_best_witness:
  "\<exists>fromPool toPool.
     exchangeWithPool 1000 100 2000 INT64_MAX 30 PATH_PAYMENT_STRICT_SEND = Inr (True, 100, fromPool) \<and>
     exchangeWithPool 1000 INT64_MAX 2000 100 30 PATH_PAYMENT_STRICT_RECEIVE = Inr (True, toPool, 100) \<and>
     1000 * 2000 \<le> (1000 + 100) * (2000 - fromPool) \<and> fromPool = 181 \<and> toPool = 53"
proof -
  have fee: "(0 :: int) \<le> 30" "(30 :: int) < 10000" "(0 :: int) < 1000" "(1000 :: int) \<le> INT64_MAX"
      "(0 :: int) < 2000" "(2000 :: int) \<le> INT64_MAX" and x: "amount_ok 100"
    by (simp_all add: amount_ok_def)
  have "exchangeWithPool 1000 100 2000 INT64_MAX 30 PATH_PAYMENT_STRICT_SEND = Inr (True, 100, 181)"
      "exchangeWithPool 1000 INT64_MAX 2000 100 30 PATH_PAYMENT_STRICT_RECEIVE = Inr (True, 53, 100)"
    using exchangeWithPool_send [OF fee x] exchangeWithPool_receive [OF fee, of 100] by (simp_all add: rdiv_def)
  then show ?thesis using exchangeWithPool_best [OF fee x] by auto
qed

subsection \<open>Exchanges before version 10\<close>

text \<open>
  the exchanges of the first protocol versions never throw either. They stay within the limits
  of the buyer and within what the offer has, and the rounding never favours the buyer. An exchange
  that is not marked as reduced is for all that the offer has, up to the largest amount.
\<close>

lemma exchanges_before_v10:
  assumes "price_ok p" "amount_ok x" "amount_ok WR" "amount_ok S" and "exchange = exchangeV2 \<or> exchange = exchangeV3"
  shows "\<exists>w s red. exchange x p WR S = Inr \<lparr>numWheatReceived = w, numSheepSend = s, reduced = red\<rparr> \<and>
    0 \<le> w \<and> w \<le> min x WR \<and> 0 \<le> s \<and> s \<le> S \<and> w * priceN p \<le> s * priceD p \<and>
    (\<not> red \<longrightarrow> x \<le> WR \<and> s = min INT64_MAX (rdiv (if exchange = exchangeV2 then ROUND_DOWN else ROUND_UP) (x * priceN p) (priceD p)))"
proof (cases "exchange = exchangeV2")
  case True
  then show ?thesis using exchangeV2_int [OF assms(1-4)] by (simp add: rdiv_def)
next
  case False
  then have v3: "exchange = exchangeV3" using assms(5) by simp
  obtain w s red where x: "exchange x p WR S = Inr \<lparr>numWheatReceived = w, numSheepSend = s, reduced = red\<rparr>"
      "0 \<le> w" "w \<le> min x WR" "0 \<le> s" "s \<le> S" "w * priceN p \<le> s * priceD p"
      "\<not> red \<longrightarrow> w = x \<and> s = rdiv ROUND_UP (x * priceN p) (priceD p)"
    using exchangeV3_int [OF assms(1-4)] unfolding v3 by blast
  have "s \<le> INT64_MAX" using x(5) assms(4) by (simp add: amount_ok_def)
  then have "\<not> red \<longrightarrow> x \<le> WR \<and> s = min INT64_MAX (rdiv ROUND_UP (x * priceN p) (priceD p))"
    using x(3,7) by auto
  then show ?thesis unfolding if_not_P [OF False] using x(1-6) by blast
qed

lemma exchanges_before_v10_witness:
  "\<exists>w s red. exchangeV3 7 \<lparr>priceN = 1, priceD = 2\<rparr> 10 10 = Inr \<lparr>numWheatReceived = w, numSheepSend = s, reduced = red\<rparr> \<and>
     w \<le> 7 \<and> w * 1 \<le> s * 2"
proof -
  have "price_ok \<lparr>priceN = 1, priceD = 2\<rparr>" "amount_ok 7" "amount_ok 10" "amount_ok 10" "exchangeV3 = exchangeV2 \<or> exchangeV3 = exchangeV3"
    by (simp_all add: price_ok_def amount_ok_def)
  from exchanges_before_v10 [OF this] show ?thesis by auto
qed

end
