(* ===== verification/Bucket.thy ===== *)
theory Bucket
  imports LedgerEntries
begin

text \<open>
  Buckets, \<open>src/src/bucket/Bucket.cpp\<close>: files of entries sorted by key. A bucket is the list of the
  entries in its file; the empty bucket has no file. The theory models reading a bucket
  (\<open>BucketInputIterator\<close>), writing one (\<open>BucketOutputIterator\<close>), making one from the changes of a ledger
  (\<open>fresh\<close>) and merging two (\<open>merge\<close>). Every \<open>throw\<close> and every \<open>releaseAssert\<close> is an error value.
  Event counters, hashes and the adoption of the file by the bucket manager are left out; whether the
  manager is shut down is asked of a parameter.
\<close>

subsection \<open>Entries and their order\<close>

datatype BucketEntry =
    METAENTRY (metaVersion: uint32)
  | LIVEENTRY LedgerEntry
  | INITENTRY LedgerEntry
  | DEADENTRY LedgerKey

type_synonym Bucket = "BucketEntry list"

datatype bucket_error =
    UnsupportedEntryType
  | MultipleMeta | MetaAfterEntries | MetaAfterInitialEntry
  | EntriesOutOfOrder | DuplicateKeys
  | ProtocolExceedsMax | ShadowsNotSupported
  | OldNonDeadNewInit | OldInitNewNonDead
  | NoEntry
  | ManagerShutdown
  | AssertFailed | MissingBucket | FutureShadowsNotSupported | ClearFutureWithOldSnap

definition isMeta :: "BucketEntry \<Rightarrow> bool" where
  "isMeta e = (case e of METAENTRY _ \<Rightarrow> True | _ \<Rightarrow> False)"

definition isInit :: "BucketEntry \<Rightarrow> bool" where
  "isInit e = (case e of INITENTRY _ \<Rightarrow> True | _ \<Rightarrow> False)"

definition isDead :: "BucketEntry \<Rightarrow> bool" where
  "isDead e = (case e of DEADENTRY _ \<Rightarrow> True | _ \<Rightarrow> False)"

lemma entry_kinds [simp]:
  "isMeta (METAENTRY v)" "\<not> isMeta (LIVEENTRY l)" "\<not> isMeta (INITENTRY l)" "\<not> isMeta (DEADENTRY k)"
  "\<not> isInit (METAENTRY v)" "\<not> isInit (LIVEENTRY l)" "isInit (INITENTRY l)" "\<not> isInit (DEADENTRY k)"
  "\<not> isDead (METAENTRY v)" "\<not> isDead (LIVEENTRY l)" "\<not> isDead (INITENTRY l)" "isDead (DEADENTRY k)"
  by (simp_all add: isMeta_def isInit_def isDead_def)

definition keyOf :: "BucketEntry \<Rightarrow> LedgerKey option" where
  "keyOf e =
     (case e of
        METAENTRY _ \<Rightarrow> None
      | LIVEENTRY l \<Rightarrow> Some (LedgerEntryKey l)
      | INITENTRY l \<Rightarrow> Some (LedgerEntryKey l)
      | DEADENTRY k \<Rightarrow> Some k)"

definition BucketEntryIdCmp :: "BucketEntry \<Rightarrow> BucketEntry \<Rightarrow> bool" where
  "BucketEntryIdCmp a b =
     (case (keyOf a, keyOf b) of
        (None, None) \<Rightarrow> False
      | (None, Some _) \<Rightarrow> True
      | (Some _, None) \<Rightarrow> False
      | (Some j, Some k) \<Rightarrow> LedgerEntryIdCmp j k)"

definition checkProtocolLegality :: "BucketEntry \<Rightarrow> uint32 \<Rightarrow> bucket_error + unit" where
  "checkProtocolLegality e protocolVersion =
     (if protocolVersion < 11 \<and> (isInit e \<or> isMeta e) then Inl UnsupportedEntryType else Inr ())"

subsection \<open>Reading a bucket\<close>

record BucketInputIterator =
  mInRest :: "BucketEntry list"
  mEntry :: "BucketEntry option"
  mMetadata :: uint32
  mSeenMetadata :: bool
  mSeenOtherEntries :: bool

primrec loadEntry :: "BucketEntry list \<Rightarrow> BucketInputIterator \<Rightarrow> bucket_error + BucketInputIterator" where
  "loadEntry [] it = Inr (it\<lparr>mInRest := [], mEntry := None\<rparr>)"
| "loadEntry (e # es) it =
     (if isMeta e then
        if mSeenMetadata it then Inl MultipleMeta
        else if mSeenOtherEntries it then Inl MetaAfterEntries
        else loadEntry es (it\<lparr>mMetadata := metaVersion e, mSeenMetadata := True\<rparr>)
      else
        bindE (if mSeenMetadata it then checkProtocolLegality e (mMetadata it) else Inr ()) (\<lambda>_.
        Inr (it\<lparr>mInRest := es, mEntry := Some e, mSeenOtherEntries := True\<rparr>)))"

definition openBucket :: "Bucket \<Rightarrow> bucket_error + BucketInputIterator" where
  "openBucket b =
     loadEntry b \<lparr>mInRest = b, mEntry = None, mMetadata = 0, mSeenMetadata = False, mSeenOtherEntries = False\<rparr>"

definition advance :: "BucketInputIterator \<Rightarrow> bucket_error + BucketInputIterator" where
  "advance it = loadEntry (mInRest it) it"

definition getBucketVersion :: "Bucket \<Rightarrow> bucket_error + uint32" where
  "getBucketVersion b = bindE (openBucket b) (\<lambda>it. Inr (mMetadata it))"

primrec openAll :: "Bucket list \<Rightarrow> bucket_error + BucketInputIterator list" where
  "openAll [] = Inr []"
| "openAll (b # bs) = bindE (openBucket b) (\<lambda>it. bindE (openAll bs) (\<lambda>its. Inr (it # its)))"

subsection \<open>Writing a bucket\<close>

record BucketOutputIterator =
  mOut :: "BucketEntry list"
  mBuf :: "BucketEntry option"
  mKeepDeadEntries :: bool
  mMeta :: uint32
  mPutMeta :: bool

definition put :: "BucketOutputIterator \<Rightarrow> BucketEntry \<Rightarrow> bucket_error + BucketOutputIterator" where
  "put out e =
     bindE (checkProtocolLegality e (mMeta out)) (\<lambda>_.
     if isMeta e \<and> mPutMeta out then Inl MetaAfterInitialEntry
     else if \<not> mKeepDeadEntries out \<and> isDead e then Inr out
     else (case mBuf out of
             None \<Rightarrow> Inr (out\<lparr>mBuf := Some e\<rparr>)
           | Some b \<Rightarrow>
               if BucketEntryIdCmp e b then Inl EntriesOutOfOrder
               else Inr (out\<lparr>mOut := (if BucketEntryIdCmp b e then mOut out @ [b] else mOut out),
                             mBuf := Some e\<rparr>)))"

definition openOutput :: "bool \<Rightarrow> uint32 \<Rightarrow> bucket_error + BucketOutputIterator" where
  "openOutput keepDeadEntries version =
     (let out = \<lparr>mOut = [], mBuf = None, mKeepDeadEntries = keepDeadEntries, mMeta = version, mPutMeta = False\<rparr>
      in if 11 \<le> version
         then bindE (put out (METAENTRY version)) (\<lambda>out. Inr (out\<lparr>mPutMeta := True\<rparr>))
         else Inr out)"

definition getBucket :: "BucketOutputIterator \<Rightarrow> Bucket" where
  "getBucket out = mOut out @ (case mBuf out of None \<Rightarrow> [] | Some b \<Rightarrow> [b])"

primrec putAll :: "BucketOutputIterator \<Rightarrow> BucketEntry list \<Rightarrow> bucket_error + BucketOutputIterator" where
  "putAll out [] = Inr out"
| "putAll out (e # es) = bindE (put out e) (\<lambda>out. putAll out es)"

subsection \<open>A bucket of the changes of a ledger\<close>

primrec entrySort :: "BucketEntry list \<Rightarrow> BucketEntry list" where
  "entrySort [] = []"
| "entrySort (e # es) =
     (let s = entrySort es
      in takeWhile (\<lambda>x. BucketEntryIdCmp x e) s @ e # dropWhile (\<lambda>x. BucketEntryIdCmp x e) s)"

fun adjacentOrdered :: "BucketEntry list \<Rightarrow> bool" where
  "adjacentOrdered (a # b # es) = (BucketEntryIdCmp a b \<and> adjacentOrdered (b # es))"
| "adjacentOrdered _ = True"

definition convertToBucketEntry ::
  "bool \<Rightarrow> LedgerEntry list \<Rightarrow> LedgerEntry list \<Rightarrow> LedgerKey list \<Rightarrow> bucket_error + BucketEntry list" where
  "convertToBucketEntry useInit initEntries liveEntries deadEntries =
     (let bucket = entrySort (map (if useInit then INITENTRY else LIVEENTRY) initEntries
                              @ map LIVEENTRY liveEntries @ map DEADENTRY deadEntries)
      in if adjacentOrdered bucket then Inr bucket else Inl DuplicateKeys)"

definition fresh ::
  "uint32 \<Rightarrow> LedgerEntry list \<Rightarrow> LedgerEntry list \<Rightarrow> LedgerKey list \<Rightarrow> bucket_error + Bucket" where
  "fresh protocolVersion initEntries liveEntries deadEntries =
     bindE (convertToBucketEntry (11 \<le> protocolVersion) initEntries liveEntries deadEntries) (\<lambda>entries.
     bindE (openOutput True protocolVersion) (\<lambda>out.
     bindE (putAll out entries) (\<lambda>out.
     Inr (getBucket out))))"

subsection \<open>Merging: what is put\<close>

definition iterLeft :: "BucketInputIterator \<Rightarrow> nat" where
  "iterLeft it = length (mInRest it) + (case mEntry it of None \<Rightarrow> 0 | Some _ \<Rightarrow> 1)"

lemma loadEntry_left: "loadEntry es it = Inr it' \<Longrightarrow> iterLeft it' \<le> length es"
  by (induction es arbitrary: it) (fastforce simp: iterLeft_def split: if_splits)+

lemma advance_left: "advance it = Inr it' \<Longrightarrow> mEntry it = Some e \<Longrightarrow> iterLeft it' < iterLeft it"
  by (fastforce simp: advance_def iterLeft_def dest: loadEntry_left)

text \<open>The loop that moves a shadow iterator up to the entry.\<close>

function skipBelow :: "BucketEntry \<Rightarrow> BucketInputIterator \<Rightarrow> bucket_error + BucketInputIterator" where
  "skipBelow entry si =
     (case mEntry si of
        None \<Rightarrow> Inr si
      | Some s \<Rightarrow> if BucketEntryIdCmp s entry then bindE (advance si) (\<lambda>si. skipBelow entry si) else Inr si)"
  by pat_completeness auto

termination
  by (relation "measure (\<lambda>(entry, si). iterLeft si)") (auto dest: advance_left)

declare skipBelow.simps [simp del]

text \<open>The scan of the shadows: whether the entry is in one, and the iterators as they are left.\<close>

primrec scanShadows ::
  "BucketEntry \<Rightarrow> BucketInputIterator list \<Rightarrow> bucket_error + bool \<times> BucketInputIterator list" where
  "scanShadows entry [] = Inr (False, [])"
| "scanShadows entry (si # sis) =
     bindE (skipBelow entry si) (\<lambda>si.
     if (case mEntry si of None \<Rightarrow> False | Some s \<Rightarrow> \<not> BucketEntryIdCmp entry s) then Inr (True, si # sis)
     else bindE (scanShadows entry sis) (\<lambda>(found, sis). Inr (found, si # sis)))"

definition maybePut ::
  "BucketOutputIterator \<Rightarrow> BucketEntry \<Rightarrow> BucketInputIterator list \<Rightarrow> bool \<Rightarrow>
   bucket_error + BucketOutputIterator \<times> BucketInputIterator list" where
  "maybePut out entry shadowIterators keepShadowedLifecycleEntries =
     (if keepShadowedLifecycleEntries \<and> (isInit entry \<or> isDead entry)
      then bindE (put out entry) (\<lambda>out. Inr (out, shadowIterators))
      else
        bindE (scanShadows entry shadowIterators) (\<lambda>(shadowed, shadowIterators).
        if shadowed then Inr (out, shadowIterators)
        else bindE (put out entry) (\<lambda>out. Inr (out, shadowIterators))))"

subsection \<open>Merging: the two inputs\<close>

primrec maxShadowVersion :: "BucketInputIterator list \<Rightarrow> uint32 \<Rightarrow> uint32" where
  "maxShadowVersion [] protocolVersion = protocolVersion"
| "maxShadowVersion (si # sis) protocolVersion =
     maxShadowVersion sis
       (if mMetadata si < 12 then max (mMetadata si) protocolVersion else protocolVersion)"

definition calculateMergeProtocolVersion ::
  "uint32 \<Rightarrow> BucketInputIterator \<Rightarrow> BucketInputIterator \<Rightarrow> BucketInputIterator list \<Rightarrow>
   bucket_error + uint32 \<times> bool" where
  "calculateMergeProtocolVersion maxProtocolVersion oi ni shadowIterators =
     (let protocolVersion = maxShadowVersion shadowIterators (max (mMetadata oi) (mMetadata ni))
      in if maxProtocolVersion < protocolVersion then Inl ProtocolExceedsMax
         else if 12 \<le> protocolVersion \<and> shadowIterators \<noteq> [] then Inl ShadowsNotSupported
         else Inr (protocolVersion, 11 \<le> protocolVersion))"

record MergeState =
  mergeOi :: BucketInputIterator
  mergeNi :: BucketInputIterator
  mergeOut :: BucketOutputIterator
  mergeShadows :: "BucketInputIterator list"

definition entryLess :: "BucketEntry option \<Rightarrow> BucketEntry option \<Rightarrow> bool" where
  "entryLess a b = (case (a, b) of (Some x, Some y) \<Rightarrow> BucketEntryIdCmp x y | _ \<Rightarrow> False)"

definition currentEntry :: "BucketInputIterator \<Rightarrow> bucket_error + BucketEntry" where
  "currentEntry it = (case mEntry it of None \<Rightarrow> Inl NoEntry | Some e \<Rightarrow> Inr e)"

definition mergePut :: "MergeState \<Rightarrow> BucketEntry \<Rightarrow> bool \<Rightarrow> bucket_error + MergeState" where
  "mergePut s e keepShadowedLifecycleEntries =
     bindE (maybePut (mergeOut s) e (mergeShadows s) keepShadowedLifecycleEntries) (\<lambda>(out, shadows).
     Inr (s\<lparr>mergeOut := out, mergeShadows := shadows\<rparr>))"

definition mergeCasesWithDefaultAcceptance ::
  "uint32 \<Rightarrow> bool \<Rightarrow> MergeState \<Rightarrow> bucket_error + bool \<times> MergeState" where
  "mergeCasesWithDefaultAcceptance protocolVersion keepShadowedLifecycleEntries s =
     (let oi = mergeOi s; ni = mergeNi s in
      if mEntry ni = None \<or> entryLess (mEntry oi) (mEntry ni) then
        bindE (currentEntry oi) (\<lambda>e.
        bindE (checkProtocolLegality e protocolVersion) (\<lambda>_.
        bindE (mergePut s e keepShadowedLifecycleEntries) (\<lambda>s.
        bindE (advance oi) (\<lambda>oi.
        Inr (True, s\<lparr>mergeOi := oi\<rparr>)))))
      else if mEntry oi = None \<or> entryLess (mEntry ni) (mEntry oi) then
        bindE (currentEntry ni) (\<lambda>e.
        bindE (checkProtocolLegality e protocolVersion) (\<lambda>_.
        bindE (mergePut s e keepShadowedLifecycleEntries) (\<lambda>s.
        bindE (advance ni) (\<lambda>ni.
        Inr (True, s\<lparr>mergeNi := ni\<rparr>)))))
      else Inr (False, s))"

text \<open>With equal keys and neither entry INIT the newer one is taken; the table of the code gives the rest.\<close>

definition mergeCasesWithEqualKeys :: "uint32 \<Rightarrow> bool \<Rightarrow> MergeState \<Rightarrow> bucket_error + MergeState" where
  "mergeCasesWithEqualKeys protocolVersion keepShadowedLifecycleEntries s =
     bindE (currentEntry (mergeOi s)) (\<lambda>oldEntry.
     bindE (currentEntry (mergeNi s)) (\<lambda>newEntry.
     bindE (checkProtocolLegality oldEntry protocolVersion) (\<lambda>_.
     bindE (checkProtocolLegality newEntry protocolVersion) (\<lambda>_.
     bindE (case newEntry of
              INITENTRY l \<Rightarrow>
                if \<not> isDead oldEntry then Inl OldNonDeadNewInit
                else mergePut s (LIVEENTRY l) keepShadowedLifecycleEntries
            | _ \<Rightarrow>
                if isInit oldEntry then
                  (case newEntry of
                     LIVEENTRY l \<Rightarrow> mergePut s (INITENTRY l) keepShadowedLifecycleEntries
                   | _ \<Rightarrow> if \<not> isDead newEntry then Inl OldInitNewNonDead else Inr s)
                else mergePut s newEntry keepShadowedLifecycleEntries) (\<lambda>s.
     bindE (advance (mergeOi s)) (\<lambda>oi.
     bindE (advance (mergeNi s)) (\<lambda>ni.
     Inr (s\<lparr>mergeOi := oi, mergeNi := ni\<rparr>))))))))"

subsection \<open>Merging: the loop\<close>

definition mergeLeft :: "MergeState \<Rightarrow> nat" where
  "mergeLeft s = iterLeft (mergeOi s) + iterLeft (mergeNi s)"

lemma mergePut_iters:
  "mergePut s e k = Inr s' \<Longrightarrow> mergeOi s' = mergeOi s \<and> mergeNi s' = mergeNi s"
  by (auto simp: mergePut_def)

lemma currentEntry_left: "currentEntry it = Inr e \<Longrightarrow> advance it = Inr it' \<Longrightarrow> iterLeft it' < iterLeft it"
  by (auto simp: currentEntry_def dest: advance_left split: option.splits)

lemma default_left:
  "mergeCasesWithDefaultAcceptance v k s = Inr (True, s') \<Longrightarrow> mergeLeft s' < mergeLeft s"
  by (auto simp: mergeCasesWithDefaultAcceptance_def Let_def mergeLeft_def
      dest!: mergePut_iters currentEntry_left split: if_splits)

lemma default_same: "mergeCasesWithDefaultAcceptance v k s = Inr (False, s') \<Longrightarrow> s' = s"
  by (auto simp: mergeCasesWithDefaultAcceptance_def Let_def split: if_splits)

lemma equal_left:
  assumes "mergeCasesWithEqualKeys v k s = Inr s'"
  shows "mergeLeft s' < mergeLeft s"
proof -
  obtain a b t oi ni where ab: "currentEntry (mergeOi s) = Inr a" "currentEntry (mergeNi s) = Inr b"
    and t: "mergeOi t = mergeOi s" "mergeNi t = mergeNi s"
    and adv: "advance (mergeOi t) = Inr oi" "advance (mergeNi t) = Inr ni"
    and s': "s' = t\<lparr>mergeOi := oi, mergeNi := ni\<rparr>"
    using assms
    by (auto simp: mergeCasesWithEqualKeys_def dest: mergePut_iters
        split: BucketEntry.splits if_splits)
  show ?thesis
    using currentEntry_left [OF ab(1)] currentEntry_left [OF ab(2)] adv t s' by (fastforce simp: mergeLeft_def)
qed

text \<open>
  The loop of \<open>merge\<close>: \<open>iter\<close> counts the rounds since the manager was last asked whether it is shut down,
  \<open>asked\<close> how often it was asked; \<open>isShutdown\<close> gives its answers.
\<close>

function mergeLoop ::
  "(nat \<Rightarrow> bool) \<Rightarrow> uint32 \<Rightarrow> bool \<Rightarrow> nat \<Rightarrow> nat \<Rightarrow> MergeState \<Rightarrow> bucket_error + MergeState" where
  "mergeLoop isShutdown protocolVersion keepShadowedLifecycleEntries asked iter s =
     (if mEntry (mergeOi s) = None \<and> mEntry (mergeNi s) = None then Inr s
      else if iter + 1 \<ge> 1000 \<and> isShutdown asked then Inl ManagerShutdown
      else
        let iter' = (if iter + 1 \<ge> 1000 then 0 else iter + 1);
            asked' = (if iter + 1 \<ge> 1000 then asked + 1 else asked)
        in bindE (mergeCasesWithDefaultAcceptance protocolVersion keepShadowedLifecycleEntries s) (\<lambda>r.
           if fst r then mergeLoop isShutdown protocolVersion keepShadowedLifecycleEntries asked' iter' (snd r)
           else
             bindE (mergeCasesWithEqualKeys protocolVersion keepShadowedLifecycleEntries (snd r)) (\<lambda>s.
             mergeLoop isShutdown protocolVersion keepShadowedLifecycleEntries asked' iter' s)))"
  by pat_completeness auto

termination
proof (relation "measure (\<lambda>(_, _, _, _, _, s). mergeLeft s)", goal_cases)
  case (2 sh v k asked iter s iter' asked' r)
  then show ?case using default_left [of v k s "snd r"] by (cases r) auto
next
  case (3 sh v k asked iter s iter' asked' r s')
  then show ?case using default_same [of v k s "snd r"] equal_left [of v k s s'] by (cases r) auto
qed simp

declare mergeLoop.simps [simp del]

definition merge ::
  "(nat \<Rightarrow> bool) \<Rightarrow> uint32 \<Rightarrow> Bucket \<Rightarrow> Bucket \<Rightarrow> Bucket list \<Rightarrow> bool \<Rightarrow> bucket_error + Bucket" where
  "merge isShutdown maxProtocolVersion oldBucket newBucket shadows keepDeadEntries =
     bindE (openBucket oldBucket) (\<lambda>oi.
     bindE (openBucket newBucket) (\<lambda>ni.
     bindE (openAll shadows) (\<lambda>shadowIterators.
     bindE (calculateMergeProtocolVersion maxProtocolVersion oi ni shadowIterators)
       (\<lambda>(protocolVersion, keepShadowedLifecycleEntries).
     bindE (openOutput keepDeadEntries protocolVersion) (\<lambda>out.
     bindE (mergeLoop isShutdown protocolVersion keepShadowedLifecycleEntries 0 0
              \<lparr>mergeOi = oi, mergeNi = ni, mergeOut = out, mergeShadows = shadowIterators\<rparr>) (\<lambda>s.
     Inr (getBucket (mergeOut s))))))))"

end
