(* ===== verification/BucketMerge.thy ===== *)
theory BucketMerge
  imports Bucket
begin

text \<open>
  What \<open>merge\<close> computes: the two sorted bodies are zipped by key, entries with the same key are
  combined by the table of the code, shadowed entries and (on request) tombstones are dropped. The
  bucket that results acts on a ledger as the old bucket followed by the new one.
\<close>

subsection \<open>Well-formed buckets\<close>

definition entryKey :: "BucketEntry \<Rightarrow> LedgerKey" where
  "entryKey e = (case keyOf e of Some k \<Rightarrow> k | None \<Rightarrow> ACCOUNT 0)"

definition legalEntry :: "uint32 \<Rightarrow> BucketEntry \<Rightarrow> bool" where
  "legalEntry v e \<longleftrightarrow> \<not> isMeta e \<and> (isInit e \<longrightarrow> 11 \<le> v)"

definition sortedBody :: "BucketEntry list \<Rightarrow> bool" where
  "sortedBody es \<longleftrightarrow> sorted_wrt (\<lambda>a b. entryKey a < entryKey b) es"

definition bodyOk :: "uint32 \<Rightarrow> BucketEntry list \<Rightarrow> bool" where
  "bodyOk v es \<longleftrightarrow> sortedBody es \<and> (\<forall>e\<in>set es. legalEntry v e)"

text \<open>A bucket written at version \<open>v\<close>: before version 11 there is no META entry, and it reads as version 0.\<close>

definition bucketOf :: "uint32 \<Rightarrow> BucketEntry list \<Rightarrow> Bucket" where
  "bucketOf v es = (if 11 \<le> v then METAENTRY v # es else es)"

definition readVersion :: "uint32 \<Rightarrow> uint32" where
  "readVersion v = (if 11 \<le> v then v else 0)"

subsection \<open>What a bucket means\<close>

type_synonym LedgerState = "LedgerKey \<rightharpoonup> LedgerEntry"

fun applyEntry :: "BucketEntry \<Rightarrow> LedgerState \<Rightarrow> LedgerState" where
  "applyEntry (METAENTRY _) m = m"
| "applyEntry (LIVEENTRY l) m = m(LedgerEntryKey l \<mapsto> l)"
| "applyEntry (INITENTRY l) m = m(LedgerEntryKey l \<mapsto> l)"
| "applyEntry (DEADENTRY k) m = m(k := None)"

definition applyBucket :: "Bucket \<Rightarrow> LedgerState \<Rightarrow> LedgerState" where
  "applyBucket b m = fold applyEntry b m"

text \<open>An INIT entry is only written where the older state has no entry.\<close>

definition initsFresh :: "BucketEntry list \<Rightarrow> LedgerState \<Rightarrow> bool" where
  "initsFresh es m \<longleftrightarrow> (\<forall>e\<in>set es. isInit e \<longrightarrow> m (entryKey e) = None)"

definition valueOf :: "BucketEntry \<Rightarrow> LedgerEntry option" where
  "valueOf e = (case e of LIVEENTRY l \<Rightarrow> Some l | INITENTRY l \<Rightarrow> Some l | _ \<Rightarrow> None)"

definition lookupIn :: "BucketEntry list \<Rightarrow> LedgerKey \<Rightarrow> BucketEntry option" where
  "lookupIn es k = find (\<lambda>e. entryKey e = k) es"

lemma lookupIn_simps [simp]:
  "lookupIn [] k = None"
  "lookupIn (e # es) k = (if entryKey e = k then Some e else lookupIn es k)"
  by (simp_all add: lookupIn_def)

lemma lookupIn_None: "lookupIn es k = None \<longleftrightarrow> k \<notin> entryKey ` set es"
  by (induction es) auto

lemma lookupIn_Some: "lookupIn es k = Some e \<Longrightarrow> e \<in> set es \<and> entryKey e = k"
  by (induction es) (auto split: if_splits)

lemma lookupIn_mem: "sortedBody es \<Longrightarrow> e \<in> set es \<Longrightarrow> lookupIn es (entryKey e) = Some e"
  by (induction es) (auto simp: sortedBody_def)

lemma lookupIn_filter:
  "sortedBody es \<Longrightarrow>
   lookupIn (filter P es) k = (case lookupIn es k of None \<Rightarrow> None | Some e \<Rightarrow> if P e then Some e else None)"
proof (induction es)
  case (Cons e es)
  have "lookupIn es (entryKey e) = None" "lookupIn (filter P es) (entryKey e) = None"
    using Cons.prems by (auto simp: sortedBody_def lookupIn_None)
  with Cons show ?case by (auto simp: sortedBody_def)
qed simp

lemma applyEntry_at:
  "\<not> isMeta e \<Longrightarrow> applyEntry e m k = (if k = entryKey e then valueOf e else m k)"
  by (cases e) (auto simp: isMeta_def entryKey_def keyOf_def valueOf_def)

lemma applyBucket_Cons [simp]: "applyBucket (e # es) m = applyBucket es (applyEntry e m)"
  by (simp add: applyBucket_def)

lemma applyBucket_Nil [simp]: "applyBucket [] m = m"
  by (simp add: applyBucket_def)

lemma applyBucket_at:
  "sortedBody es \<Longrightarrow> \<forall>e\<in>set es. \<not> isMeta e \<Longrightarrow>
   applyBucket es m k = (case lookupIn es k of None \<Rightarrow> m k | Some e \<Rightarrow> valueOf e)"
proof (induction es arbitrary: m)
  case (Cons e es)
  then have "lookupIn es k = None" if "k = entryKey e"
    using that by (auto simp: sortedBody_def lookupIn_None)
  with Cons show ?case by (auto simp: sortedBody_def applyEntry_at split: option.splits)
qed simp

lemma applyBucket_bucketOf [simp]: "applyBucket (bucketOf v es) m = applyBucket es m"
  by (simp add: bucketOf_def)

lemma cmp_key: "\<not> isMeta a \<Longrightarrow> \<not> isMeta b \<Longrightarrow> BucketEntryIdCmp a b \<longleftrightarrow> entryKey a < entryKey b"
  by (cases a; cases b)
    (auto simp: BucketEntryIdCmp_def entryKey_def keyOf_def isMeta_def less_LedgerKey_def)

lemma cmp_meta: "isMeta a \<Longrightarrow> \<not> isMeta b \<Longrightarrow> BucketEntryIdCmp a b"
  by (cases a; cases b) (auto simp: BucketEntryIdCmp_def keyOf_def isMeta_def)

lemma cmp_asym: "BucketEntryIdCmp a b \<Longrightarrow> \<not> BucketEntryIdCmp b a"
  by (auto simp: BucketEntryIdCmp_def LedgerEntryIdCmp_tuple split: option.splits)

lemma sortedBody_Cons [simp]:
  "sortedBody (e # es) \<longleftrightarrow> (\<forall>x\<in>set es. entryKey e < entryKey x) \<and> sortedBody es"
  by (simp add: sortedBody_def)

lemma sortedBody_Nil [simp]: "sortedBody []"
  by (simp add: sortedBody_def)

lemma bodyOk_Nil [simp]: "bodyOk v []"
  by (simp add: bodyOk_def)

lemma bodyOk_Cons [simp]:
  "bodyOk v (e # es) \<longleftrightarrow> legalEntry v e \<and> (\<forall>x\<in>set es. entryKey e < entryKey x) \<and> bodyOk v es"
  by (auto simp: bodyOk_def)

subsection \<open>Reading\<close>

definition iterAt :: "BucketEntry list \<Rightarrow> BucketInputIterator \<Rightarrow> bool" where
  "iterAt es it \<longleftrightarrow>
     mEntry it = (case es of [] \<Rightarrow> None | e # _ \<Rightarrow> Some e) \<and> mInRest it = tl es \<and>
     (\<forall>e\<in>set es. \<not> isMeta e \<and> (mSeenMetadata it \<and> mMetadata it < 11 \<longrightarrow> \<not> isInit e))"

lemma iterAt_entry:
  "iterAt [] it \<Longrightarrow> mEntry it = None"
  "iterAt (e # es) it \<Longrightarrow> mEntry it = Some e"
  by (simp_all add: iterAt_def)

lemma loadEntry_at:
  assumes "\<forall>e\<in>set es. \<not> isMeta e \<and> (mSeenMetadata it \<and> mMetadata it < 11 \<longrightarrow> \<not> isInit e)"
  shows "\<exists>it'. loadEntry es it = Inr it' \<and> iterAt es it' \<and> mMetadata it' = mMetadata it"
  using assms by (cases es) (auto simp: iterAt_def checkProtocolLegality_def)

lemma advance_at:
  assumes "iterAt (e # es) it"
  shows "\<exists>it'. advance it = Inr it' \<and> iterAt es it' \<and> mMetadata it' = mMetadata it"
  using assms loadEntry_at [of es it] by (auto simp: iterAt_def advance_def)

lemma openBucket_at:
  assumes "bodyOk v es"
  shows "\<exists>it. openBucket (bucketOf v es) = Inr it \<and> iterAt es it \<and> mMetadata it = readVersion v"
proof -
  have n: "\<forall>e\<in>set es. \<not> isMeta e" "11 \<le> v \<or> (\<forall>e\<in>set es. \<not> isInit e)"
    using assms by (auto simp: bodyOk_def legalEntry_def)
  show ?thesis
  proof (cases "11 \<le> v")
    case True
    then show ?thesis
      using loadEntry_at [of es "\<lparr>mInRest = METAENTRY v # es, mEntry = None, mMetadata = v,
         mSeenMetadata = True, mSeenOtherEntries = False\<rparr>"] n
      by (simp add: openBucket_def bucketOf_def readVersion_def) (use leD in blast)
  next
    case False
    then show ?thesis
      using loadEntry_at [of es "\<lparr>mInRest = es, mEntry = None, mMetadata = 0,
         mSeenMetadata = False, mSeenOtherEntries = False\<rparr>"] n
      by (auto simp: openBucket_def bucketOf_def readVersion_def)
  qed
qed

subsection \<open>Writing\<close>

definition outAt :: "bool \<Rightarrow> uint32 \<Rightarrow> Bucket \<Rightarrow> BucketOutputIterator \<Rightarrow> bool" where
  "outAt keepDead v written out \<longleftrightarrow>
     mOut out = butlast written \<and> mBuf out = (if written = [] then None else Some (last written)) \<and>
     mKeepDeadEntries out = keepDead \<and> mMeta out = v"

definition fileBelow :: "Bucket \<Rightarrow> BucketEntry \<Rightarrow> bool" where
  "fileBelow written e \<longleftrightarrow> written = [] \<or> BucketEntryIdCmp (last written) e"

lemma getBucket_at: "outAt keepDead v written out \<Longrightarrow> getBucket out = written"
  by (auto simp: outAt_def getBucket_def)

lemma put_at:
  assumes "outAt keepDead v written out" "legalEntry v e" "fileBelow written e"
  shows "\<exists>out'. put out e = Inr out' \<and>
           outAt keepDead v (if keepDead \<or> \<not> isDead e then written @ [e] else written) out'"
proof -
  have c: "checkProtocolLegality e (mMeta out) = Inr ()" "\<not> isMeta e"
    using assms by (auto simp: checkProtocolLegality_def legalEntry_def outAt_def)
  show ?thesis
  proof (cases "\<not> mKeepDeadEntries out \<and> isDead e")
    case True
    then show ?thesis using c assms(1) by (auto simp: put_def outAt_def)
  next
    case False
    then show ?thesis
      using c assms cmp_asym [of "last written" e]
      by (cases "written = []") (auto simp: put_def outAt_def fileBelow_def)
  qed
qed

lemma openOutput_at:
  "\<exists>out. openOutput keepDead v = Inr out \<and> outAt keepDead v (bucketOf v []) out"
  by (cases "11 \<le> v")
    (simp_all add: openOutput_def Let_def put_def checkProtocolLegality_def outAt_def bucketOf_def not_less)

lemma fileBelow_start: "\<not> isMeta e \<Longrightarrow> fileBelow (bucketOf v []) e"
  using cmp_meta [of "METAENTRY v" e] by (auto simp: fileBelow_def bucketOf_def isMeta_def)

lemma fileBelow_less:
  "\<not> isMeta a \<Longrightarrow> \<not> isMeta e \<Longrightarrow> entryKey a < entryKey e \<Longrightarrow> fileBelow written e \<Longrightarrow>
   fileBelow (if c then written @ [a] else written) e"
  by (simp add: fileBelow_def cmp_key)

subsection \<open>Shadows\<close>

definition shadowKeys :: "BucketEntry list list \<Rightarrow> LedgerKey set" where
  "shadowKeys Ss = (\<Union>S\<in>set Ss. entryKey ` set S)"

text \<open>A shadow iterator has only passed entries below \<open>k\<close>.\<close>

definition shadowAt :: "LedgerKey \<Rightarrow> BucketEntry list \<Rightarrow> BucketInputIterator \<Rightarrow> bool" where
  "shadowAt k S it \<longleftrightarrow>
     (\<exists>pre suf. S = pre @ suf \<and> iterAt suf it \<and> sortedBody suf \<and> (\<forall>p\<in>set pre. entryKey p < k))"

lemma shadowAt_mono: "shadowAt j S it \<Longrightarrow> j \<le> k \<Longrightarrow> shadowAt k S it"
  unfolding shadowAt_def by (elim exE conjE) (intro exI conjI; auto)

lemma skipBelow_at:
  assumes "iterAt suf it" "sortedBody suf" "\<forall>p\<in>set pre. entryKey p < entryKey e" "\<not> isMeta e"
  shows "\<exists>it' pre' suf'. skipBelow e it = Inr it' \<and> pre @ suf = pre' @ suf' \<and> iterAt suf' it' \<and>
           sortedBody suf' \<and> (\<forall>p\<in>set pre'. entryKey p < entryKey e) \<and>
           (suf' = [] \<or> \<not> entryKey (hd suf') < entryKey e)"
  using assms
proof (induction suf arbitrary: it pre)
  case Nil
  then have "skipBelow e it = Inr it" by (simp add: skipBelow.simps iterAt_entry)
  with Nil show ?case by (metis sortedBody_Nil)
next
  case (Cons s suf)
  have m: "\<not> isMeta s" using Cons.prems(1) by (simp add: iterAt_def)
  show ?case
  proof (cases "entryKey s < entryKey e")
    case True
    obtain it1 where it1: "advance it = Inr it1" "iterAt suf it1" using advance_at Cons.prems(1) by blast
    have "skipBelow e it = skipBelow e it1"
      using Cons.prems it1 True m iterAt_entry(2) [OF Cons.prems(1)]
      by (subst skipBelow.simps) (simp add: cmp_key)
    moreover have "\<forall>p\<in>set (pre @ [s]). entryKey p < entryKey e" using Cons.prems(3) True by auto
    ultimately show ?thesis
      using Cons.IH [OF it1(2) _ _ Cons.prems(4), of "pre @ [s]"] Cons.prems(2) by simp
  next
    case False
    have "skipBelow e it = Inr it"
      using Cons.prems False m iterAt_entry(2) [OF Cons.prems(1)]
      by (subst skipBelow.simps) (simp add: cmp_key)
    with False Cons.prems show ?thesis by (metis list.sel(1))
  qed
qed

lemma suffix_key:
  assumes "S = pre @ suf" "\<forall>p\<in>set pre. entryKey p < k" "sortedBody suf" "suf = [] \<or> \<not> entryKey (hd suf) < k"
  shows "k \<in> entryKey ` set S \<longleftrightarrow> suf \<noteq> [] \<and> \<not> k < entryKey (hd suf)"
  using assms by (cases suf) (auto simp: image_iff)

lemma scanShadows_at:
  assumes "list_all2 (shadowAt (entryKey e)) Ss sis" "\<not> isMeta e"
  shows "\<exists>sis'. scanShadows e sis = Inr (entryKey e \<in> shadowKeys Ss, sis') \<and>
           list_all2 (shadowAt (entryKey e)) Ss sis'"
  using assms(1)
proof (induction rule: list_all2_induct)
  case Nil
  show ?case by (simp add: shadowKeys_def)
next
  case (Cons S Ss si sis)
  obtain pre suf where S: "S = pre @ suf" "iterAt suf si" "sortedBody suf" "\<forall>p\<in>set pre. entryKey p < entryKey e"
    using Cons.hyps(1) by (auto simp: shadowAt_def)
  obtain si' pre' suf' where s': "skipBelow e si = Inr si'" "S = pre' @ suf'" "iterAt suf' si'" "sortedBody suf'"
    "\<forall>p\<in>set pre'. entryKey p < entryKey e" "suf' = [] \<or> \<not> entryKey (hd suf') < entryKey e"
    using skipBelow_at [OF S(2-4) assms(2)] S(1) by blast
  have at: "shadowAt (entryKey e) S si'" using s' by (auto simp: shadowAt_def)
  have hit: "(case mEntry si' of None \<Rightarrow> False | Some s \<Rightarrow> \<not> BucketEntryIdCmp e s) \<longleftrightarrow> entryKey e \<in> entryKey ` set S"
  proof -
    have "\<not> isMeta (hd suf')" if "suf' \<noteq> []" using that s'(3) by (cases suf') (auto simp: iterAt_def)
    then show ?thesis
      using suffix_key [OF s'(2,5,4,6)] s'(3) assms(2) by (cases suf') (auto simp: iterAt_def cmp_key)
  qed
  have keys: "shadowKeys (S # Ss) = entryKey ` set S \<union> shadowKeys Ss" by (simp add: shadowKeys_def)
  show ?case
  proof (cases "entryKey e \<in> entryKey ` set S")
    case True
    then show ?thesis using s'(1) hit at Cons.hyps keys by simp
  next
    case False
    then show ?thesis using s'(1) hit at Cons.IH keys by auto
  qed
qed

subsection \<open>What a merge puts\<close>

text \<open>The table of the code for two entries with the same key; \<open>None\<close>: nothing is put.\<close>

fun mergeEqual :: "BucketEntry \<Rightarrow> BucketEntry \<Rightarrow> BucketEntry option" where
  "mergeEqual (DEADENTRY _) (INITENTRY x) = Some (LIVEENTRY x)"
| "mergeEqual (INITENTRY _) (LIVEENTRY y) = Some (INITENTRY y)"
| "mergeEqual (INITENTRY _) (DEADENTRY _) = None"
| "mergeEqual _ n = Some n"

fun mergePuts :: "BucketEntry list \<Rightarrow> BucketEntry list \<Rightarrow> BucketEntry list" where
  "mergePuts [] ns = ns"
| "mergePuts (x # xs) [] = x # xs"
| "mergePuts (x # xs) (y # ys) =
     (if entryKey x < entryKey y then x # mergePuts xs (y # ys)
      else if entryKey y < entryKey x then y # mergePuts (x # xs) ys
      else (case mergeEqual x y of None \<Rightarrow> [] | Some e \<Rightarrow> [e]) @ mergePuts xs ys)"

definition keepPut :: "bool \<Rightarrow> bool \<Rightarrow> LedgerKey set \<Rightarrow> BucketEntry \<Rightarrow> bool" where
  "keepPut keepLife keepDead shadowed e \<longleftrightarrow>
     (keepLife \<and> (isInit e \<or> isDead e) \<or> entryKey e \<notin> shadowed) \<and> (keepDead \<or> \<not> isDead e)"

text \<open>No INIT entry meets an older entry that is not a tombstone: the merge has no reason to throw.\<close>

definition compatible :: "BucketEntry list \<Rightarrow> BucketEntry list \<Rightarrow> bool" where
  "compatible xs ys \<longleftrightarrow> (\<forall>x\<in>set xs. \<forall>y\<in>set ys. entryKey x = entryKey y \<and> isInit y \<longrightarrow> isDead x)"

lemma mergeEqual_Some:
  assumes "mergeEqual x y = Some e" "entryKey x = entryKey y" "legalEntry v x" "legalEntry v y"
  shows "entryKey e = entryKey y \<and> legalEntry v e"
  using assms by (cases x; cases y) (auto simp: entryKey_def keyOf_def legalEntry_def)

lemma mergeEqual_key: "mergeEqual x y = Some e \<Longrightarrow> entryKey x = entryKey y \<Longrightarrow> entryKey e = entryKey y"
  by (cases x; cases y) (auto simp: entryKey_def keyOf_def)

lemma mergePuts_keys:
  assumes "\<forall>a\<in>set xs. P (entryKey a)" "\<forall>a\<in>set ys. P (entryKey a)"
  shows "\<forall>e\<in>set (mergePuts xs ys). P (entryKey e)"
  using assms
proof (induction xs ys rule: mergePuts.induct)
  case (3 x xs y ys)
  consider "entryKey x < entryKey y" | "entryKey y < entryKey x" | "entryKey x = entryKey y"
    by (rule linorder_cases)
  then show ?case
  proof cases
    case 1
    then show ?thesis using "3.IH"(1) "3.prems" by simp
  next
    case 2
    then have "\<not> entryKey x < entryKey y" by simp
    with 2 show ?thesis using "3.IH"(2) "3.prems" by simp
  next
    case eq: 3
    then have "\<forall>e\<in>set (mergePuts xs ys). P (entryKey e)" using "3.IH"(3) "3.prems" by simp
    with eq show ?thesis using mergeEqual_key [of x y] "3.prems" by (cases "mergeEqual x y") simp_all
  qed
qed simp_all

lemma mergePuts_ok:
  "bodyOk v xs \<Longrightarrow> bodyOk v ys \<Longrightarrow> bodyOk v (mergePuts xs ys)"
proof (induction xs ys rule: mergePuts.induct)
  case (3 x xs y ys)
  note below = mergePuts_keys [where P = "\<lambda>k. _ < k"]
  consider "entryKey x < entryKey y" | "entryKey y < entryKey x" | "entryKey x = entryKey y"
    by (rule linorder_cases)
  then show ?case
  proof cases
    case 1
    have "bodyOk v (mergePuts xs (y # ys))" using "3.IH"(1) [OF 1] "3.prems" by simp
    moreover have "\<forall>e\<in>set (mergePuts xs (y # ys)). entryKey x < entryKey e"
      by (rule below) (use "3.prems" 1 in \<open>auto intro: less_trans\<close>)
    ultimately show ?thesis using "3.prems" 1 by simp
  next
    case 2
    then have n: "\<not> entryKey x < entryKey y" by simp
    have "bodyOk v (mergePuts (x # xs) ys)" using "3.IH"(2) [OF n 2] "3.prems" by simp
    moreover have "\<forall>e\<in>set (mergePuts (x # xs) ys). entryKey y < entryKey e"
      by (rule below) (use "3.prems" 2 in \<open>auto intro: less_trans\<close>)
    ultimately show ?thesis using "3.prems" 2 n by simp
  next
    case eq: 3
    then have n: "\<not> entryKey x < entryKey y" "\<not> entryKey y < entryKey x" by simp_all
    have "bodyOk v (mergePuts xs ys)" using "3.IH"(3) [OF n] "3.prems" by simp
    moreover have "\<forall>e\<in>set (mergePuts xs ys). entryKey y < entryKey e"
      by (rule below) (use "3.prems" eq in simp_all)
    ultimately show ?thesis
      using mergeEqual_Some [of x y _ v] "3.prems" eq by (cases "mergeEqual x y") simp_all
  qed
qed simp_all

subsection \<open>The loop puts what it should\<close>

text \<open>The output is below the entries to come, and no shadow iterator has passed them.\<close>

definition readyFor :: "BucketEntry list list \<Rightarrow> Bucket \<Rightarrow> MergeState \<Rightarrow> LedgerKey \<Rightarrow> bool" where
  "readyFor Ss written s k \<longleftrightarrow>
     (\<forall>e. entryKey e = k \<and> \<not> isMeta e \<longrightarrow> fileBelow written e) \<and> list_all2 (shadowAt k) Ss (mergeShadows s)"

definition kept :: "bool \<Rightarrow> bool \<Rightarrow> BucketEntry list list \<Rightarrow> BucketEntry list \<Rightarrow> BucketEntry list" where
  "kept keepLife keepDead Ss es = filter (keepPut keepLife keepDead (shadowKeys Ss)) es"

lemma fileBelow_append:
  "\<not> isMeta e \<Longrightarrow> \<not> isMeta f \<Longrightarrow> entryKey e < entryKey f \<Longrightarrow> fileBelow written f \<Longrightarrow>
   fileBelow (written @ kept l d Ss [e]) f"
  by (simp add: kept_def fileBelow_def cmp_key)

lemma shadowsAt_mono:
  "list_all2 (shadowAt j) Ss sis \<Longrightarrow> j \<le> k \<Longrightarrow> list_all2 (shadowAt k) Ss sis"
  by (erule list_all2_mono) (rule shadowAt_mono)

lemma maybePut_at:
  assumes "outAt keepDead v written out" "legalEntry v e" "fileBelow written e"
    and "list_all2 (shadowAt (entryKey e)) Ss sis"
  shows "\<exists>out' sis'. maybePut out e sis keepLife = Inr (out', sis') \<and>
           outAt keepDead v (written @ kept keepLife keepDead Ss [e]) out' \<and>
           list_all2 (shadowAt (entryKey e)) Ss sis'"
proof -
  obtain out1 where out1: "put out e = Inr out1"
    "outAt keepDead v (if keepDead \<or> \<not> isDead e then written @ [e] else written) out1"
    using put_at [OF assms(1-3)] by blast
  have m: "\<not> isMeta e" using assms(2) by (simp add: legalEntry_def)
  obtain sis1 where sis1: "scanShadows e sis = Inr (entryKey e \<in> shadowKeys Ss, sis1)"
    "list_all2 (shadowAt (entryKey e)) Ss sis1"
    using scanShadows_at [OF assms(4) m] by blast
  show ?thesis
  proof (cases "keepLife \<and> (isInit e \<or> isDead e)")
    case True
    then show ?thesis using out1 assms(4) by (auto simp: maybePut_def kept_def keepPut_def)
  next
    case False
    then show ?thesis
      using out1 sis1 assms(1) by (cases "entryKey e \<in> shadowKeys Ss") (auto simp: maybePut_def kept_def keepPut_def)
  qed
qed

lemma mergePut_at:
  assumes out: "outAt keepDead v written (mergeOut s)" and e: "legalEntry v e" "readyFor Ss written s (entryKey e)"
    and F: "\<forall>f\<in>F. \<not> isMeta f \<and> entryKey e < entryKey f \<and> readyFor Ss written s (entryKey f)"
  shows "\<exists>s'. mergePut s e keepLife = Inr s' \<and> mergeOi s' = mergeOi s \<and> mergeNi s' = mergeNi s \<and>
           outAt keepDead v (written @ kept keepLife keepDead Ss [e]) (mergeOut s') \<and>
           (\<forall>f\<in>F. readyFor Ss (written @ kept keepLife keepDead Ss [e]) s' (entryKey f))"
proof -
  have m: "\<not> isMeta e" using e(1) by (simp add: legalEntry_def)
  have "fileBelow written e" "list_all2 (shadowAt (entryKey e)) Ss (mergeShadows s)"
    using e(2) m by (auto simp: readyFor_def)
  from maybePut_at [OF out e(1) this, of keepLife]
  obtain out' sis' where put: "maybePut (mergeOut s) e (mergeShadows s) keepLife = Inr (out', sis')"
    "outAt keepDead v (written @ kept keepLife keepDead Ss [e]) out'"
    "list_all2 (shadowAt (entryKey e)) Ss sis'" by blast
  have "readyFor Ss (written @ kept keepLife keepDead Ss [e]) (s\<lparr>mergeOut := out', mergeShadows := sis'\<rparr>) (entryKey f)"
    if f: "f \<in> F" for f
  proof -
    have less: "entryKey e < entryKey f" and "readyFor Ss written s (entryKey f)" using F f by auto
    then have below: "fileBelow written g" if "entryKey g = entryKey f" "\<not> isMeta g" for g
      using that by (simp add: readyFor_def)
    have "fileBelow (written @ kept keepLife keepDead Ss [e]) g" if "entryKey g = entryKey f" "\<not> isMeta g" for g
      using fileBelow_append [OF m that(2) _ below [OF that]] less that(1) by simp
    then show ?thesis using shadowsAt_mono [OF put(3)] less by (simp add: readyFor_def)
  qed
  then show ?thesis using put by (simp add: mergePut_def)
qed

definition mergeAt ::
  "bool \<Rightarrow> uint32 \<Rightarrow> BucketEntry list list \<Rightarrow> Bucket \<Rightarrow> MergeState \<Rightarrow> BucketEntry list \<Rightarrow> BucketEntry list \<Rightarrow> bool" where
  "mergeAt keepDead v Ss written s xs ys \<longleftrightarrow>
     iterAt xs (mergeOi s) \<and> iterAt ys (mergeNi s) \<and> outAt keepDead v written (mergeOut s) \<and>
     bodyOk v xs \<and> bodyOk v ys \<and> (\<forall>f\<in>set xs \<union> set ys. readyFor Ss written s (entryKey f))"

lemma bodyOk_legal: "bodyOk v xs \<Longrightarrow> e \<in> set xs \<Longrightarrow> legalEntry v e \<and> \<not> isMeta e"
  by (simp add: bodyOk_def legalEntry_def)

lemma legal_check: "legalEntry v e \<Longrightarrow> checkProtocolLegality e v = Inr ()"
  by (auto simp: checkProtocolLegality_def legalEntry_def)

lemma mergeAt_take_old:
  assumes at: "mergeAt keepDead v Ss written s (x # xs) ys" and less: "\<forall>y\<in>set ys. entryKey x < entryKey y"
  shows "\<exists>s'. mergeCasesWithDefaultAcceptance v keepLife s = Inr (True, s') \<and>
           mergeAt keepDead v Ss (written @ kept keepLife keepDead Ss [x]) s' xs ys"
proof -
  have x: "legalEntry v x" "mEntry (mergeOi s) = Some x"
    using at by (auto simp: mergeAt_def iterAt_def)
  have F: "\<forall>f\<in>set xs \<union> set ys. \<not> isMeta f \<and> entryKey x < entryKey f \<and> readyFor Ss written s (entryKey f)"
    using at less bodyOk_legal by (fastforce simp: mergeAt_def)
  have out: "outAt keepDead v written (mergeOut s)" "readyFor Ss written s (entryKey x)"
    using at by (auto simp: mergeAt_def)
  obtain s1 where s1: "mergePut s x keepLife = Inr s1" "mergeOi s1 = mergeOi s" "mergeNi s1 = mergeNi s"
    "outAt keepDead v (written @ kept keepLife keepDead Ss [x]) (mergeOut s1)"
    "\<forall>f\<in>set xs \<union> set ys. readyFor Ss (written @ kept keepLife keepDead Ss [x]) s1 (entryKey f)"
    using mergePut_at [OF out(1) x(1) out(2) F] by blast
  obtain oi where oi: "advance (mergeOi s) = Inr oi" "iterAt xs oi"
    using advance_at at by (fastforce simp: mergeAt_def)
  have "mEntry (mergeNi s) = None \<or> entryLess (mEntry (mergeOi s)) (mEntry (mergeNi s))"
  proof (cases ys)
    case (Cons y ys')
    then have "\<not> isMeta y" "\<not> isMeta x" "mEntry (mergeNi s) = Some y"
      using at bodyOk_legal by (auto simp: mergeAt_def iterAt_def)
    then show ?thesis using x less Cons by (simp add: entryLess_def cmp_key)
  qed (use at in \<open>simp add: mergeAt_def iterAt_def\<close>)
  then have "mergeCasesWithDefaultAcceptance v keepLife s = Inr (True, s1\<lparr>mergeOi := oi\<rparr>)"
    using x s1 oi by (simp add: mergeCasesWithDefaultAcceptance_def currentEntry_def legal_check)
  moreover have "mergeAt keepDead v Ss (written @ kept keepLife keepDead Ss [x]) (s1\<lparr>mergeOi := oi\<rparr>) xs ys"
    using at s1 oi by (simp add: mergeAt_def readyFor_def)
  ultimately show ?thesis by blast
qed

lemma mergeAt_take_new:
  assumes at: "mergeAt keepDead v Ss written s xs (y # ys)" and less: "\<forall>x\<in>set xs. entryKey y < entryKey x"
  shows "\<exists>s'. mergeCasesWithDefaultAcceptance v keepLife s = Inr (True, s') \<and>
           mergeAt keepDead v Ss (written @ kept keepLife keepDead Ss [y]) s' xs ys"
proof -
  have y: "legalEntry v y" "mEntry (mergeNi s) = Some y"
    using at by (auto simp: mergeAt_def iterAt_def)
  have F: "\<forall>f\<in>set xs \<union> set ys. \<not> isMeta f \<and> entryKey y < entryKey f \<and> readyFor Ss written s (entryKey f)"
    using at less bodyOk_legal by (fastforce simp: mergeAt_def)
  have out: "outAt keepDead v written (mergeOut s)" "readyFor Ss written s (entryKey y)"
    using at by (auto simp: mergeAt_def)
  obtain s1 where s1: "mergePut s y keepLife = Inr s1" "mergeOi s1 = mergeOi s" "mergeNi s1 = mergeNi s"
    "outAt keepDead v (written @ kept keepLife keepDead Ss [y]) (mergeOut s1)"
    "\<forall>f\<in>set xs \<union> set ys. readyFor Ss (written @ kept keepLife keepDead Ss [y]) s1 (entryKey f)"
    using mergePut_at [OF out(1) y(1) out(2) F] by blast
  obtain ni where ni: "advance (mergeNi s) = Inr ni" "iterAt ys ni"
    using advance_at at by (fastforce simp: mergeAt_def)
  have "\<not> entryLess (mEntry (mergeOi s)) (mEntry (mergeNi s)) \<and>
        (mEntry (mergeOi s) = None \<or> entryLess (mEntry (mergeNi s)) (mEntry (mergeOi s)))"
  proof (cases xs)
    case (Cons x xs')
    then have "\<not> isMeta y" "\<not> isMeta x" "mEntry (mergeOi s) = Some x"
      using at bodyOk_legal by (auto simp: mergeAt_def iterAt_def)
    then show ?thesis using y less Cons by (auto simp: entryLess_def cmp_key)
  qed (use at in \<open>simp add: mergeAt_def iterAt_def entryLess_def\<close>)
  then have "mergeCasesWithDefaultAcceptance v keepLife s = Inr (True, s1\<lparr>mergeNi := ni\<rparr>)"
    using y s1 ni by (simp add: mergeCasesWithDefaultAcceptance_def currentEntry_def legal_check)
  moreover have "mergeAt keepDead v Ss (written @ kept keepLife keepDead Ss [y]) (s1\<lparr>mergeNi := ni\<rparr>) xs ys"
    using at s1 ni by (simp add: mergeAt_def readyFor_def)
  ultimately show ?thesis by blast
qed

text \<open>With equal keys, \<open>mergePut\<close> is called with the entry of the table.\<close>

lemma equal_keys_put:
  assumes at: "mergeAt keepDead v Ss written s (x # xs) (y # ys)"
    and eq: "entryKey x = entryKey y" and init: "isInit y \<longrightarrow> isDead x"
  shows "mergeCasesWithEqualKeys v keepLife s =
     bindE (case mergeEqual x y of None \<Rightarrow> Inr s | Some e \<Rightarrow> mergePut s e keepLife) (\<lambda>s.
     bindE (advance (mergeOi s)) (\<lambda>oi.
     bindE (advance (mergeNi s)) (\<lambda>ni.
     Inr (s\<lparr>mergeOi := oi, mergeNi := ni\<rparr>))))"
proof -
  have "legalEntry v x" "legalEntry v y" "\<not> isMeta x" "\<not> isMeta y"
    "mEntry (mergeOi s) = Some x" "mEntry (mergeNi s) = Some y"
    using at bodyOk_legal by (auto simp: mergeAt_def iterAt_def)
  then show ?thesis
    using init by (cases x; cases y) (simp_all add: mergeCasesWithEqualKeys_def currentEntry_def legal_check)
qed

lemma mergeAt_equal:
  assumes at: "mergeAt keepDead v Ss written s (x # xs) (y # ys)"
    and eq: "entryKey x = entryKey y" and init: "isInit y \<longrightarrow> isDead x"
  shows "mergeCasesWithDefaultAcceptance v keepLife s = Inr (False, s) \<and>
         (\<exists>s'. mergeCasesWithEqualKeys v keepLife s = Inr s' \<and>
            mergeAt keepDead v Ss
              (written @ kept keepLife keepDead Ss (case mergeEqual x y of None \<Rightarrow> [] | Some e \<Rightarrow> [e])) s' xs ys)"
proof
  have xy: "legalEntry v x" "legalEntry v y" "\<not> isMeta x" "\<not> isMeta y"
    "mEntry (mergeOi s) = Some x" "mEntry (mergeNi s) = Some y"
    using at bodyOk_legal by (auto simp: mergeAt_def iterAt_def)
  then show "mergeCasesWithDefaultAcceptance v keepLife s = Inr (False, s)"
    using eq by (simp add: mergeCasesWithDefaultAcceptance_def entryLess_def cmp_key)
  have F: "\<forall>f\<in>set xs \<union> set ys. \<not> isMeta f \<and> entryKey y < entryKey f \<and> readyFor Ss written s (entryKey f)"
    using at eq bodyOk_legal [of v xs] bodyOk_legal [of v ys] by (auto simp: mergeAt_def)
  have "iterAt (x # xs) (mergeOi s)" "iterAt (y # ys) (mergeNi s)" using at by (auto simp: mergeAt_def)
  then obtain oi ni where adv: "advance (mergeOi s) = Inr oi" "iterAt xs oi" "advance (mergeNi s) = Inr ni" "iterAt ys ni"
    using advance_at by blast
  have ok: "bodyOk v xs" "bodyOk v ys" using at by (auto simp: mergeAt_def)
  have out: "outAt keepDead v written (mergeOut s)" "readyFor Ss written s (entryKey y)" using at by (auto simp: mergeAt_def)
  let ?f = "written @ kept keepLife keepDead Ss (case mergeEqual x y of None \<Rightarrow> [] | Some e \<Rightarrow> [e])"
  have "\<exists>s1. (case mergeEqual x y of None \<Rightarrow> Inr s | Some e \<Rightarrow> mergePut s e keepLife) = Inr s1 \<and>
      mergeOi s1 = mergeOi s \<and> mergeNi s1 = mergeNi s \<and> outAt keepDead v ?f (mergeOut s1) \<and>
      (\<forall>f\<in>set xs \<union> set ys. readyFor Ss ?f s1 (entryKey f))"
  proof (cases "mergeEqual x y")
    case None
    then show ?thesis using F out by (simp add: kept_def)
  next
    case (Some e)
    then have "legalEntry v e" "entryKey e = entryKey y" using mergeEqual_Some eq xy by blast+
    then show ?thesis using mergePut_at [of keepDead v written s e Ss "set xs \<union> set ys" keepLife] F out Some by simp
  qed
  then obtain s1 where s1: "(case mergeEqual x y of None \<Rightarrow> Inr s | Some e \<Rightarrow> mergePut s e keepLife) = Inr s1"
      "mergeOi s1 = mergeOi s" "mergeNi s1 = mergeNi s" "outAt keepDead v ?f (mergeOut s1)"
      "\<forall>f\<in>set xs \<union> set ys. readyFor Ss ?f s1 (entryKey f)" by blast
  then show "\<exists>s'. mergeCasesWithEqualKeys v keepLife s = Inr s' \<and> mergeAt keepDead v Ss ?f s' xs ys"
    using adv ok by (simp add: equal_keys_put [OF at eq init] mergeAt_def readyFor_def)
qed

lemma mergePuts_Nil2 [simp]: "mergePuts xs [] = xs"
  by (cases xs) simp_all

lemma mergePuts_old: "\<forall>y\<in>set ys. entryKey x < entryKey y \<Longrightarrow> mergePuts (x # xs) ys = x # mergePuts xs ys"
  by (cases ys) simp_all

lemma mergePuts_new:
  assumes "\<forall>x\<in>set xs. entryKey y < entryKey x"
  shows "mergePuts xs (y # ys) = y # mergePuts xs ys"
proof (cases xs)
  case (Cons x xs')
  then have "entryKey y < entryKey x" "\<not> entryKey x < entryKey y" using assms by auto
  then show ?thesis using Cons by simp
qed simp

text \<open>The two bodies by the case that the loop takes.\<close>

lemma body_cases [consumes 2, case_names finished old new equal]:
  assumes "bodyOk v xs" "bodyOk v ys"
  obtains "xs = []" "ys = []"
  | x xs' where "xs = x # xs'" "\<forall>y\<in>set ys. entryKey x < entryKey y"
  | y ys' where "ys = y # ys'" "\<forall>x\<in>set xs. entryKey y < entryKey x"
  | x xs' y ys' where "xs = x # xs'" "ys = y # ys'" "entryKey x = entryKey y"
proof (cases xs)
  case Nil
  then show ?thesis using that(1,3) by (cases ys) auto
next
  case x: (Cons x xs')
  show ?thesis
  proof (cases ys)
    case Nil
    then show ?thesis using that(2) x by simp
  next
    case y: (Cons y ys')
    show ?thesis
    proof (cases "entryKey x" "entryKey y" rule: linorder_cases)
      case less
      then have "\<forall>b\<in>set ys. entryKey x < entryKey b" using assms y by (auto intro: less_trans)
      then show ?thesis using that(2) x by blast
    next
      case equal
      then show ?thesis using that(4) x y by blast
    next
      case greater
      then have "\<forall>a\<in>set xs. entryKey y < entryKey a" using assms x by (auto intro: less_trans)
      then show ?thesis using that(3) y by blast
    qed
  qed
qed

lemma mergeLoop_default:
  assumes "mergeCasesWithDefaultAcceptance v keepLife s = Inr (True, s1)" "\<forall>n. \<not> sh n"
    and "mEntry (mergeOi s) \<noteq> None \<or> mEntry (mergeNi s) \<noteq> None"
  shows "\<exists>asked' iter'. mergeLoop sh v keepLife asked iter s = mergeLoop sh v keepLife asked' iter' s1"
  using assms by (subst mergeLoop.simps) (auto simp: Let_def)

lemma mergeLoop_equal:
  assumes "mergeCasesWithDefaultAcceptance v keepLife s = Inr (False, s)" "mergeCasesWithEqualKeys v keepLife s = Inr s1"
    and "\<forall>n. \<not> sh n" "mEntry (mergeOi s) \<noteq> None"
  shows "\<exists>asked' iter'. mergeLoop sh v keepLife asked iter s = mergeLoop sh v keepLife asked' iter' s1"
  using assms by (subst mergeLoop.simps) (auto simp: Let_def)

lemma compatible_Cons:
  "compatible (x # xs) ys \<Longrightarrow> compatible xs ys"
  "compatible xs (y # ys) \<Longrightarrow> compatible xs ys"
  "compatible (x # xs) (y # ys) \<Longrightarrow> compatible xs ys"
  by (simp_all add: compatible_def)

lemma kept_append: "kept l d Ss (xs @ ys) = kept l d Ss xs @ kept l d Ss ys"
  by (simp add: kept_def)

lemma mergeLoop_at:
  assumes "mergeAt keepDead v Ss written s xs ys" "compatible xs ys" "\<forall>n. \<not> sh n"
  shows "\<exists>s'. mergeLoop sh v keepLife asked iter s = Inr s' \<and>
           getBucket (mergeOut s') = written @ kept keepLife keepDead Ss (mergePuts xs ys)"
  using assms(1,2)
proof (induction "length xs + length ys" arbitrary: xs ys written s asked iter rule: less_induct)
  case less
  have ok: "bodyOk v xs" "bodyOk v ys" using less.prems(1) by (auto simp: mergeAt_def)
  have at: "iterAt xs (mergeOi s)" "iterAt ys (mergeNi s)" using less.prems(1) by (auto simp: mergeAt_def)
  from ok show ?case
  proof (cases rule: body_cases)
    case finished
    then have "mergeLoop sh v keepLife asked iter s = Inr s"
      using at by (subst mergeLoop.simps) (simp add: iterAt_def)
    then show ?thesis using less.prems(1) finished getBucket_at by (auto simp: mergeAt_def kept_def)
  next
    case (old x xs')
    obtain s1 where s1: "mergeCasesWithDefaultAcceptance v keepLife s = Inr (True, s1)"
      "mergeAt keepDead v Ss (written @ kept keepLife keepDead Ss [x]) s1 xs' ys"
      using mergeAt_take_old [OF _ old(2)] less.prems(1) old(1) by blast
    moreover have "mEntry (mergeOi s) \<noteq> None" using at(1) old(1) by (simp add: iterAt_def)
    ultimately obtain a i where step: "mergeLoop sh v keepLife asked iter s = mergeLoop sh v keepLife a i s1"
      using mergeLoop_default [OF s1(1) assms(3)] by blast
    have "compatible xs' ys" using less.prems(2) old(1) compatible_Cons(1) by blast
    from less.hyps [OF _ s1(2) this, of a i] show ?thesis
      using step old kept_append [of keepLife keepDead Ss "[x]" "mergePuts xs' ys"] by (simp add: mergePuts_old)
  next
    case (new y ys')
    obtain s1 where s1: "mergeCasesWithDefaultAcceptance v keepLife s = Inr (True, s1)"
      "mergeAt keepDead v Ss (written @ kept keepLife keepDead Ss [y]) s1 xs ys'"
      using mergeAt_take_new [OF _ new(2)] less.prems(1) new(1) by blast
    moreover have "mEntry (mergeNi s) \<noteq> None" using at(2) new(1) by (simp add: iterAt_def)
    ultimately obtain a i where step: "mergeLoop sh v keepLife asked iter s = mergeLoop sh v keepLife a i s1"
      using mergeLoop_default [OF s1(1) assms(3)] by blast
    have "compatible xs ys'" using less.prems(2) new(1) compatible_Cons(2) by blast
    from less.hyps [OF _ s1(2) this, of a i] show ?thesis
      using step new kept_append [of keepLife keepDead Ss "[y]" "mergePuts xs ys'"] by (simp add: mergePuts_new)
  next
    case (equal x xs' y ys')
    have init: "isInit y \<longrightarrow> isDead x" using less.prems(2) equal by (simp add: compatible_def)
    obtain s1 where s1: "mergeCasesWithDefaultAcceptance v keepLife s = Inr (False, s)"
      "mergeCasesWithEqualKeys v keepLife s = Inr s1"
      "mergeAt keepDead v Ss
        (written @ kept keepLife keepDead Ss (case mergeEqual x y of None \<Rightarrow> [] | Some e \<Rightarrow> [e])) s1 xs' ys'"
      using mergeAt_equal [OF _ equal(3) init, of keepDead v Ss written s xs' ys' keepLife] less.prems(1) equal(1,2) by blast
    have "mEntry (mergeOi s) \<noteq> None" using at(1) equal(1) by (simp add: iterAt_def)
    then obtain a i where step: "mergeLoop sh v keepLife asked iter s = mergeLoop sh v keepLife a i s1"
      using mergeLoop_equal [OF s1(1,2) assms(3)] by blast
    have "compatible xs' ys'" using less.prems(2) equal(1,2) compatible_Cons(3) by blast
    from less.hyps [OF _ s1(3) this, of a i] show ?thesis
      using step equal
        kept_append [of keepLife keepDead Ss "case mergeEqual x y of None \<Rightarrow> [] | Some e \<Rightarrow> [e]" "mergePuts xs' ys'"]
      by simp
  qed
qed

subsection \<open>The loop throws at an INIT over an entry that is not dead\<close>

lemma mergeLoop_throws:
  assumes "mergeAt keepDead v Ss written s xs ys" "\<not> compatible xs ys" "\<forall>n. \<not> sh n"
  shows "mergeLoop sh v keepLife asked iter s = Inl OldNonDeadNewInit"
  using assms(1,2)
proof (induction "length xs + length ys" arbitrary: xs ys written s asked iter rule: less_induct)
  case less
  have ok: "bodyOk v xs" "bodyOk v ys" using less.prems(1) by (auto simp: mergeAt_def)
  have at: "iterAt xs (mergeOi s)" "iterAt ys (mergeNi s)" using less.prems(1) by (auto simp: mergeAt_def)
  from ok show ?case
  proof (cases rule: body_cases)
    case finished
    then show ?thesis using less.prems(2) by (simp add: compatible_def)
  next
    case (old x xs')
    obtain s1 where s1: "mergeCasesWithDefaultAcceptance v keepLife s = Inr (True, s1)"
      "mergeAt keepDead v Ss (written @ kept keepLife keepDead Ss [x]) s1 xs' ys"
      using mergeAt_take_old [OF _ old(2)] less.prems(1) old(1) by blast
    moreover have "mEntry (mergeOi s) \<noteq> None" using at(1) old(1) by (simp add: iterAt_def)
    ultimately obtain a i where step: "mergeLoop sh v keepLife asked iter s = mergeLoop sh v keepLife a i s1"
      using mergeLoop_default [OF s1(1) assms(3)] by blast
    have "\<not> compatible xs' ys" using less.prems(2) old by (fastforce simp: compatible_def)
    from less.hyps [OF _ s1(2) this] show ?thesis using step old(1) by simp
  next
    case (new y ys')
    obtain s1 where s1: "mergeCasesWithDefaultAcceptance v keepLife s = Inr (True, s1)"
      "mergeAt keepDead v Ss (written @ kept keepLife keepDead Ss [y]) s1 xs ys'"
      using mergeAt_take_new [OF _ new(2)] less.prems(1) new(1) by blast
    moreover have "mEntry (mergeNi s) \<noteq> None" using at(2) new(1) by (simp add: iterAt_def)
    ultimately obtain a i where step: "mergeLoop sh v keepLife asked iter s = mergeLoop sh v keepLife a i s1"
      using mergeLoop_default [OF s1(1) assms(3)] by blast
    have "\<not> compatible xs ys'" using less.prems(2) new by (fastforce simp: compatible_def)
    from less.hyps [OF _ s1(2) this] show ?thesis using step new(1) by simp
  next
    case (equal x xs' y ys')
    have e: "mEntry (mergeOi s) = Some x" "mEntry (mergeNi s) = Some y" "legalEntry v x" "legalEntry v y"
      using at ok equal(1,2) by (auto simp: iterAt_def)
    show ?thesis
    proof (cases "isInit y \<longrightarrow> isDead x")
      case init: True
      obtain s1 where s1: "mergeCasesWithDefaultAcceptance v keepLife s = Inr (False, s)"
        "mergeCasesWithEqualKeys v keepLife s = Inr s1"
        "mergeAt keepDead v Ss
          (written @ kept keepLife keepDead Ss (case mergeEqual x y of None \<Rightarrow> [] | Some e \<Rightarrow> [e])) s1 xs' ys'"
        using mergeAt_equal [OF _ equal(3) init, of keepDead v Ss written s xs' ys' keepLife] less.prems(1) equal(1,2)
        by blast
      then obtain a i where step: "mergeLoop sh v keepLife asked iter s = mergeLoop sh v keepLife a i s1"
        using mergeLoop_equal [OF s1(1,2) assms(3)] e(1) by blast
      have "\<not> compatible xs' ys'"
        using less.prems(2) equal init ok by (fastforce simp: compatible_def)
      from less.hyps [OF _ s1(3) this] show ?thesis using step equal(1,2) by simp
    next
      case False
      then obtain l where y: "y = INITENTRY l" "\<not> isDead x" by (cases y) simp_all
      have m: "\<not> isMeta x" "\<not> isMeta y" using e(3,4) by (simp_all add: legalEntry_def)
      have "mergeCasesWithDefaultAcceptance v keepLife s = Inr (False, s)"
        using e m equal(3) by (simp add: mergeCasesWithDefaultAcceptance_def entryLess_def cmp_key)
      moreover have "mergeCasesWithEqualKeys v keepLife s = Inl OldNonDeadNewInit"
        using e y by (simp add: mergeCasesWithEqualKeys_def currentEntry_def legal_check)
      ultimately show ?thesis using e assms(3) by (subst mergeLoop.simps) (simp add: Let_def)
    qed
  qed
qed

subsection \<open>The merge\<close>

definition mergeVersion :: "uint32 \<Rightarrow> uint32 \<Rightarrow> uint32 list \<Rightarrow> uint32" where
  "mergeVersion vo vn ws =
     fold (\<lambda>w v. if readVersion w < 12 then max (readVersion w) v else v) ws (max (readVersion vo) (readVersion vn))"

lemma mergeVersion_ge: "max (readVersion vo) (readVersion vn) \<le> mergeVersion vo vn ws"
proof -
  have "u \<le> fold (\<lambda>w v. if readVersion w < 12 then max (readVersion w) v else v) ws u" for u
    by (induction ws arbitrary: u) (auto, meson max.cobounded2 order_trans)
  then show ?thesis by (simp add: mergeVersion_def)
qed

lemma bodyOk_version:
  assumes "bodyOk w xs" "readVersion w \<le> v" shows "bodyOk v xs"
proof -
  have "legalEntry v e" if "legalEntry w e" for e
    using that assms(2) by (cases "11 \<le> w") (auto simp: legalEntry_def readVersion_def)
  then show ?thesis using assms(1) by (simp add: bodyOk_def)
qed

definition shadowBuckets :: "(uint32 \<times> BucketEntry list) list \<Rightarrow> Bucket list" where
  "shadowBuckets Ws = map (\<lambda>(w, S). bucketOf w S) Ws"

lemma openAll_at:
  assumes "\<forall>(w, S)\<in>set Ws. bodyOk w S"
  shows "\<exists>its. openAll (shadowBuckets Ws) = Inr its \<and> map mMetadata its = map (readVersion \<circ> fst) Ws \<and>
           (\<forall>k. list_all2 (shadowAt k) (map snd Ws) its)"
  using assms
proof (induction Ws)
  case (Cons W Ws)
  obtain w S where W: "W = (w, S)" by force
  obtain it where it: "openBucket (bucketOf w S) = Inr it" "iterAt S it" "mMetadata it = readVersion w"
    using openBucket_at [of w S] Cons.prems W by auto
  have "sortedBody S" using Cons.prems W by (auto simp: bodyOk_def)
  then have "shadowAt k S it" for k
    unfolding shadowAt_def using it(2) by (intro exI [of _ "[]"] exI [of _ S]) simp
  then show ?case using Cons W it by (auto simp: shadowBuckets_def)
qed (simp add: shadowBuckets_def)

lemma maxShadowVersion_fold:
  "maxShadowVersion its u = fold (\<lambda>w v. if w < 12 then max w v else v) (map mMetadata its) u"
  by (induction its arbitrary: u) simp_all

lemma maxShadowVersion_at:
  "map mMetadata its = map (readVersion \<circ> fst) Ws \<Longrightarrow>
   maxShadowVersion its (max (readVersion vo) (readVersion vn)) = mergeVersion vo vn (map fst Ws)"
  by (simp add: maxShadowVersion_fold mergeVersion_def fold_map comp_def)

definition mergeReference ::
  "uint32 \<Rightarrow> uint32 \<times> BucketEntry list \<Rightarrow> uint32 \<times> BucketEntry list \<Rightarrow> (uint32 \<times> BucketEntry list) list \<Rightarrow> bool \<Rightarrow>
   bucket_error + Bucket" where
  "mergeReference maxVersion X Y Ws keepDead =
     (let v = mergeVersion (fst X) (fst Y) (map fst Ws)
      in if maxVersion < v then Inl ProtocolExceedsMax
         else if 12 \<le> v \<and> Ws \<noteq> [] then Inl ShadowsNotSupported
         else if \<not> compatible (snd X) (snd Y) then Inl OldNonDeadNewInit
         else Inr (bucketOf v (kept (11 \<le> v) keepDead (map snd Ws) (mergePuts (snd X) (snd Y)))))"

lemma merge_start:
  assumes "bodyOk v xs" "bodyOk v ys" "iterAt xs oi" "iterAt ys ni" "outAt keepDead v (bucketOf v []) out"
    and "\<forall>k. list_all2 (shadowAt k) Ss sis"
  shows "mergeAt keepDead v Ss (bucketOf v []) \<lparr>mergeOi = oi, mergeNi = ni, mergeOut = out, mergeShadows = sis\<rparr> xs ys"
  using assms fileBelow_start by (simp add: mergeAt_def readyFor_def)

lemma merge_eq_reference:
  assumes xs: "bodyOk vo xs" and ys: "bodyOk vn ys" and Ws: "\<forall>(w, S)\<in>set Ws. bodyOk w S" and sh: "\<forall>n. \<not> sh n"
  shows "merge sh maxVersion (bucketOf vo xs) (bucketOf vn ys) (shadowBuckets Ws) keepDead =
         mergeReference maxVersion (vo, xs) (vn, ys) Ws keepDead"
proof -
  define v where "v = mergeVersion vo vn (map fst Ws)"
  obtain oi where oi: "openBucket (bucketOf vo xs) = Inr oi" "iterAt xs oi" "mMetadata oi = readVersion vo"
    using openBucket_at [OF xs] by blast
  obtain ni where ni: "openBucket (bucketOf vn ys) = Inr ni" "iterAt ys ni" "mMetadata ni = readVersion vn"
    using openBucket_at [OF ys] by blast
  obtain its where its: "openAll (shadowBuckets Ws) = Inr its" "map mMetadata its = map (readVersion \<circ> fst) Ws"
    "\<forall>k. list_all2 (shadowAt k) (map snd Ws) its"
    using openAll_at [OF Ws] by blast
  obtain out where out: "openOutput keepDead v = Inr out" "outAt keepDead v (bucketOf v []) out"
    using openOutput_at by blast
  have calc: "calculateMergeProtocolVersion maxVersion oi ni its =
      (if maxVersion < v then Inl ProtocolExceedsMax
       else if 12 \<le> v \<and> Ws \<noteq> [] then Inl ShadowsNotSupported else Inr (v, 11 \<le> v))"
    using maxShadowVersion_at [OF its(2), of vo vn] oi(3) ni(3) map_eq_imp_length_eq [OF its(2)]
    by (auto simp: calculateMergeProtocolVersion_def v_def Let_def)
  have "readVersion vo \<le> v" "readVersion vn \<le> v"
    using mergeVersion_ge [of vo vn "map fst Ws"] by (simp_all add: v_def)
  then have at: "mergeAt keepDead v (map snd Ws) (bucketOf v [])
      \<lparr>mergeOi = oi, mergeNi = ni, mergeOut = out, mergeShadows = its\<rparr> xs ys"
    using merge_start bodyOk_version xs ys oi(2) ni(2) out(2) its(3) by metis
  have app: "bucketOf v [] @ es = bucketOf v es" for es by (simp add: bucketOf_def)
  show ?thesis
  proof (cases "compatible xs ys")
    case True
    then show ?thesis
      using mergeLoop_at [OF at True sh, of "11 \<le> v" 0 0] oi(1) ni(1) its(1) out(1) calc
      by (auto simp: merge_def mergeReference_def v_def [symmetric] app)
  next
    case False
    then show ?thesis
      using mergeLoop_throws [OF at False sh, of "11 \<le> v" 0 0] oi(1) ni(1) its(1) out(1) calc
      by (auto simp: merge_def mergeReference_def v_def [symmetric])
  qed
qed

subsection \<open>What the merged bucket means\<close>

fun combine :: "BucketEntry option \<Rightarrow> BucketEntry option \<Rightarrow> BucketEntry option" where
  "combine None y = y"
| "combine x None = x"
| "combine (Some x) (Some y) = mergeEqual x y"

lemma combine_None2 [simp]: "combine x None = x"
  by (cases x) simp_all

lemma mergePuts_lookup:
  "bodyOk v xs \<Longrightarrow> bodyOk v ys \<Longrightarrow> lookupIn (mergePuts xs ys) k = combine (lookupIn xs k) (lookupIn ys k)"
proof (induction "length xs + length ys" arbitrary: xs ys rule: less_induct)
  case less
  from less.prems show ?case
  proof (cases rule: body_cases)
    case (old x xs')
    have "lookupIn ys k = None" if "k = entryKey x" using that old by (auto simp: lookupIn_None)
    then show ?thesis using less old by (auto simp: mergePuts_old)
  next
    case (new y ys')
    have "lookupIn xs k = None" if "k = entryKey y" using that new by (auto simp: lookupIn_None)
    then show ?thesis using less new by (auto simp: mergePuts_new)
  next
    case (equal x xs' y ys')
    have IH: "lookupIn (mergePuts xs' ys') k = combine (lookupIn xs' k) (lookupIn ys' k)"
      using less equal by simp
    show ?thesis
    proof (cases "k = entryKey y")
      case True
      then have n: "lookupIn xs' k = None" "lookupIn ys' k = None"
        using less.prems equal by (auto simp: lookupIn_None)
      show ?thesis
        using equal True IH n mergeEqual_key [of x y] by (cases "mergeEqual x y") simp_all
    next
      case False
      then show ?thesis
        using equal IH mergeEqual_key [of x y] by (cases "mergeEqual x y") simp_all
    qed
  qed simp
qed

definition effectOf :: "BucketEntry option \<Rightarrow> LedgerEntry option \<Rightarrow> LedgerEntry option" where
  "effectOf e old = (case e of None \<Rightarrow> old | Some e \<Rightarrow> valueOf e)"

lemma applyBody_at: "bodyOk v es \<Longrightarrow> applyBucket es m k = effectOf (lookupIn es k) (m k)"
  by (simp add: applyBucket_at bodyOk_def legalEntry_def effectOf_def)

lemma initsFresh_iff:
  "bodyOk v es \<Longrightarrow> initsFresh es m \<longleftrightarrow> (\<forall>k e. lookupIn es k = Some e \<and> isInit e \<longrightarrow> m k = None)"
  using lookupIn_mem lookupIn_Some by (fastforce simp: initsFresh_def bodyOk_def)

lemma valueOf_None: "\<not> isMeta e \<Longrightarrow> valueOf e = None \<longleftrightarrow> isDead e"
  by (cases e) (simp_all add: valueOf_def)

lemma lookup_not_meta: "bodyOk v es \<Longrightarrow> lookupIn es k = Some e \<Longrightarrow> \<not> isMeta e \<and> entryKey e = k"
  using lookupIn_Some bodyOk_legal by blast

lemma fresh_compatible:
  assumes "bodyOk v xs" "bodyOk v ys" "initsFresh ys (applyBucket xs m)"
  shows "compatible xs ys"
  unfolding compatible_def
proof (intro ballI impI)
  fix x y assume xy: "x \<in> set xs" "y \<in> set ys" "entryKey x = entryKey y \<and> isInit y"
  have "lookupIn xs (entryKey y) = Some x"
    using lookupIn_mem [of xs x] xy assms(1) by (simp add: bodyOk_def)
  moreover have "applyBucket xs m (entryKey y) = None" using assms(3) xy by (simp add: initsFresh_def)
  ultimately have "valueOf x = None" using applyBody_at [OF assms(1)] by (simp add: effectOf_def)
  then show "isDead x" using valueOf_None bodyOk_legal [OF assms(1) xy(1)] by blast
qed

lemma kept_ok: "bodyOk v es \<Longrightarrow> bodyOk v (kept l d Ss es)"
  by (simp add: kept_def bodyOk_def sortedBody_def sorted_wrt_filter)

lemma kept_lookup:
  "bodyOk v es \<Longrightarrow> lookupIn (kept l d Ss es) k =
     (case lookupIn es k of None \<Rightarrow> None | Some e \<Rightarrow> if keepPut l d (shadowKeys Ss) e then Some e else None)"
  unfolding kept_def by (rule lookupIn_filter) (simp add: bodyOk_def)

lemma combine_effect:
  assumes "\<forall>e. x = Some e \<longrightarrow> \<not> isMeta e" "\<forall>e. y = Some e \<longrightarrow> \<not> isMeta e"
    and "\<forall>e. x = Some e \<and> isInit e \<longrightarrow> a = None" "\<forall>e. y = Some e \<and> isInit e \<longrightarrow> effectOf x a = None"
  shows "effectOf (combine x y) a = effectOf y (effectOf x a)"
    and "\<forall>e. combine x y = Some e \<and> isInit e \<longrightarrow> a = None"
proof -
  have "effectOf (combine x y) a = effectOf y (effectOf x a) \<and>
        (\<forall>e. combine x y = Some e \<and> isInit e \<longrightarrow> a = None)"
  proof (cases x; cases y)
    fix b c assume "x = Some b" "y = Some c"
    then show ?thesis using assms by (cases b; cases c) (simp_all add: effectOf_def valueOf_def)
  qed (use assms in \<open>simp_all add: effectOf_def\<close>)
  then show "effectOf (combine x y) a = effectOf y (effectOf x a)"
    "\<forall>e. combine x y = Some e \<and> isInit e \<longrightarrow> a = None" by auto
qed

lemma kept_effect:
  assumes x: "\<not> isMeta e" "entryKey e \<notin> shadowKeys Ss" and d: "keepDead \<or> a = None"
  shows "effectOf (if keepPut l keepDead (shadowKeys Ss) e then Some e else None) a = effectOf (Some e) a"
  using assms valueOf_None [OF x(1)] by (auto simp: keepPut_def effectOf_def)

lemma merged_body:
  assumes ok: "bodyOk v xs" "bodyOk v ys" and init: "initsFresh xs m" "initsFresh ys (applyBucket xs m)"
    and es: "es = kept l keepDead Ss (mergePuts xs ys)"
  shows "initsFresh es m"
    and "k \<notin> shadowKeys Ss \<Longrightarrow> keepDead \<or> m k = None \<Longrightarrow> applyBucket es m k = applyBucket ys (applyBucket xs m) k"
proof -
  have p: "bodyOk v (mergePuts xs ys)" by (rule mergePuts_ok [OF ok])
  then have e: "bodyOk v es" unfolding es by (rule kept_ok)
  note lk = mergePuts_lookup [OF ok] and kl = kept_lookup [OF p, of l keepDead Ss, folded es]
  have c: "effectOf (combine (lookupIn xs j) (lookupIn ys j)) (m j) = applyBucket ys (applyBucket xs m) j"
    "\<forall>e. combine (lookupIn xs j) (lookupIn ys j) = Some e \<and> isInit e \<longrightarrow> m j = None" for j
  proof -
    have a: "\<forall>e. lookupIn xs j = Some e \<longrightarrow> \<not> isMeta e" "\<forall>e. lookupIn ys j = Some e \<longrightarrow> \<not> isMeta e"
      using lookup_not_meta [OF ok(1)] lookup_not_meta [OF ok(2)] by blast+
    have b: "\<forall>e. lookupIn xs j = Some e \<and> isInit e \<longrightarrow> m j = None"
      using init(1) initsFresh_iff [OF ok(1)] by blast
    have d: "\<forall>e. lookupIn ys j = Some e \<and> isInit e \<longrightarrow> effectOf (lookupIn xs j) (m j) = None"
      using init(2) initsFresh_iff [OF ok(2)] by (simp add: applyBody_at [OF ok(1)])
    show "effectOf (combine (lookupIn xs j) (lookupIn ys j)) (m j) = applyBucket ys (applyBucket xs m) j"
      using combine_effect(1) [OF a b d] by (simp add: applyBody_at [OF ok(1)] applyBody_at [OF ok(2)])
    show "\<forall>e. combine (lookupIn xs j) (lookupIn ys j) = Some e \<and> isInit e \<longrightarrow> m j = None"
      by (rule combine_effect(2) [OF a b d])
  qed
  show "initsFresh es m"
    unfolding initsFresh_iff [OF e] using c(2) by (auto simp: kl lk split: option.splits if_splits)
  show "applyBucket es m k = applyBucket ys (applyBucket xs m) k"
    if "k \<notin> shadowKeys Ss" "keepDead \<or> m k = None"
  proof (cases "lookupIn (mergePuts xs ys) k")
    case None
    then show ?thesis using c(1) [of k] by (simp add: applyBody_at [OF e] kl lk)
  next
    case (Some a)
    then have "\<not> isMeta a" "entryKey a = k" using lookup_not_meta [OF p] by auto
    then have "applyBucket es m k = effectOf (Some a) (m k)"
      using kept_effect [of a Ss keepDead "m k" l] that Some by (simp add: applyBody_at [OF e] kl)
    then show ?thesis using c(1) [of k] Some by (simp add: lk)
  qed
qed

subsection \<open>Lifecycles\<close>

text \<open>
  A bucket tells the whole life of its entries over the older state \<open>m\<close> if it has INIT exactly for those
  keys that \<open>m\<close> does not have, and LIVE or DEAD for those that it has.
\<close>

definition lifecycleOk :: "BucketEntry list \<Rightarrow> LedgerState \<Rightarrow> bool" where
  "lifecycleOk es m \<longleftrightarrow> (\<forall>e\<in>set es. isInit e \<longleftrightarrow> m (entryKey e) = None)"

lemma lifecycle_fresh: "lifecycleOk es m \<Longrightarrow> initsFresh es m"
  by (simp add: lifecycleOk_def initsFresh_def)

lemma lifecycleOk_iff:
  "bodyOk v es \<Longrightarrow> lifecycleOk es m \<longleftrightarrow> (\<forall>k e. lookupIn es k = Some e \<longrightarrow> (isInit e \<longleftrightarrow> m k = None))"
  using lookupIn_mem lookupIn_Some by (fastforce simp: lifecycleOk_def bodyOk_def)

lemma combine_lifecycle:
  assumes "\<forall>e. x = Some e \<longrightarrow> \<not> isMeta e \<and> (isInit e \<longleftrightarrow> a = None)"
    and "\<forall>e. y = Some e \<longrightarrow> \<not> isMeta e \<and> (isInit e \<longleftrightarrow> effectOf x a = None)"
  shows "\<forall>e. combine x y = Some e \<longrightarrow> (isInit e \<longleftrightarrow> a = None)"
proof (cases x; cases y)
  fix b c assume "x = Some b" "y = Some c"
  then show ?thesis using assms by (cases b; cases c) (auto simp: effectOf_def valueOf_def)
qed (use assms in \<open>auto simp: effectOf_def\<close>)

lemma merged_lifecycle:
  assumes ok: "bodyOk v xs" "bodyOk v ys" and life: "lifecycleOk xs m" "lifecycleOk ys (applyBucket xs m)"
    and es: "es = kept True True Ss (mergePuts xs ys)"
  shows "lifecycleOk es m" and "dom (applyBucket es m) = dom (applyBucket ys (applyBucket xs m))"
proof -
  have p: "bodyOk v (mergePuts xs ys)" by (rule mergePuts_ok [OF ok])
  then have e: "bodyOk v es" unfolding es by (rule kept_ok)
  note lk = mergePuts_lookup [OF ok] and kl = kept_lookup [OF p, of True True Ss, folded es]
  have c: "\<forall>e. combine (lookupIn xs j) (lookupIn ys j) = Some e \<longrightarrow> (isInit e \<longleftrightarrow> m j = None)" for j
  proof (rule combine_lifecycle)
    show "\<forall>e. lookupIn xs j = Some e \<longrightarrow> \<not> isMeta e \<and> (isInit e \<longleftrightarrow> m j = None)"
      using life(1) lifecycleOk_iff [OF ok(1)] lookup_not_meta [OF ok(1)] by blast
    show "\<forall>e. lookupIn ys j = Some e \<longrightarrow> \<not> isMeta e \<and> (isInit e \<longleftrightarrow> effectOf (lookupIn xs j) (m j) = None)"
      using life(2) lifecycleOk_iff [OF ok(2)] lookup_not_meta [OF ok(2)] by (simp add: applyBody_at [OF ok(1)])
  qed
  show "lifecycleOk es m"
    unfolding lifecycleOk_iff [OF e] using c by (auto simp: kl lk split: option.splits if_splits)
  have all: "applyBucket (mergePuts xs ys) m k = applyBucket ys (applyBucket xs m) k" for k
    using merged_body(2) [OF ok life [THEN lifecycle_fresh], of "mergePuts xs ys" True True "[]" k]
    by (simp add: kept_def keepPut_def shadowKeys_def)
  have "(applyBucket es m k = None) = (applyBucket (mergePuts xs ys) m k = None)" for k
  proof (cases "lookupIn (mergePuts xs ys) k")
    case None
    then show ?thesis by (simp add: applyBody_at [OF e] applyBody_at [OF p] kl)
  next
    case (Some a)
    then have "\<not> isMeta a" "isInit a \<longleftrightarrow> m k = None" using lookup_not_meta [OF p] c [of k] lk by auto
    then show ?thesis
      using Some by (cases a) (auto simp: applyBody_at [OF e] applyBody_at [OF p] kl effectOf_def valueOf_def keepPut_def)
  qed
  then show "dom (applyBucket es m) = dom (applyBucket ys (applyBucket xs m))" using all by (auto simp: dom_def)
qed

end
