(* ===== verification/BucketFresh.thy ===== *)
theory BucketFresh
  imports BucketMerge "HOL-Library.Multiset"
begin

text \<open>
  Buckets of the changes of one ledger (\<open>Bucket::fresh\<close>): the entries are sorted, the keys are checked
  to be different, and the bucket that is written makes the changes on the ledger.
\<close>

subsection \<open>Sorting\<close>

definition weaklySorted :: "BucketEntry list \<Rightarrow> bool" where
  "weaklySorted es \<longleftrightarrow> sorted_wrt (\<lambda>a b. entryKey a \<le> entryKey b) es"

lemma entrySort_mset: "mset (entrySort es) = mset es"
proof (induction es)
  case (Cons e es)
  have "mset (takeWhile P s @ e # dropWhile P s) = add_mset e (mset s)" for P s
    by (metis mset_append mset.simps(2) takeWhile_dropWhile_id union_mset_add_mset_right)
  then show ?case using Cons by (simp add: Let_def)
qed simp

lemma entrySort_set: "set (entrySort es) = set es"
  by (rule mset_eq_setD [OF entrySort_mset])

lemma insert_weaklySorted:
  assumes "weaklySorted s" "\<forall>x\<in>set s. \<not> isMeta x" "\<not> isMeta e"
  shows "weaklySorted (takeWhile (\<lambda>x. BucketEntryIdCmp x e) s @ e # dropWhile (\<lambda>x. BucketEntryIdCmp x e) s)"
  using assms
proof (induction s)
  case (Cons a s)
  show ?case
  proof (cases "BucketEntryIdCmp a e")
    case True
    then have "entryKey a < entryKey e" using Cons.prems by (simp add: cmp_key)
    then show ?thesis
      using True Cons by (auto simp: weaklySorted_def dest: set_takeWhileD set_dropWhileD)
  next
    case False
    then have "entryKey e \<le> entryKey a" using Cons.prems by (simp add: cmp_key)
    then show ?thesis using False Cons.prems by (auto simp: weaklySorted_def intro: order_trans)
  qed
qed (simp add: weaklySorted_def)

lemma entrySort_sorted: "\<forall>e\<in>set es. \<not> isMeta e \<Longrightarrow> weaklySorted (entrySort es)"
proof (induction es)
  case (Cons e es)
  then show ?case using insert_weaklySorted [of "entrySort es" e] by (simp add: Let_def entrySort_set)
qed (simp add: weaklySorted_def)

lemma adjacentOrdered_iff:
  "\<forall>e\<in>set es. \<not> isMeta e \<Longrightarrow> adjacentOrdered es \<longleftrightarrow> sortedBody es"
  by (induction es rule: adjacentOrdered.induct) (auto simp: cmp_key intro: less_trans)

lemma strict_iff_distinct:
  "weaklySorted es \<Longrightarrow> sortedBody es \<longleftrightarrow> distinct (map entryKey es)"
proof (induction es)
  case (Cons e es)
  then have "(\<forall>x\<in>set es. entryKey e < entryKey x) \<longleftrightarrow> entryKey e \<notin> entryKey ` set es"
    by (auto simp: weaklySorted_def order.order_iff_strict)
  then show ?case using Cons by (simp add: weaklySorted_def)
qed simp

lemma sorted_adjacent:
  assumes "\<forall>e\<in>set es. \<not> isMeta e"
  shows "adjacentOrdered (entrySort es) \<longleftrightarrow> distinct (map entryKey es)"
proof -
  have "mset (map entryKey (entrySort es)) = mset (map entryKey es)" by (simp add: entrySort_mset)
  then have "distinct (map entryKey (entrySort es)) \<longleftrightarrow> distinct (map entryKey es)"
    by (rule mset_eq_imp_distinct_iff)
  then show ?thesis
    using adjacentOrdered_iff [of "entrySort es"] strict_iff_distinct [OF entrySort_sorted [OF assms]] assms
    by (simp add: entrySort_set)
qed

subsection \<open>Writing the entries\<close>

lemma putAll_at:
  assumes "outAt True v written out" "bodyOk v es" "\<forall>e\<in>set es. fileBelow written e"
  shows "\<exists>out'. putAll out es = Inr out' \<and> outAt True v (written @ es) out'"
  using assms
proof (induction es arbitrary: written out)
  case (Cons e es)
  obtain out1 where out1: "put out e = Inr out1" "outAt True v (written @ [e]) out1"
    using put_at [OF Cons.prems(1), of e] Cons.prems by auto
  have "\<forall>f\<in>set es. fileBelow (written @ [e]) f"
  proof
    fix f assume f: "f \<in> set es"
    then have "\<not> isMeta e" "\<not> isMeta f" "entryKey e < entryKey f"
      using Cons.prems(2) bodyOk_legal [of v "e # es"] by auto
    then show "fileBelow (written @ [e]) f" by (simp add: fileBelow_def cmp_key)
  qed
  with Cons.IH [OF out1(2)] Cons.prems(2) out1(1) show ?case by auto
qed simp

subsection \<open>The changes of a ledger\<close>

definition batchEntries ::
  "uint32 \<Rightarrow> LedgerEntry list \<Rightarrow> LedgerEntry list \<Rightarrow> LedgerKey list \<Rightarrow> BucketEntry list" where
  "batchEntries v initEntries liveEntries deadEntries =
     map (if 11 \<le> v then INITENTRY else LIVEENTRY) initEntries @ map LIVEENTRY liveEntries @ map DEADENTRY deadEntries"

definition batchKeys :: "LedgerEntry list \<Rightarrow> LedgerEntry list \<Rightarrow> LedgerKey list \<Rightarrow> LedgerKey list" where
  "batchKeys initEntries liveEntries deadEntries =
     map LedgerEntryKey initEntries @ map LedgerEntryKey liveEntries @ deadEntries"

definition applyBatch ::
  "LedgerEntry list \<Rightarrow> LedgerEntry list \<Rightarrow> LedgerKey list \<Rightarrow> LedgerState \<Rightarrow> LedgerState" where
  "applyBatch initEntries liveEntries deadEntries m =
     (m ++ map_of (map (\<lambda>l. (LedgerEntryKey l, l)) (initEntries @ liveEntries))) |` (- set deadEntries)"

lemma entryKey_simps [simp]:
  "entryKey (LIVEENTRY l) = LedgerEntryKey l" "entryKey (INITENTRY l) = LedgerEntryKey l" "entryKey (DEADENTRY k) = k"
  by (simp_all add: entryKey_def keyOf_def)

lemma batchEntries_keys: "map entryKey (batchEntries v I L D) = batchKeys I L D"
  by (simp add: batchEntries_def batchKeys_def comp_def)

lemma batchEntries_legal: "e \<in> set (batchEntries v I L D) \<Longrightarrow> legalEntry v e"
  by (auto simp: batchEntries_def legalEntry_def split: if_splits)

lemma batch_body:
  assumes "distinct (batchKeys I L D)"
  shows "bodyOk v (entrySort (batchEntries v I L D))"
proof -
  have m: "\<forall>e\<in>set (batchEntries v I L D). \<not> isMeta e" using batchEntries_legal by (auto simp: legalEntry_def)
  have "adjacentOrdered (entrySort (batchEntries v I L D))"
    using sorted_adjacent [OF m] assms by (simp add: batchEntries_keys)
  then have "sortedBody (entrySort (batchEntries v I L D))"
    using adjacentOrdered_iff m by (simp add: entrySort_set)
  then show ?thesis using batchEntries_legal by (simp add: bodyOk_def entrySort_set)
qed

lemma fresh_eq:
  "fresh v I L D =
     (if distinct (batchKeys I L D) then Inr (bucketOf v (entrySort (batchEntries v I L D))) else Inl DuplicateKeys)"
proof -
  have m: "\<forall>e\<in>set (batchEntries v I L D). \<not> isMeta e" using batchEntries_legal by (auto simp: legalEntry_def)
  have conv: "convertToBucketEntry (11 \<le> v) I L D =
      (if distinct (batchKeys I L D) then Inr (entrySort (batchEntries v I L D)) else Inl DuplicateKeys)"
    using sorted_adjacent [OF m]
    by (simp add: convertToBucketEntry_def batchEntries_def [symmetric] batchEntries_keys Let_def)
  show ?thesis
  proof (cases "distinct (batchKeys I L D)")
    case True
    obtain out where out: "openOutput True v = Inr out" "outAt True v (bucketOf v []) out"
      using openOutput_at by blast
    have "\<forall>e\<in>set (entrySort (batchEntries v I L D)). fileBelow (bucketOf v []) e"
      using m fileBelow_start by (simp add: entrySort_set)
    then obtain out1 where "putAll out (entrySort (batchEntries v I L D)) = Inr out1"
      "outAt True v (bucketOf v [] @ entrySort (batchEntries v I L D)) out1"
      using putAll_at [OF out(2) batch_body [OF True]] by blast
    then show ?thesis using True conv out(1) by (simp add: fresh_def getBucket_at bucketOf_def)
  qed (simp add: fresh_def conv)
qed

lemma lookupIn_iff:
  "bodyOk v es \<Longrightarrow> lookupIn es k = Some e \<longleftrightarrow> e \<in> set es \<and> entryKey e = k"
  using lookupIn_Some lookupIn_mem by (fastforce simp: bodyOk_def)

lemma batch_applied:
  assumes d: "distinct (batchKeys I L D)"
  shows "applyBucket (entrySort (batchEntries v I L D)) m = applyBatch I L D m"
proof
  fix k
  let ?es = "entrySort (batchEntries v I L D)" and ?g = "map_of (map (\<lambda>l. (LedgerEntryKey l, l)) (I @ L))"
  note ok = batch_body [OF d, of v]
  have dk: "distinct (map fst (map (\<lambda>l. (LedgerEntryKey l, l)) (I @ L)))" using d by (auto simp: batchKeys_def comp_def)
  consider "k \<in> set D" | l where "l \<in> set (I @ L)" "LedgerEntryKey l = k" "k \<notin> set D" | "k \<notin> set (batchKeys I L D)"
    by (auto simp: batchKeys_def)
  then show "applyBucket ?es m k = applyBatch I L D m k"
  proof cases
    case 1
    then have "DEADENTRY k \<in> set (batchEntries v I L D)" by (auto simp: batchEntries_def)
    then have "lookupIn ?es k = Some (DEADENTRY k)" by (simp add: lookupIn_iff [OF ok] entrySort_set)
    then show ?thesis using 1 by (simp add: applyBody_at [OF ok] effectOf_def valueOf_def applyBatch_def restrict_map_def)
  next
    case (2 l)
    obtain e where e: "e \<in> set (batchEntries v I L D)" "entryKey e = k" "valueOf e = Some l"
    proof (cases "11 \<le> v \<and> l \<in> set I")
      case True
      then show ?thesis using that [of "INITENTRY l"] 2 by (simp add: batchEntries_def valueOf_def)
    next
      case False
      then show ?thesis using that [of "LIVEENTRY l"] 2 by (auto simp: batchEntries_def valueOf_def)
    qed
    then have "lookupIn ?es k = Some e" by (simp add: lookupIn_iff [OF ok] entrySort_set)
    moreover have "?g k = Some l" using map_of_is_SomeI [OF dk] 2 by force
    ultimately show ?thesis
      using 2 e by (simp add: applyBody_at [OF ok] effectOf_def applyBatch_def restrict_map_def map_add_def split: option.splits)
  next
    case 3
    then have "lookupIn ?es k = None"
      using batchEntries_keys [of v I L D] by (metis entrySort_set list.set_map lookupIn_None)
    moreover have "?g k = None" using 3 by (force simp: map_of_eq_None_iff batchKeys_def)
    ultimately show ?thesis
      using 3 by (simp add: applyBody_at [OF ok] effectOf_def applyBatch_def restrict_map_def batchKeys_def map_add_def)
  qed
qed

end
