(* ===== verification/BucketList.thy ===== *)
theory BucketList
  imports Bucket
begin

text \<open>
  The bucket list, \<open>src/src/bucket/BucketList.cpp\<close> and \<open>FutureBucket.cpp\<close>: eleven levels of two buckets
  each, which take in the changes of every ledger and merge them into older levels in the background.
  A pending merge is kept with its inputs; its result is computed when it is resolved. Which merges
  happen to be complete after a ledger is the parameter \<open>ready\<close>, and \<open>getBucketByHash\<close> is the table of
  buckets of the manager. Levels are counted by natural numbers below the number of levels, so that the
  assertions on level numbers hold; ledger numbers are words of 32 bits.
\<close>

subsection \<open>Sizes of levels\<close>

definition kNumLevels :: nat where
  "kNumLevels = 11"

definition levelSize :: "nat \<Rightarrow> uint32" where
  "levelSize level = push_bit (2 * (level + 1)) 1"

definition levelHalf :: "nat \<Rightarrow> uint32" where
  "levelHalf level = drop_bit 1 (levelSize level)"

definition maskLedger :: "uint32 \<Rightarrow> uint32 \<Rightarrow> uint32" where
  "maskLedger v m = and v (not (m - 1))"

definition levelShouldSpill :: "uint32 \<Rightarrow> nat \<Rightarrow> bool" where
  "levelShouldSpill ledger level =
     (if level = kNumLevels - 1 then False
      else ledger = maskLedger ledger (levelHalf level) \<or> ledger = maskLedger ledger (levelSize level))"

definition keepDeadEntries :: "nat \<Rightarrow> bool" where
  "keepDeadEntries level = (level < kNumLevels - 1)"

definition shouldMergeWithEmptyCurr :: "uint32 \<Rightarrow> nat \<Rightarrow> bool" where
  "shouldMergeWithEmptyCurr ledger level =
     (if level \<noteq> 0 then
        let mergeStartLedger = maskLedger ledger (levelHalf (level - 1));
            nextChangeLedger = mergeStartLedger + levelHalf (level - 1)
        in levelShouldSpill nextChangeLedger level
      else False)"

subsection \<open>Merges in the background\<close>

datatype FutureBucket =
    FB_CLEAR
  | FB_LIVE_INPUTS Bucket Bucket "Bucket list" uint32 nat
  | FB_LIVE_OUTPUT Bucket
  | FB_HASH_INPUTS uint256 uint256 "uint256 list"
  | FB_HASH_OUTPUT uint256

definition isLive :: "FutureBucket \<Rightarrow> bool" where
  "isLive fb = (case fb of FB_LIVE_INPUTS _ _ _ _ _ \<Rightarrow> True | FB_LIVE_OUTPUT _ \<Rightarrow> True | _ \<Rightarrow> False)"

definition isMerging :: "FutureBucket \<Rightarrow> bool" where
  "isMerging fb = (case fb of FB_LIVE_INPUTS _ _ _ _ _ \<Rightarrow> True | _ \<Rightarrow> False)"

definition hasHashes :: "FutureBucket \<Rightarrow> bool" where
  "hasHashes fb = (case fb of FB_HASH_INPUTS _ _ _ \<Rightarrow> True | FB_HASH_OUTPUT _ \<Rightarrow> True | _ \<Rightarrow> False)"

definition isClear :: "FutureBucket \<Rightarrow> bool" where
  "isClear fb = (case fb of FB_CLEAR \<Rightarrow> True | _ \<Rightarrow> False)"

definition newFutureBucket ::
  "Bucket \<Rightarrow> Bucket \<Rightarrow> Bucket list \<Rightarrow> uint32 \<Rightarrow> nat \<Rightarrow> bucket_error + FutureBucket" where
  "newFutureBucket currBucket snap shadows maxProtocolVersion level =
     bindE (getBucketVersion snap) (\<lambda>version.
     if 12 \<le> version \<and> shadows \<noteq> [] then Inl FutureShadowsNotSupported
     else Inr (FB_LIVE_INPUTS currBucket snap shadows maxProtocolVersion level))"

text \<open>Resolving waits for the task that \<open>startMerge\<close> has posted, and keeps its result.\<close>

definition resolve :: "(nat \<Rightarrow> bool) \<Rightarrow> FutureBucket \<Rightarrow> bucket_error + Bucket \<times> FutureBucket" where
  "resolve isShutdown fb =
     (case fb of
        FB_LIVE_OUTPUT b \<Rightarrow> Inr (b, fb)
      | FB_LIVE_INPUTS currBucket snap shadows maxProtocolVersion level \<Rightarrow>
          bindE (merge isShutdown maxProtocolVersion currBucket snap shadows (keepDeadEntries level)) (\<lambda>b.
          Inr (b, FB_LIVE_OUTPUT b))
      | _ \<Rightarrow> Inl AssertFailed)"

definition bucketByHash :: "(uint256 \<Rightarrow> Bucket option) \<Rightarrow> uint256 \<Rightarrow> bucket_error + Bucket" where
  "bucketByHash getBucketByHash h = (case getBucketByHash h of None \<Rightarrow> Inl MissingBucket | Some b \<Rightarrow> Inr b)"

primrec bucketsByHash :: "(uint256 \<Rightarrow> Bucket option) \<Rightarrow> uint256 list \<Rightarrow> bucket_error + Bucket list" where
  "bucketsByHash getBucketByHash [] = Inr []"
| "bucketsByHash getBucketByHash (h # hs) =
     bindE (bucketByHash getBucketByHash h) (\<lambda>b. bindE (bucketsByHash getBucketByHash hs) (\<lambda>bs. Inr (b # bs)))"

definition makeLive ::
  "(uint256 \<Rightarrow> Bucket option) \<Rightarrow> uint32 \<Rightarrow> nat \<Rightarrow> FutureBucket \<Rightarrow> bucket_error + FutureBucket" where
  "makeLive getBucketByHash maxProtocolVersion level fb =
     (case fb of
        FB_HASH_OUTPUT h \<Rightarrow> bindE (bucketByHash getBucketByHash h) (\<lambda>b. Inr (FB_LIVE_OUTPUT b))
      | FB_HASH_INPUTS hcurr hsnap hshadows \<Rightarrow>
          bindE (bucketByHash getBucketByHash hcurr) (\<lambda>currBucket.
          bindE (bucketByHash getBucketByHash hsnap) (\<lambda>snap.
          bindE (bucketsByHash getBucketByHash hshadows) (\<lambda>shadows.
          Inr (FB_LIVE_INPUTS currBucket snap shadows maxProtocolVersion level))))
      | _ \<Rightarrow> Inl AssertFailed)"

subsection \<open>Levels\<close>

record BucketLevel =
  mLevel :: nat
  mNextCurr :: FutureBucket
  mCurr :: Bucket
  mSnap :: Bucket

definition newLevel :: "nat \<Rightarrow> BucketLevel" where
  "newLevel i = \<lparr>mLevel = i, mNextCurr = FB_CLEAR, mCurr = [], mSnap = []\<rparr>"

definition setCurr :: "Bucket \<Rightarrow> BucketLevel \<Rightarrow> BucketLevel" where
  "setCurr b lev = lev\<lparr>mNextCurr := FB_CLEAR, mCurr := b\<rparr>"

definition commit :: "(nat \<Rightarrow> bool) \<Rightarrow> BucketLevel \<Rightarrow> bucket_error + BucketLevel" where
  "commit isShutdown lev =
     bindE (if isLive (mNextCurr lev)
            then bindE (resolve isShutdown (mNextCurr lev)) (\<lambda>(b, fb). Inr (setCurr b lev))
            else Inr lev) (\<lambda>lev.
     if isMerging (mNextCurr lev) then Inl AssertFailed else Inr lev)"

definition prepare ::
  "uint32 \<Rightarrow> uint32 \<Rightarrow> Bucket \<Rightarrow> Bucket list \<Rightarrow> BucketLevel \<Rightarrow> bucket_error + BucketLevel" where
  "prepare currLedger currLedgerProtocol snap shadows lev =
     (if isMerging (mNextCurr lev) then Inl AssertFailed
      else
        let currBucket = (if shouldMergeWithEmptyCurr currLedger (mLevel lev) then [] else mCurr lev)
        in bindE (getBucketVersion snap) (\<lambda>version.
           bindE (newFutureBucket currBucket snap (if 12 \<le> version then [] else shadows) currLedgerProtocol (mLevel lev))
             (\<lambda>fb. Inr (lev\<lparr>mNextCurr := fb\<rparr>))))"

definition snapLevel :: "BucketLevel \<Rightarrow> BucketLevel" where
  "snapLevel lev = lev\<lparr>mSnap := mCurr lev, mCurr := []\<rparr>"

subsection \<open>The list\<close>

type_synonym BucketList = "BucketLevel list"

definition newBucketList :: BucketList where
  "newBucketList = map newLevel [0..<kNumLevels]"

definition popTwo :: "Bucket list \<Rightarrow> bucket_error + Bucket list" where
  "popTwo shadows = (if length shadows < 2 then Inl AssertFailed else Inr (butlast (butlast shadows)))"

definition spillInto ::
  "(nat \<Rightarrow> bool) \<Rightarrow> uint32 \<Rightarrow> uint32 \<Rightarrow> nat \<Rightarrow> Bucket list \<Rightarrow> BucketList \<Rightarrow> bucket_error + BucketList" where
  "spillInto isShutdown currLedger currLedgerProtocol i shadows levels =
     (if levelShouldSpill currLedger (i - 1) then
        let below = snapLevel (levels ! (i - 1)); levels = levels[i - 1 := below]
        in bindE (commit isShutdown (levels ! i)) (\<lambda>lev.
           bindE (prepare currLedger currLedgerProtocol (mSnap below) shadows lev) (\<lambda>lev.
           Inr (levels[i := lev])))
      else Inr levels)"

text \<open>The loop of \<open>addBatch\<close>, from the oldest level down to level 1.\<close>

primrec spillLevels ::
  "(nat \<Rightarrow> bool) \<Rightarrow> uint32 \<Rightarrow> uint32 \<Rightarrow> nat \<Rightarrow> Bucket list \<Rightarrow> BucketList \<Rightarrow>
   bucket_error + Bucket list \<times> BucketList" where
  "spillLevels isShutdown currLedger currLedgerProtocol 0 shadows levels = Inr (shadows, levels)"
| "spillLevels isShutdown currLedger currLedgerProtocol (Suc i) shadows levels =
     bindE (popTwo shadows) (\<lambda>shadows.
     bindE (spillInto isShutdown currLedger currLedgerProtocol (Suc i) shadows levels) (\<lambda>levels.
     spillLevels isShutdown currLedger currLedgerProtocol i shadows levels))"

primrec resolveAnyReadyFutures ::
  "(nat \<Rightarrow> bool) \<Rightarrow> (nat \<Rightarrow> bool) \<Rightarrow> BucketList \<Rightarrow> bucket_error + BucketList" where
  "resolveAnyReadyFutures isShutdown ready [] = Inr []"
| "resolveAnyReadyFutures isShutdown ready (lev # levels) =
     bindE (if isMerging (mNextCurr lev) \<and> ready (mLevel lev)
            then bindE (resolve isShutdown (mNextCurr lev)) (\<lambda>(b, fb). Inr (lev\<lparr>mNextCurr := fb\<rparr>))
            else Inr lev) (\<lambda>lev.
     bindE (resolveAnyReadyFutures isShutdown ready levels) (\<lambda>levels.
     Inr (lev # levels)))"

definition addBatch ::
  "(nat \<Rightarrow> bool) \<Rightarrow> (nat \<Rightarrow> bool) \<Rightarrow> uint32 \<Rightarrow> uint32 \<Rightarrow>
   LedgerEntry list \<Rightarrow> LedgerEntry list \<Rightarrow> LedgerKey list \<Rightarrow> BucketList \<Rightarrow> bucket_error + BucketList" where
  "addBatch isShutdown ready currLedger currLedgerProtocol initEntries liveEntries deadEntries levels =
     (if currLedger = 0 then Inl AssertFailed
      else
        bindE (popTwo (concat (map (\<lambda>lev. [mCurr lev, mSnap lev]) levels))) (\<lambda>shadows.
        bindE (spillLevels isShutdown currLedger currLedgerProtocol (length levels - 1) shadows levels)
          (\<lambda>(shadows, levels).
        if shadows \<noteq> [] then Inl AssertFailed
        else
          bindE (fresh currLedgerProtocol initEntries liveEntries deadEntries) (\<lambda>b.
          bindE (prepare currLedger currLedgerProtocol b shadows (levels ! 0)) (\<lambda>lev.
          bindE (commit isShutdown lev) (\<lambda>lev.
          resolveAnyReadyFutures isShutdown ready (levels[0 := lev])))))))"

definition futuresAllResolved :: "BucketList \<Rightarrow> nat \<Rightarrow> bucket_error + bool" where
  "futuresAllResolved levels maxLevel =
     (if \<not> maxLevel < length levels then Inl AssertFailed
      else Inr (\<forall>lev\<in>set (take (maxLevel + 1) levels). \<not> isMerging (mNextCurr lev)))"

definition getMaxMergeLevel :: "BucketList \<Rightarrow> uint32 \<Rightarrow> nat" where
  "getMaxMergeLevel levels currLedger =
     length (takeWhile (\<lambda>i. levelShouldSpill currLedger i) [0..<length levels - 1])"

subsection \<open>Restarting merges\<close>

text \<open>The loop of \<open>restartMerges\<close> from level \<open>i\<close> on; \<open>levels\<close> is the whole list. The empty bucket is the one with the empty hash.\<close>

function restartFrom ::
  "(uint256 \<Rightarrow> Bucket option) \<Rightarrow> uint32 \<Rightarrow> uint32 \<Rightarrow> nat \<Rightarrow> BucketList \<Rightarrow> bucket_error + BucketList" where
  "restartFrom getBucketByHash maxProtocolVersion ledger i levels =
     (if \<not> i < length levels then Inr levels
      else
        let next = mNextCurr (levels ! i) in
        if hasHashes next \<and> \<not> isLive next then
          bindE (makeLive getBucketByHash maxProtocolVersion i next) (\<lambda>fb.
          restartFrom getBucketByHash maxProtocolVersion ledger (i + 1) (levels[i := (levels ! i)\<lparr>mNextCurr := fb\<rparr>]))
        else if isClear next \<and> i > 0 then
          let snap = mSnap (levels ! (i - 1)) in
          if snap = [] then Inr levels
          else
            bindE (getBucketVersion snap) (\<lambda>version.
            if version < 12 then Inl ClearFutureWithOldSnap
            else
              bindE (prepare (maskLedger ledger (levelHalf (i - 1))) version snap [] (levels ! i)) (\<lambda>lev.
              restartFrom getBucketByHash maxProtocolVersion ledger (i + 1) (levels[i := lev])))
        else restartFrom getBucketByHash maxProtocolVersion ledger (i + 1) levels)"
  by pat_completeness auto

termination
  by (relation "measure (\<lambda>(_, _, _, i, levels). length levels - i)") auto

declare restartFrom.simps [simp del]

definition restartMerges ::
  "(uint256 \<Rightarrow> Bucket option) \<Rightarrow> uint32 \<Rightarrow> uint32 \<Rightarrow> BucketList \<Rightarrow> bucket_error + BucketList" where
  "restartMerges getBucketByHash maxProtocolVersion ledger levels =
     restartFrom getBucketByHash maxProtocolVersion ledger 0 levels"

end
