(* ===== verification/BucketLevels.thy ===== *)
theory BucketLevels
  imports BucketList
begin

text \<open>
  The schedule of the bucket list: when levels spill, and when a level takes part in a merge with an
  empty bucket because its own bucket is about to be snapped.
\<close>

definition halfExp :: "nat \<Rightarrow> nat" where
  "halfExp i = 2 * i + 1"

abbreviation halfOf :: "nat \<Rightarrow> nat" where
  "halfOf i \<equiv> 2 ^ halfExp i"

lemma levelSize_exp: "levelSize i = 2 ^ Suc (halfExp i)"
  by (simp add: levelSize_def push_bit_eq_mult halfExp_def)

lemma halfExp_less: "i \<le> 10 \<Longrightarrow> Suc (halfExp i) < 32"
  by (simp add: halfExp_def)

lemma levelHalf_exp: "i \<le> 10 \<Longrightarrow> levelHalf i = 2 ^ halfExp i"
  using halfExp_less [of i]
  by (simp add: levelHalf_def levelSize_exp drop_bit_exp_eq possible_bit_def del: power_Suc)

lemma unat_exp: "k < 32 \<Longrightarrow> unat (2 ^ k :: uint32) = 2 ^ k"
proof -
  assume "k < 32"
  then have "(2::nat) ^ k < 2 ^ 32" by (rule power_strict_increasing) simp
  moreover have "(2 :: uint32) ^ k = word_of_nat (2 ^ k)" by simp
  ultimately show ?thesis by (simp only: unat_of_nat) simp
qed

lemma maskLedger_unat:
  assumes "k < 32"
  shows "unat (maskLedger v (2 ^ k)) = unat v - unat v mod 2 ^ k"
proof -
  have "maskLedger v (2 ^ k) = and v (not (take_bit k v))"
    unfolding maskLedger_def mask_eq_exp_minus_1 [symmetric]
    by (rule bit_eqI) (auto simp: bit_simps)
  also have "\<dots> = v - take_bit k v"
    by (rule disjunctive_diff [symmetric]) (simp add: bit_simps)
  finally have "maskLedger v (2 ^ k) = v - take_bit k v" .
  moreover have u: "unat (take_bit k v) = unat v mod 2 ^ k"
    by (metis take_bit_eq_mod unsigned_take_bit_eq)
  moreover have "take_bit k v \<le> v" by (simp add: word_le_nat_alt u)
  ultimately show ?thesis by (simp add: unat_sub)
qed

lemma maskLedger_id: "k < 32 \<Longrightarrow> v = maskLedger v (2 ^ k) \<longleftrightarrow> 2 ^ k dvd unat v"
proof -
  assume k: "k < 32"
  have "v = maskLedger v (2 ^ k) \<longleftrightarrow> unat v = unat v - unat v mod 2 ^ k"
    using maskLedger_unat [OF k, of v] by (metis unsigned_word_eqI)
  also have "\<dots> \<longleftrightarrow> unat v mod 2 ^ k = 0"
    using mod_less_eq_dividend [of "unat v" "2 ^ k"] by arith
  finally show ?thesis by (simp add: mod_eq_0_iff_dvd)
qed

lemma spill_iff: "i \<le> 10 \<Longrightarrow> levelShouldSpill L i \<longleftrightarrow> i \<noteq> 10 \<and> halfOf i dvd unat L"
proof -
  assume i: "i \<le> 10"
  have "halfOf i dvd unat L" if "2 ^ Suc (halfExp i) dvd unat L"
    using that power_le_dvd [of 2 "Suc (halfExp i)" "unat L" "halfExp i"] by (simp del: power_Suc)
  then show ?thesis
    using i halfExp_less [OF i]
    by (auto simp: levelShouldSpill_def kNumLevels_def levelHalf_exp levelSize_exp maskLedger_id simp del: power_Suc)
qed

lemma spill_mono: "levelShouldSpill L i \<Longrightarrow> j \<le> i \<Longrightarrow> i \<le> 10 \<Longrightarrow> levelShouldSpill L j"
  using power_le_dvd [of 2 "halfExp i" "unat L" "halfExp j"] by (auto simp: spill_iff halfExp_def)

lemma emptyCurr_iff:
  assumes "0 < i" "i \<le> 10"
  shows "shouldMergeWithEmptyCurr L i \<longleftrightarrow> i \<noteq> 10 \<and> halfOf i dvd (unat L div halfOf (i - 1) + 1) * halfOf (i - 1)"
proof -
  define k where "k = halfExp (i - 1)"
  have k: "k < 32" using assms by (simp add: k_def halfExp_def)
  let ?m = "maskLedger L (2 ^ k)"
  have m: "unat ?m = unat L div 2 ^ k * 2 ^ k"
    using maskLedger_unat [OF k, of L] by (simp add: minus_mod_eq_div_mult)
  have "unat (?m + 2 ^ k) = (unat ?m + 2 ^ k) mod 2 ^ 32"
    using unat_exp [OF k] by (simp add: unat_word_ariths)
  then have u: "unat (?m + 2 ^ k) = ((unat L div 2 ^ k + 1) * 2 ^ k) mod 2 ^ 32"
    by (simp add: m algebra_simps)
  have "halfOf i dvd (2 ^ 32 :: nat)" by (rule le_imp_power_dvd) (use assms in \<open>simp add: halfExp_def\<close>)
  then have "halfOf i dvd unat (?m + 2 ^ k) \<longleftrightarrow> halfOf i dvd (unat L div 2 ^ k + 1) * 2 ^ k"
    unfolding u by (rule dvd_mod_iff)
  moreover have "levelHalf (i - 1) = 2 ^ k" using assms levelHalf_exp [of "i - 1"] by (simp add: k_def)
  ultimately show ?thesis
    using assms by (simp add: shouldMergeWithEmptyCurr_def Let_def spill_iff k_def)
qed

lemma emptyCurr_0 [simp]: "\<not> shouldMergeWithEmptyCurr L 0"
  by (simp add: shouldMergeWithEmptyCurr_def)

text \<open>From one ledger to the next: what was announced for a level happens when the level above it spills.\<close>

lemma unat_next: "L + 1 \<noteq> 0 \<Longrightarrow> unat (L + 1 :: uint32) = unat L + 1"
  by (metis add.commute unatSuc Suc_eq_plus1)

lemma spill_below:
  assumes "0 < i" "i \<le> 10" shows "levelShouldSpill L (i - 1) \<longleftrightarrow> halfOf (i - 1) dvd unat L"
  using assms by (auto simp: spill_iff)

lemma emptyCurr_same:
  assumes "0 < i" "i \<le> 10" "L + 1 \<noteq> 0" "\<not> levelShouldSpill (L + 1) (i - 1)"
  shows "shouldMergeWithEmptyCurr (L + 1) i \<longleftrightarrow> shouldMergeWithEmptyCurr L i"
proof -
  have "\<not> halfOf (i - 1) dvd Suc (unat L)" using assms unat_next spill_below by simp
  then have "Suc (unat L) div halfOf (i - 1) = unat L div halfOf (i - 1)"
    by (simp add: div_Suc mod_eq_0_iff_dvd [symmetric])
  then show ?thesis using assms unat_next by (simp add: emptyCurr_iff)
qed

lemma emptyCurr_spill:
  assumes "0 < i" "i \<le> 10" "L + 1 \<noteq> 0" "levelShouldSpill (L + 1) (i - 1)"
  shows "shouldMergeWithEmptyCurr L i \<longleftrightarrow> levelShouldSpill (L + 1) i"
proof -
  have d: "halfOf (i - 1) dvd Suc (unat L)" using assms unat_next spill_below by simp
  then have "Suc (unat L) div halfOf (i - 1) = Suc (unat L div halfOf (i - 1))"
    by (simp add: div_Suc mod_eq_0_iff_dvd [symmetric])
  then have "Suc (unat L div halfOf (i - 1)) * halfOf (i - 1) = Suc (unat L)"
    using d by (metis dvd_div_mult_self)
  then show ?thesis using assms unat_next by (simp add: emptyCurr_iff spill_iff)
qed

end
