(* ===== verification/BucketListState.thy ===== *)
theory BucketListState
  imports BucketFresh BucketLevels
begin

text \<open>
  The ledger state that a bucket list stands for, the invariant that relates its levels, and the
  effect of \<open>addBatch\<close> on both: the list always stands for the state after the last ledger. The
  invariant speaks of buckets written at protocol 12 or later, where merges have no shadows.
\<close>

subsection \<open>Buckets of protocol 12\<close>

definition bodyOf :: "Bucket \<Rightarrow> BucketEntry list" where
  "bodyOf b = filter (\<lambda>e. \<not> isMeta e) b"

definition versionOf :: "Bucket \<Rightarrow> uint32" where
  "versionOf b = (case b of METAENTRY v # _ \<Rightarrow> v | _ \<Rightarrow> 0)"

definition bucketOk :: "Bucket \<Rightarrow> bool" where
  "bucketOk b \<longleftrightarrow> b = [] \<or> (\<exists>v es. 12 \<le> v \<and> b = bucketOf v es \<and> bodyOk v es)"

definition mergedBucket :: "bool \<Rightarrow> Bucket \<Rightarrow> Bucket \<Rightarrow> Bucket" where
  "mergedBucket keepDead c s =
     bucketOf (max (versionOf c) (versionOf s)) (kept True keepDead [] (mergePuts (bodyOf c) (bodyOf s)))"

lemma versionOf_Nil [simp]: "versionOf [] = 0" and bodyOf_Nil [simp]: "bodyOf [] = []"
  by (simp_all add: versionOf_def bodyOf_def)

lemma twelve: "(12 :: uint32) \<le> v \<Longrightarrow> 11 \<le> v"
  by (rule order_trans [of _ 12]) simp_all

lemma bucketOf_parts:
  assumes "12 \<le> v" "bodyOk v es"
  shows "versionOf (bucketOf v es) = v" "bodyOf (bucketOf v es) = es" "bucketOf v es \<noteq> []"
  using twelve [OF assms(1)] assms(2)
  by (auto simp: versionOf_def bodyOf_def bucketOf_def bodyOk_def legalEntry_def filter_id_conv)

lemma bucketOkI: "12 \<le> v \<Longrightarrow> bodyOk v es \<Longrightarrow> bucketOk (bucketOf v es)"
  by (auto simp: bucketOk_def)

lemma bucketOk_parts:
  assumes "bucketOk b"
  shows "b = bucketOf (versionOf b) (bodyOf b)" "bodyOk (versionOf b) (bodyOf b)"
    "readVersion (versionOf b) = versionOf b" "b \<noteq> [] \<longleftrightarrow> 12 \<le> versionOf b"
proof -
  have "b = bucketOf (versionOf b) (bodyOf b) \<and> bodyOk (versionOf b) (bodyOf b) \<and>
    readVersion (versionOf b) = versionOf b \<and> (b \<noteq> [] \<longleftrightarrow> 12 \<le> versionOf b)"
  proof (cases "b = []")
    case True
    then show ?thesis by (simp add: bucketOf_def readVersion_def)
  next
    case False
    then obtain v es where b: "12 \<le> v" "b = bucketOf v es" "bodyOk v es" using assms by (auto simp: bucketOk_def)
    then show ?thesis using bucketOf_parts [OF b(1,3)] twelve [OF b(1)] by (simp add: readVersion_def)
  qed
  then show "b = bucketOf (versionOf b) (bodyOf b)" "bodyOk (versionOf b) (bodyOf b)"
    "readVersion (versionOf b) = versionOf b" "b \<noteq> [] \<longleftrightarrow> 12 \<le> versionOf b" by blast+
qed

lemma bucketOk_Nil [simp]: "bucketOk []"
  by (simp add: bucketOk_def)

lemma applyBucket_body: "bucketOk b \<Longrightarrow> applyBucket b m = applyBucket (bodyOf b) m"
  using bucketOk_parts(1) applyBucket_bucketOf by metis

lemma initsFresh_body: "initsFresh b m \<longleftrightarrow> initsFresh (bodyOf b) m"
proof -
  have "isInit e \<Longrightarrow> \<not> isMeta e" for e by (cases e) simp_all
  then show ?thesis by (auto simp: initsFresh_def bodyOf_def)
qed

lemma initsFresh_Nil [simp]: "initsFresh [] m"
  by (simp add: initsFresh_def)

lemma getBucketVersion_ok:
  assumes "bucketOk b" shows "getBucketVersion b = Inr (versionOf b)"
proof -
  obtain it where "openBucket b = Inr it" "mMetadata it = versionOf b"
    using openBucket_at [OF bucketOk_parts(2) [OF assms]] bucketOk_parts [OF assms] by metis
  then show ?thesis by (simp add: getBucketVersion_def)
qed

subsection \<open>Merges of such buckets\<close>

lemma merged_compatible:
  assumes "bucketOk c" "bucketOk s" "initsFresh c m" "initsFresh s (applyBucket c m)"
  shows "compatible (bodyOf c) (bodyOf s)"
proof -
  let ?v = "max (versionOf c) (versionOf s)"
  have ok: "bodyOk ?v (bodyOf c)" "bodyOk ?v (bodyOf s)"
    using bodyOk_version bucketOk_parts(2,3) [OF assms(1)] bucketOk_parts(2,3) [OF assms(2)] by (metis max.cobounded1 max.cobounded2)+
  show ?thesis
    using fresh_compatible [OF ok] assms(3,4) initsFresh_body applyBucket_body [OF assms(1)] by metis
qed

lemma merged_ok:
  assumes "bucketOk c" "bucketOk s" "s \<noteq> []"
  shows "bucketOk (mergedBucket keepDead c s)" "versionOf (mergedBucket keepDead c s) = max (versionOf c) (versionOf s)"
    "bodyOf (mergedBucket keepDead c s) = kept True keepDead [] (mergePuts (bodyOf c) (bodyOf s))"
    "mergedBucket keepDead c s \<noteq> []"
proof -
  let ?v = "max (versionOf c) (versionOf s)"
  have v: "12 \<le> ?v" using bucketOk_parts(4) [OF assms(2)] assms(3) by (simp add: le_max_iff_disj)
  have "bodyOk ?v (bodyOf c)" "bodyOk ?v (bodyOf s)"
    using bodyOk_version bucketOk_parts(2,3) [OF assms(1)] bucketOk_parts(2,3) [OF assms(2)] by (metis max.cobounded1 max.cobounded2)+
  then have b: "bodyOk ?v (kept True keepDead [] (mergePuts (bodyOf c) (bodyOf s)))"
    by (intro kept_ok mergePuts_ok)
  show "bucketOk (mergedBucket keepDead c s)" unfolding mergedBucket_def by (rule bucketOkI [OF v b])
  show "versionOf (mergedBucket keepDead c s) = ?v"
    "bodyOf (mergedBucket keepDead c s) = kept True keepDead [] (mergePuts (bodyOf c) (bodyOf s))"
    "mergedBucket keepDead c s \<noteq> []"
    unfolding mergedBucket_def by (simp_all only: bucketOf_parts [OF v b]) simp
qed

lemma merge_merged:
  assumes "bucketOk c" "bucketOk s" "s \<noteq> []" "compatible (bodyOf c) (bodyOf s)"
    and "versionOf c \<le> p" "versionOf s \<le> p" "\<forall>n. \<not> sh n"
  shows "merge sh p c s [] keepDead = Inr (mergedBucket keepDead c s)"
proof -
  note c = bucketOk_parts [OF assms(1)] and s = bucketOk_parts [OF assms(2)]
  have v: "mergeVersion (versionOf c) (versionOf s) [] = max (versionOf c) (versionOf s)"
    using c(3) s(3) by (simp add: mergeVersion_def)
  have "11 \<le> max (versionOf c) (versionOf s)" using s(4) assms(3) twelve by (simp add: le_max_iff_disj)
  moreover have "\<not> p < max (versionOf c) (versionOf s)" using assms(5,6) by (simp add: not_less)
  moreover have "merge sh p (bucketOf (versionOf c) (bodyOf c)) (bucketOf (versionOf s) (bodyOf s)) (shadowBuckets []) keepDead =
      mergeReference p (versionOf c, bodyOf c) (versionOf s, bodyOf s) [] keepDead"
    using merge_eq_reference [OF c(2) s(2) _ assms(7)] by simp
  ultimately show ?thesis
    using c(1) s(1) assms(4) by (simp add: mergeReference_def v mergedBucket_def shadowBuckets_def)
qed

lemma merged_effect:
  assumes "bucketOk c" "bucketOk s" "s \<noteq> []" "initsFresh c m" "initsFresh s (applyBucket c m)"
    and "keepDead \<or> m = Map.empty"
  shows "initsFresh (mergedBucket keepDead c s) m"
    and "applyBucket (mergedBucket keepDead c s) m = applyBucket s (applyBucket c m)"
proof -
  let ?v = "max (versionOf c) (versionOf s)" and ?es = "kept True keepDead [] (mergePuts (bodyOf c) (bodyOf s))"
  have ok: "bodyOk ?v (bodyOf c)" "bodyOk ?v (bodyOf s)"
    using bodyOk_version bucketOk_parts(2,3) [OF assms(1)] bucketOk_parts(2,3) [OF assms(2)] by (metis max.cobounded1 max.cobounded2)+
  have init: "initsFresh (bodyOf c) m" "initsFresh (bodyOf s) (applyBucket (bodyOf c) m)"
    using assms(4,5) initsFresh_body applyBucket_body [OF assms(1)] by metis+
  note mo = merged_ok [OF assms(1-3), of keepDead]
  show "initsFresh (mergedBucket keepDead c s) m"
    using merged_body(1) [OF ok init] initsFresh_body mo(3) by metis
  have "applyBucket ?es m k = applyBucket (bodyOf s) (applyBucket (bodyOf c) m) k" for k
    using merged_body(2) [OF ok init, of ?es True keepDead "[]" k] assms(6) by (auto simp: shadowKeys_def)
  then have "applyBucket ?es m = applyBucket (bodyOf s) (applyBucket (bodyOf c) m)" by blast
  then show "applyBucket (mergedBucket keepDead c s) m = applyBucket s (applyBucket c m)"
    using applyBucket_body mo(1,3) assms(1,2) by metis
qed

lemma merged_Nil: "bucketOk s \<Longrightarrow> mergedBucket True [] s = s"
proof -
  assume s: "bucketOk s"
  have "kept True True [] es = es" for es by (simp add: kept_def keepPut_def shadowKeys_def)
  then show ?thesis using bucketOk_parts(1) [OF s] by (simp add: mergedBucket_def max_def)
qed

end
