(* ===== verification/BucketListInvariant.thy ===== *)
theory BucketListInvariant
  imports BucketListState
begin

text \<open>
  The invariant of the bucket list after a ledger, and how the loop of \<open>addBatch\<close> changes the levels.
  A list is given here by the function that yields its levels.
\<close>

subsection \<open>The state of a list\<close>

fun stateOf :: "BucketList \<Rightarrow> LedgerState" where
  "stateOf [] = Map.empty"
| "stateOf (lev # levels) = applyBucket (mCurr lev) (applyBucket (mSnap lev) (stateOf levels))"

definition stateAt :: "(nat \<Rightarrow> BucketLevel) \<Rightarrow> nat \<Rightarrow> LedgerState" where
  "stateAt f i = stateOf (map f [i..<11])"

definition listOf :: "(nat \<Rightarrow> BucketLevel) \<Rightarrow> BucketList" where
  "listOf f = map f [0..<11]"

lemma stateAt_11 [simp]: "stateAt f 11 = Map.empty"
  by (simp add: stateAt_def)

lemma stateAt_step:
  "i < 11 \<Longrightarrow> stateAt f i = applyBucket (mCurr (f i)) (applyBucket (mSnap (f i)) (stateAt f (Suc i)))"
  by (simp add: stateAt_def upt_conv_Cons)

lemma stateOf_listOf: "stateOf (listOf f) = stateAt f 0"
  by (simp add: listOf_def stateAt_def)

lemma stateAt_cong:
  "(\<And>j. i \<le> j \<Longrightarrow> j < 11 \<Longrightarrow> mCurr (f j) = mCurr (g j) \<and> mSnap (f j) = mSnap (g j)) \<Longrightarrow> i \<le> 11 \<Longrightarrow>
   stateAt f i = stateAt g i"
proof (induction "11 - i" arbitrary: i)
  case (Suc n)
  then show ?case using Suc.hyps(1) [of "Suc i"] by (simp add: stateAt_step)
qed simp

lemma listOf_nth [simp]: "i < 11 \<Longrightarrow> listOf f ! i = f i"
  by (simp add: listOf_def del: upt_Suc)

lemma listOf_length [simp]: "length (listOf f) = 11"
  by (simp add: listOf_def)

lemma listOf_update: "i < 11 \<Longrightarrow> (listOf f)[i := x] = listOf (f(i := x))"
  by (rule nth_equalityI) (auto simp: nth_list_update)

lemma listOf_eq: "(\<And>i. i < 11 \<Longrightarrow> f i = g i) \<Longrightarrow> listOf f = listOf g"
  by (simp add: listOf_def)

subsection \<open>The invariant\<close>

definition pendingMerge :: "uint32 \<Rightarrow> (nat \<Rightarrow> BucketLevel) \<Rightarrow> nat \<Rightarrow> Bucket" where
  "pendingMerge L f i =
     mergedBucket (keepDeadEntries i) (if shouldMergeWithEmptyCurr L i then [] else mCurr (f i)) (mSnap (f (i - 1)))"

definition resolvesTo :: "(nat \<Rightarrow> bool) \<Rightarrow> FutureBucket \<Rightarrow> Bucket \<Rightarrow> bool" where
  "resolvesTo sh fb b \<longleftrightarrow> resolve sh fb = Inr (b, FB_LIVE_OUTPUT b)"

text \<open>The buckets of a level, their order in time, and when they are filled.\<close>

definition levelOk :: "uint32 \<Rightarrow> (nat \<Rightarrow> BucketLevel) \<Rightarrow> nat \<Rightarrow> bool" where
  "levelOk L f i \<longleftrightarrow>
     mLevel (f i) = i \<and> bucketOk (mCurr (f i)) \<and> bucketOk (mSnap (f i)) \<and>
     initsFresh (mSnap (f i)) (stateAt f (Suc i)) \<and>
     initsFresh (mCurr (f i)) (applyBucket (mSnap (f i)) (stateAt f (Suc i))) \<and>
     versionOf (mSnap (f i)) \<le> versionOf (mCurr (f i)) \<and>
     (mCurr (f i) = [] \<longrightarrow> unat L < 4 ^ i) \<and>
     (mSnap (f i) = [] \<longleftrightarrow> i = 10 \<or> unat L < halfOf i)"

text \<open>A level and the newer one that spills into it.\<close>

definition linkOk :: "(nat \<Rightarrow> bool) \<Rightarrow> uint32 \<Rightarrow> (nat \<Rightarrow> BucketLevel) \<Rightarrow> nat \<Rightarrow> bool" where
  "linkOk sh L f i \<longleftrightarrow>
     versionOf (mCurr (f i)) \<le> versionOf (mSnap (f (i - 1))) \<and>
     (if unat L < halfOf (i - 1) then mNextCurr (f i) = FB_CLEAR
      else resolvesTo sh (mNextCurr (f i)) (pendingMerge L f i))"

definition listInv :: "(nat \<Rightarrow> bool) \<Rightarrow> uint32 \<Rightarrow> uint32 \<Rightarrow> (nat \<Rightarrow> BucketLevel) \<Rightarrow> bool" where
  "listInv sh L p f \<longleftrightarrow>
     (\<forall>i<11. levelOk L f i) \<and> (\<forall>i. 0 < i \<and> i < 11 \<longrightarrow> linkOk sh L f i) \<and>
     mNextCurr (f 0) = FB_CLEAR \<and> versionOf (mCurr (f 0)) \<le> p"

lemma listInv_new: "listInv sh 0 p newLevel"
proof -
  have e: "stateAt newLevel i = Map.empty" if "i \<le> 11" for i
    using that by (induction "11 - i" arbitrary: i) (simp_all add: stateAt_step newLevel_def)
  show ?thesis by (simp add: listInv_def levelOk_def linkOk_def newLevel_def)
qed

lemma resolvesTo_live: "resolvesTo sh fb b \<Longrightarrow> isLive fb"
  by (cases fb) (simp_all add: resolvesTo_def resolve_def isLive_def)

lemma resolvesTo_output [simp]: "resolvesTo sh (FB_LIVE_OUTPUT b) c \<longleftrightarrow> c = b"
  by (auto simp: resolvesTo_def resolve_def)

lemma resolvesTo_clear [simp]: "\<not> resolvesTo sh FB_CLEAR b"
  by (simp add: resolvesTo_def resolve_def)

lemma resolvesTo_unique: "resolvesTo sh fb b \<Longrightarrow> resolvesTo sh fb c \<Longrightarrow> b = c"
  by (simp add: resolvesTo_def)

subsection \<open>Facts of the invariant\<close>

lemma halfOf_four: "halfOf i = 2 * 4 ^ i"
  by (simp add: halfExp_def power_mult)

text \<open>A level that spills has something to spill.\<close>

lemma spill_nonempty:
  assumes "levelOk L f i" "i \<le> 10" "L + 1 \<noteq> 0" "levelShouldSpill (L + 1) i"
  shows "mCurr (f i) \<noteq> []" "\<not> unat (L + 1) < halfOf i"
proof -
  have d: "halfOf i dvd Suc (unat L)" using assms unat_next by (simp add: spill_iff)
  then have "halfOf i \<le> Suc (unat L)" by (rule dvd_imp_le) simp
  then show "\<not> unat (L + 1) < halfOf i" "mCurr (f i) \<noteq> []"
    using assms(1,3) unat_next halfOf_four [of i] by (auto simp: levelOk_def)
qed

lemma below_next:
  fixes L :: uint32
  assumes "L + 1 \<noteq> 0" "\<not> halfOf i dvd unat (L + 1)"
  shows "unat (L + 1) < halfOf i \<longleftrightarrow> unat L < halfOf i"
  using assms unat_next [of L] by (cases "Suc (unat L) = halfOf i") auto

lemma below_four_next:
  fixes L :: uint32
  assumes "L + 1 \<noteq> 0" "0 < i" "\<not> halfOf (i - 1) dvd unat (L + 1)" "unat L < 4 ^ i"
  shows "unat (L + 1) < 4 ^ i"
proof -
  have "4 ^ i = halfOf (i - 1) * 2" using assms(2) halfOf_four [of "i - 1"] by (cases i) simp_all
  then have "unat (L + 1) \<noteq> 4 ^ i" using assms(3) by (metis dvd_triv_left)
  then show ?thesis using assms(1,4) unat_next by simp
qed

lemma first_spill:
  fixes L :: uint32
  assumes "L + 1 \<noteq> 0" "0 < i" "halfOf (i - 1) dvd unat (L + 1)" "unat L < halfOf (i - 1)"
  shows "unat (L + 1) = halfOf (i - 1)" "unat (L + 1) < 4 ^ i" "\<not> halfOf i dvd unat (L + 1)"
proof -
  have "halfOf (i - 1) \<le> unat (L + 1)" using assms(3) unat_next [OF assms(1)] by (intro dvd_imp_le) simp_all
  then show u: "unat (L + 1) = halfOf (i - 1)" using assms(4) unat_next [OF assms(1)] by simp
  have four: "4 ^ i = halfOf (i - 1) * 2" "halfOf i = 4 * halfOf (i - 1)"
    using assms(2) halfOf_four [of "i - 1"] halfOf_four [of i] by (cases i; simp)+
  then show "unat (L + 1) < 4 ^ i" using u by simp
  show "\<not> halfOf i dvd unat (L + 1)"
    unfolding u four(2) using dvd_imp_le [of "4 * halfOf (i - 1)" "halfOf (i - 1)"] by auto
qed

lemma version_le:
  assumes "listInv sh L p f"
  shows "i < 11 \<Longrightarrow> versionOf (mCurr (f i)) \<le> p \<and> versionOf (mSnap (f i)) \<le> p"
proof (induction i)
  case 0
  have "levelOk L f 0" "versionOf (mCurr (f 0)) \<le> p" using assms by (auto simp: listInv_def)
  then show ?case by (auto simp: levelOk_def intro: order_trans)
next
  case (Suc i)
  then have "versionOf (mSnap (f i)) \<le> p" "linkOk sh L f (Suc i)" "levelOk L f (Suc i)"
    using assms by (auto simp: listInv_def)
  then show ?case by (auto simp: linkOk_def levelOk_def intro: order_trans)
qed

subsection \<open>One step of the loop\<close>

text \<open>
  The levels after the loop of \<open>addBatch\<close> for ledger \<open>L\<close> at protocol \<open>p\<close>, if the list had the invariant at
  the ledger before: a level that spills has its current bucket as the snapshot, and a level that takes
  in a snapshot has the result of the pending merge and a new pending merge.
\<close>

definition snapped :: "uint32 \<Rightarrow> (nat \<Rightarrow> BucketLevel) \<Rightarrow> nat \<Rightarrow> BucketLevel" where
  "snapped L f i = (if levelShouldSpill L i then snapLevel (f i) else f i)"

definition committed :: "uint32 \<Rightarrow> (nat \<Rightarrow> BucketLevel) \<Rightarrow> nat \<Rightarrow> BucketLevel" where
  "committed L f i =
     (if mNextCurr (f i) = FB_CLEAR then snapped L f i else setCurr (pendingMerge (L - 1) f i) (snapped L f i))"

definition spilled :: "uint32 \<Rightarrow> uint32 \<Rightarrow> (nat \<Rightarrow> BucketLevel) \<Rightarrow> nat \<Rightarrow> BucketLevel" where
  "spilled L p f i =
     (if 0 < i \<and> levelShouldSpill L (i - 1)
      then (committed L f i)\<lparr>mNextCurr :=
              FB_LIVE_INPUTS (if shouldMergeWithEmptyCurr L i then [] else mCurr (committed L f i))
                (mCurr (f (i - 1))) [] p i\<rparr>
      else snapped L f i)"

definition midway :: "uint32 \<Rightarrow> uint32 \<Rightarrow> (nat \<Rightarrow> BucketLevel) \<Rightarrow> nat \<Rightarrow> nat \<Rightarrow> BucketLevel" where
  "midway L p f i j = (if i < j then spilled L p f j else if j = i then snapped L f i else f j)"

lemma commit_at:
  assumes "listInv sh L p f" "0 < i" "i < 11" "L + 1 \<noteq> 0"
  shows "commit sh (snapped (L + 1) f i) = Inr (committed (L + 1) f i)"
    and "mNextCurr (committed (L + 1) f i) = FB_CLEAR"
    and "mLevel (committed (L + 1) f i) = i"
proof -
  have link: "linkOk sh L f i" "levelOk L f i" using assms by (auto simp: listInv_def)
  have s: "mNextCurr (snapped (L + 1) f i) = mNextCurr (f i)" "mLevel (snapped (L + 1) f i) = i"
    using link(2) by (simp_all add: snapped_def snapLevel_def levelOk_def)
  then show "mNextCurr (committed (L + 1) f i) = FB_CLEAR" "mLevel (committed (L + 1) f i) = i"
    by (simp_all add: committed_def setCurr_def)
  show "commit sh (snapped (L + 1) f i) = Inr (committed (L + 1) f i)"
  proof (cases "mNextCurr (f i) = FB_CLEAR")
    case True
    then show ?thesis using s by (simp add: commit_def committed_def isLive_def isMerging_def)
  next
    case False
    then have r: "resolvesTo sh (mNextCurr (f i)) (pendingMerge L f i)"
      using link(1) by (auto simp: linkOk_def split: if_splits)
    then show ?thesis
      using False s resolvesTo_live [OF r]
      by (simp add: commit_def committed_def resolvesTo_def setCurr_def isMerging_def)
  qed
qed

lemma prepare_at:
  assumes "bucketOk b" "b \<noteq> []" "mNextCurr lev = FB_CLEAR"
  shows "prepare L p b shadows lev =
     Inr (lev\<lparr>mNextCurr := FB_LIVE_INPUTS (if shouldMergeWithEmptyCurr L (mLevel lev) then [] else mCurr lev) b [] p (mLevel lev)\<rparr>)"
  using assms getBucketVersion_ok [OF assms(1)] bucketOk_parts(4) [OF assms(1)]
  by (simp add: prepare_def newFutureBucket_def isMerging_def Let_def)

lemma spillInto_at:
  assumes inv: "listInv sh L p' f" and i: "0 < i" "i < 11" and L: "L + 1 \<noteq> 0"
  shows "spillInto sh (L + 1) p i shadows (listOf (midway (L + 1) p f i)) = Inr (listOf (midway (L + 1) p f (i - 1)))"
proof (cases "levelShouldSpill (L + 1) (i - 1)")
  case False
  then have "\<not> levelShouldSpill (L + 1) i" using spill_mono [of "L + 1" i "i - 1"] i by auto
  then have "midway (L + 1) p f i = midway (L + 1) p f (i - 1)"
    using False i by (auto simp: midway_def spilled_def snapped_def fun_eq_iff)
  then show ?thesis using False by (simp add: spillInto_def)
next
  case True
  let ?b = "snapLevel (f (i - 1))"
  have ok: "levelOk L f (i - 1)" using inv i by (simp add: listInv_def)
  have mid: "listOf (midway (L + 1) p f i) ! (i - 1) = f (i - 1)" using i by (simp add: midway_def)
  have c: "mCurr (f (i - 1)) \<noteq> []" "bucketOk (mCurr (f (i - 1)))"
    using spill_nonempty [OF ok _ L True] ok i by (auto simp: levelOk_def)
  note cm = commit_at [OF inv i L]
  have "(midway (L + 1) p f i)(i - 1 := ?b, i := spilled (L + 1) p f i) = midway (L + 1) p f (i - 1)"
    using True i by (auto simp: midway_def snapped_def fun_eq_iff)
  moreover have "((midway (L + 1) p f i)(i - 1 := ?b)) i = snapped (L + 1) f i"
    using i by (simp add: midway_def)
  moreover have "(committed (L + 1) f i)\<lparr>mNextCurr := FB_LIVE_INPUTS (if shouldMergeWithEmptyCurr (L + 1) i then []
      else mCurr (committed (L + 1) f i)) (mCurr (f (i - 1))) [] p i\<rparr> = spilled (L + 1) p f i"
    using True i by (simp add: spilled_def)
  ultimately show ?thesis
    using True i cm prepare_at [OF c(2,1) cm(2), of "L + 1" p shadows] mid
    by (simp add: spillInto_def Let_def listOf_update snapLevel_def)
qed

lemma popTwo_at: "length shadows = 2 * Suc i \<Longrightarrow> \<exists>s. popTwo shadows = Inr s \<and> length s = 2 * i"
  by (simp add: popTwo_def)

lemma spillLevels_at:
  assumes inv: "listInv sh L p' f" and L: "L + 1 \<noteq> 0"
  shows "i < 11 \<Longrightarrow> length shadows = 2 * i \<Longrightarrow>
    spillLevels sh (L + 1) p i shadows (listOf (midway (L + 1) p f i)) = Inr ([], listOf (midway (L + 1) p f 0))"
proof (induction i arbitrary: shadows)
  case (Suc i)
  obtain s where "popTwo shadows = Inr s" "length s = 2 * i" using popTwo_at Suc.prems(2) by blast
  then show ?case using spillInto_at [OF inv _ Suc.prems(1) L, of p s] Suc by simp
qed simp

lemma midway_10: "listOf (midway L p f 10) = listOf f"
  by (rule listOf_eq) (auto simp: midway_def snapped_def levelShouldSpill_def kNumLevels_def)

subsection \<open>The levels after the loop\<close>

lemma spill_ten [simp]: "\<not> levelShouldSpill L 10"
  by (simp add: levelShouldSpill_def kNumLevels_def)

text \<open>
  The cases of a level: nothing reaches it; the first snapshot reaches it; it absorbs a snapshot; it
  spills, and the snapshot that reaches it becomes its current bucket.
\<close>

lemma spilled_cases [consumes 3, case_names same first absorb shift]:
  assumes inv: "listInv sh L p' f" and i: "0 < i \<and> i < 11" and L: "L + 1 \<noteq> 0"
  obtains "\<not> levelShouldSpill (L + 1) (i - 1)" "\<not> levelShouldSpill (L + 1) i" "spilled (L + 1) p f i = f i"
  | "levelShouldSpill (L + 1) (i - 1)" "\<not> levelShouldSpill (L + 1) i" "unat L < halfOf (i - 1)"
    "mCurr (spilled (L + 1) p f i) = mCurr (f i)" "mSnap (spilled (L + 1) p f i) = mSnap (f i)"
  | "levelShouldSpill (L + 1) (i - 1)" "\<not> levelShouldSpill (L + 1) i" "\<not> unat L < halfOf (i - 1)"
    "mCurr (spilled (L + 1) p f i) = mergedBucket (keepDeadEntries i) (mCurr (f i)) (mSnap (f (i - 1)))"
    "mSnap (spilled (L + 1) p f i) = mSnap (f i)"
  | "levelShouldSpill (L + 1) (i - 1)" "levelShouldSpill (L + 1) i" "\<not> unat L < halfOf (i - 1)" "i < 10"
    "mCurr (spilled (L + 1) p f i) = mSnap (f (i - 1))" "mSnap (spilled (L + 1) p f i) = mCurr (f i)"
proof (cases "levelShouldSpill (L + 1) (i - 1)")
  case False
  then have "\<not> levelShouldSpill (L + 1) i" using spill_mono [of "L + 1" i "i - 1"] i by auto
  then show ?thesis using False that(1) by (simp add: spilled_def snapped_def)
next
  case True
  have link: "linkOk sh L f i" "levelOk L f (i - 1)" using inv i by (auto simp: listInv_def)
  have d: "halfOf (i - 1) dvd unat (L + 1)" using True spill_below i by auto
  have e: "shouldMergeWithEmptyCurr L i \<longleftrightarrow> levelShouldSpill (L + 1) i"
    using emptyCurr_spill [of i L] i L True by auto
  show ?thesis
  proof (cases "unat L < halfOf (i - 1)")
    case first: True
    then have "\<not> levelShouldSpill (L + 1) i"
      using first_spill [OF L _ d first] i by (simp add: spill_iff)
    moreover have "mNextCurr (f i) = FB_CLEAR" using link(1) first by (simp add: linkOk_def)
    ultimately show ?thesis
      using that(2) True first i by (simp add: spilled_def committed_def snapped_def)
  next
    case pending: False
    then have n: "mNextCurr (f i) \<noteq> FB_CLEAR"
      using link(1) by (auto simp: linkOk_def)
    show ?thesis
    proof (cases "levelShouldSpill (L + 1) i")
      case spill: True
      then have ten: "i < 10" using i spill_ten by (cases "i = 10") auto
      have "mergedBucket True [] (mSnap (f (i - 1))) = mSnap (f (i - 1))"
        using link(2) by (intro merged_Nil) (simp add: levelOk_def)
      then show ?thesis
        using that(4) True spill pending n i e ten
        by (simp add: spilled_def committed_def snapped_def snapLevel_def setCurr_def pendingMerge_def
            keepDeadEntries_def kNumLevels_def)
    next
      case False
      then show ?thesis
        using that(3) True pending n i e
        by (simp add: spilled_def committed_def snapped_def setCurr_def pendingMerge_def)
    qed
  qed
qed

lemma spilled_level: "listInv sh L p' f \<Longrightarrow> i < 11 \<Longrightarrow> mLevel (spilled L' p f i) = i"
  by (simp add: spilled_def committed_def snapped_def snapLevel_def setCurr_def listInv_def levelOk_def)

lemma snap_10: "listInv sh L p f \<Longrightarrow> mSnap (f 10) = []"
  by (simp add: listInv_def levelOk_def)

text \<open>The effect of the pending merge of a level, on the state of the older levels.\<close>

lemma absorb_effect:
  assumes inv: "listInv sh L p f" and i: "0 < i" "i < 11" and s: "mSnap (f (i - 1)) \<noteq> []"
  defines "m \<equiv> applyBucket (mSnap (f i)) (stateAt f (Suc i))"
  shows "initsFresh (mergedBucket (keepDeadEntries i) (mCurr (f i)) (mSnap (f (i - 1)))) m"
    and "applyBucket (mergedBucket (keepDeadEntries i) (mCurr (f i)) (mSnap (f (i - 1)))) m =
         applyBucket (mSnap (f (i - 1))) (stateAt f i)"
proof -
  have ok: "levelOk L f i" "levelOk L f (i - 1)" using inv i by (auto simp: listInv_def)
  have st: "stateAt f i = applyBucket (mCurr (f i)) m" using i by (simp add: stateAt_step m_def)
  have c: "bucketOk (mCurr (f i))" "bucketOk (mSnap (f (i - 1)))" "initsFresh (mCurr (f i)) m"
    using ok by (simp_all add: levelOk_def m_def)
  have f: "initsFresh (mSnap (f (i - 1))) (applyBucket (mCurr (f i)) m)"
    using ok(2) i st by (simp add: levelOk_def)
  have d: "keepDeadEntries i \<or> m = Map.empty"
  proof (cases "i = 10")
    case True
    then show ?thesis using snap_10 [OF inv] by (simp add: m_def)
  qed (use i in \<open>simp add: keepDeadEntries_def kNumLevels_def\<close>)
  show "initsFresh (mergedBucket (keepDeadEntries i) (mCurr (f i)) (mSnap (f (i - 1)))) m"
    by (rule merged_effect(1) [OF c(1,2) s c(3) f d])
  show "applyBucket (mergedBucket (keepDeadEntries i) (mCurr (f i)) (mSnap (f (i - 1)))) m =
         applyBucket (mSnap (f (i - 1))) (stateAt f i)"
    using merged_effect(2) [OF c(1,2) s c(3) f d] st by simp
qed

lemma snap_nonempty:
  assumes "listInv sh L p f" "0 < i" "i < 11"
  shows "mSnap (f (i - 1)) = [] \<longleftrightarrow> unat L < halfOf (i - 1)"
  using assms by (auto simp: listInv_def levelOk_def)

lemma spilled_state:
  assumes inv: "listInv sh L p' f" and L: "L + 1 \<noteq> 0"
  shows "0 < i \<Longrightarrow> i \<le> 11 \<Longrightarrow> stateAt (spilled (L + 1) p f) i =
     (if levelShouldSpill (L + 1) (i - 1) then applyBucket (mSnap (f (i - 1))) (stateAt f i) else stateAt f i)"
proof (induction "11 - i" arbitrary: i)
  case 0
  then have "i = 11" by simp
  then show ?case by (simp add: levelShouldSpill_def kNumLevels_def)
next
  case (Suc n)
  then have i: "0 < i \<and> i < 11" by simp
  have IH: "stateAt (spilled (L + 1) p f) (Suc i) =
     (if levelShouldSpill (L + 1) i then applyBucket (mSnap (f i)) (stateAt f (Suc i)) else stateAt f (Suc i))"
    using Suc.hyps(1) [of "Suc i"] Suc.hyps(2) i by simp
  from inv i L show ?case
  proof (cases rule: spilled_cases [where p = p])
    case same
    then show ?thesis using IH i by (simp add: stateAt_step)
  next
    case first
    then have "mSnap (f (i - 1)) = []" using snap_nonempty [OF inv] i by auto
    then show ?thesis using first IH i by (simp add: stateAt_step)
  next
    case absorb
    then have "mSnap (f (i - 1)) \<noteq> []" using snap_nonempty [OF inv] i by auto
    then show ?thesis using absorb IH i absorb_effect(2) [OF inv] by (simp add: stateAt_step)
  next
    case shift
    then show ?thesis using IH i by (simp add: stateAt_step)
  qed
qed

subsection \<open>The levels after the batch\<close>

definition addedTo :: "uint32 \<Rightarrow> uint32 \<Rightarrow> Bucket \<Rightarrow> (nat \<Rightarrow> BucketLevel) \<Rightarrow> nat \<Rightarrow> BucketLevel" where
  "addedTo L p b f j =
     (if j = 0 then setCurr (mergedBucket True (mCurr (snapped L f 0)) b) (snapped L f 0) else spilled L p f j)"

lemma addedTo_pos [simp]: "0 < j \<Longrightarrow> addedTo L p b f j = spilled L p f j"
  by (simp add: addedTo_def)

lemma addedTo_state: "0 < i \<Longrightarrow> i \<le> 11 \<Longrightarrow> stateAt (addedTo L p b f) i = stateAt (spilled L p f) i"
  by (rule stateAt_cong) simp_all

lemma addedTo_snap:
  assumes inv: "listInv sh L p' f" and L: "L + 1 \<noteq> 0" and i: "i < 11"
  shows "mSnap (addedTo (L + 1) p b f i) = (if levelShouldSpill (L + 1) i then mCurr (f i) else mSnap (f i))"
proof (cases "i = 0")
  case True
  then show ?thesis by (simp add: addedTo_def setCurr_def snapped_def snapLevel_def)
next
  case False
  then have i: "0 < i \<and> i < 11" using i by simp
  from inv i L show ?thesis by (cases rule: spilled_cases [where p = p]) (use i in simp_all)
qed

lemma four_below:
  fixes L :: uint32
  assumes "L + 1 \<noteq> 0" "0 < i" "i < 11" "\<not> levelShouldSpill (L + 1) (i - 1)" "unat L < 4 ^ i"
  shows "unat (L + 1) < 4 ^ i"
  using below_four_next [OF assms(1,2) _ assms(5)] assms(2-4) spill_below [of i "L + 1"] by simp

lemma half_below:
  fixes L :: uint32
  assumes "L + 1 \<noteq> 0" "i < 11" "\<not> levelShouldSpill (L + 1) i"
  shows "(i = 10 \<or> unat (L + 1) < halfOf i) \<longleftrightarrow> (i = 10 \<or> unat L < halfOf i)"
  using below_next [OF assms(1), of i] assms(2,3) by (auto simp: spill_iff)

lemma addedTo_levelOk:
  assumes inv: "listInv sh L p' f" and L: "L + 1 \<noteq> 0" and i: "0 < i \<and> i < 11"
  shows "levelOk (L + 1) (addedTo (L + 1) p b f) i"
proof -
  have ok: "levelOk L f i" "levelOk L f (i - 1)" "linkOk sh L f i" using inv i by (auto simp: listInv_def)
  have lev: "mLevel (spilled (L + 1) p f i) = i" using spilled_level [OF inv] i by simp
  have st: "stateAt (addedTo (L + 1) p b f) (Suc i) =
     (if levelShouldSpill (L + 1) i then applyBucket (mSnap (f i)) (stateAt f (Suc i)) else stateAt f (Suc i))"
    using spilled_state [OF inv L, of "Suc i" p] addedTo_state [of "Suc i"] i by simp
  note snap = snap_nonempty [OF inv, of i]
  from inv i L show ?thesis
  proof (cases rule: spilled_cases [where p = p])
    case same
    then show ?thesis
      using ok(1) st i half_below [OF L _ same(2)] four_below [OF L _ _ same(1)] by (simp add: levelOk_def)
  next
    case first
    have "unat (L + 1) < 4 ^ i" using first_spill(2) [OF L] first(1,3) i spill_below by auto
    then show ?thesis
      using ok(1) st i lev first half_below [OF L _ first(2)] by (simp add: levelOk_def)
  next
    case absorb
    have s: "mSnap (f (i - 1)) \<noteq> []" using snap absorb(3) i by auto
    have c: "bucketOk (mCurr (f i))" "bucketOk (mSnap (f (i - 1)))" using ok by (auto simp: levelOk_def)
    show ?thesis
      using ok(1) st i lev absorb half_below [OF L _ absorb(2)] merged_ok [OF c s, of "keepDeadEntries i"]
        absorb_effect(1) [OF inv _ _ s]
      by (simp add: levelOk_def le_max_iff_disj)
  next
    case shift
    have s: "mSnap (f (i - 1)) \<noteq> []" using snap shift(3) i by auto
    have "mCurr (f i) \<noteq> []" "\<not> unat (L + 1) < halfOf i"
      using spill_nonempty [OF ok(1) _ L shift(2)] i by auto
    moreover have "initsFresh (mSnap (f (i - 1))) (applyBucket (mCurr (f i)) (applyBucket (mSnap (f i)) (stateAt f (Suc i))))"
      using ok(2) i by (simp add: levelOk_def stateAt_step)
    ultimately show ?thesis
      using ok st i lev shift s by (simp add: levelOk_def linkOk_def)
  qed
qed

lemma spilled_version:
  assumes inv: "listInv sh L p' f" and L: "L + 1 \<noteq> 0" and i: "0 < i \<and> i < 11"
  shows "versionOf (mCurr (spilled (L + 1) p f i)) \<le> versionOf (mSnap (f (i - 1)))"
proof -
  have ok: "levelOk L f i" "levelOk L f (i - 1)" "linkOk sh L f i" using inv i by (auto simp: listInv_def)
  note snap = snap_nonempty [OF inv, of i]
  from inv i L show ?thesis
  proof (cases rule: spilled_cases [where p = p])
    case absorb
    have s: "mSnap (f (i - 1)) \<noteq> []" using snap absorb(3) i by auto
    have c: "bucketOk (mCurr (f i))" "bucketOk (mSnap (f (i - 1)))" using ok by (auto simp: levelOk_def)
    show ?thesis using ok(3) absorb merged_ok(2) [OF c s] by (simp add: linkOk_def)
  qed (use ok(3) in \<open>simp_all add: linkOk_def\<close>)
qed

lemma addedTo_linkOk:
  assumes inv: "listInv sh L p' f" and L: "L + 1 \<noteq> 0" and i: "0 < i \<and> i < 11" and p: "p' \<le> p" and sh: "\<forall>n. \<not> sh n"
  shows "linkOk sh (L + 1) (addedTo (L + 1) p b f) i"
proof (cases "levelShouldSpill (L + 1) (i - 1)")
  case False
  from inv i L have same: "spilled (L + 1) p f i = f i"
    by (cases rule: spilled_cases [where p = p]) (use False in simp_all)
  have "unat (L + 1) < halfOf (i - 1) \<longleftrightarrow> unat L < halfOf (i - 1)"
    using below_next [OF L, of "i - 1"] False i spill_below by auto
  moreover have snap: "mSnap (addedTo (L + 1) p b f (i - 1)) = mSnap (f (i - 1))"
    using addedTo_snap [OF inv L, of "i - 1" p b] False i by auto
  moreover have "pendingMerge (L + 1) (addedTo (L + 1) p b f) i = pendingMerge L f i"
    using same emptyCurr_same [OF _ _ L False] snap i by (simp add: pendingMerge_def)
  ultimately show ?thesis using inv i same by (simp add: linkOk_def listInv_def)
next
  case True
  let ?g = "addedTo (L + 1) p b f"
  let ?c = "if shouldMergeWithEmptyCurr (L + 1) i then [] else mCurr (?g i)" and ?s = "mCurr (f (i - 1))"
  have le: "i - 1 \<le> 10" "i - 1 < 11" using i by auto
  have ok: "levelOk L f (i - 1)" using inv le by (auto simp: listInv_def)
  have new: "levelOk (L + 1) ?g i" by (rule addedTo_levelOk [OF inv L i])
  have s: "?s \<noteq> []" "\<not> unat (L + 1) < halfOf (i - 1)" using spill_nonempty [OF ok le(1) L True] by auto
  have snap: "mSnap (?g (i - 1)) = ?s" using addedTo_snap [OF inv L le(2)] True by simp
  have b: "bucketOk ?c" "bucketOk ?s" using new ok by (auto simp: levelOk_def)
  have st: "stateAt ?g i = applyBucket (mSnap (f (i - 1))) (stateAt f i)"
    using spilled_state [OF inv L, of i p] addedTo_state [of i] True i by simp
  then have fs: "initsFresh ?s (stateAt ?g i)" using ok i by (simp add: levelOk_def)
  have "compatible (bodyOf ?c) (bodyOf ?s)"
  proof (cases "shouldMergeWithEmptyCurr (L + 1) i")
    case False
    have "initsFresh (mCurr (?g i)) (applyBucket (mSnap (?g i)) (stateAt ?g (Suc i)))"
      using new by (simp add: levelOk_def)
    then show ?thesis
      using merged_compatible [OF b(1,2)] fs False i stateAt_step [of i ?g] by simp
  qed (simp add: compatible_def)
  moreover have v: "versionOf (mCurr (spilled (L + 1) p f i)) \<le> versionOf ?s"
    using spilled_version [OF inv L i, of p] ok by (auto simp: levelOk_def intro: order_trans)
  moreover have "versionOf ?s \<le> p" using version_le [OF inv le(2)] p by auto
  ultimately have "merge sh p ?c ?s [] (keepDeadEntries i) = Inr (mergedBucket (keepDeadEntries i) ?c ?s)"
    using merge_merged [OF b s(1) _ _ _ sh] i by (auto intro: order_trans)
  moreover have "mNextCurr (?g i) = FB_LIVE_INPUTS ?c ?s [] p i" using True i by (simp add: spilled_def)
  moreover have "pendingMerge (L + 1) ?g i = mergedBucket (keepDeadEntries i) ?c ?s"
    unfolding pendingMerge_def snap by (rule refl)
  ultimately have "resolvesTo sh (mNextCurr (?g i)) (pendingMerge (L + 1) ?g i)"
    by (simp only: resolvesTo_def resolve_def FutureBucket.case bindE.simps)
  then show ?thesis using s(2) snap v i by (simp add: linkOk_def)
qed

lemma addedTo_zero:
  assumes inv: "listInv sh L p' f" and L: "L + 1 \<noteq> 0" and p: "p' \<le> p" and sh: "\<forall>n. \<not> sh n"
    and b: "bucketOk b" "b \<noteq> []" "versionOf b = p" "initsFresh b (stateAt f 0)"
  defines "c \<equiv> mCurr (snapped (L + 1) f 0)" and "g \<equiv> addedTo (L + 1) p b f"
  shows "levelOk (L + 1) g 0" and "stateAt g 0 = applyBucket b (stateAt f 0)"
    and "merge sh p c b [] True = Inr (mergedBucket True c b)"
proof -
  have ok: "levelOk L f 0" using inv by (simp add: listInv_def)
  let ?m = "applyBucket (mSnap (g 0)) (stateAt g (Suc 0))"
  have st1: "stateAt g (Suc 0) = (if levelShouldSpill (L + 1) 0 then applyBucket (mSnap (f 0)) (stateAt f 1) else stateAt f 1)"
    using spilled_state [OF inv L, of 1 p] addedTo_state [of 1] by (simp add: g_def)
  have snap: "mSnap (g 0) = (if levelShouldSpill (L + 1) 0 then mCurr (f 0) else mSnap (f 0))"
    using addedTo_snap [OF inv L, of 0] by (simp add: g_def)
  have c: "c = (if levelShouldSpill (L + 1) 0 then [] else mCurr (f 0))"
    by (simp add: c_def snapped_def snapLevel_def)
  have st0: "applyBucket c ?m = stateAt f 0" using st1 snap c stateAt_step [of 0 f] by simp
  have curr: "mCurr (g 0) = mergedBucket True c b" by (simp add: g_def c_def addedTo_def setCurr_def)
  have cb: "bucketOk c" "initsFresh c ?m" using ok c st1 snap by (simp_all add: levelOk_def)
  have fb: "initsFresh b (applyBucket c ?m)" using b(4) st0 by simp
  note eff = merged_effect [OF cb(1) b(1,2) cb(2) fb, of True] and mo = merged_ok [OF cb(1) b(1,2), of True]
  show "stateAt g 0 = applyBucket b (stateAt f 0)"
    using eff(2) curr st0 stateAt_step [of 0 g] by simp
  have v: "versionOf c \<le> p" "versionOf (mCurr (f 0)) \<le> p" "versionOf (mSnap (f 0)) \<le> p"
    using version_le [OF inv, of 0] p c by auto
  show "merge sh p c b [] True = Inr (mergedBucket True c b)"
    using merge_merged [OF cb(1) b(1,2) merged_compatible [OF cb(1) b(1) cb(2) fb] v(1) _ sh] b(3) by simp
  have "mSnap (g 0) = [] \<longleftrightarrow> unat (L + 1) < halfOf 0"
  proof (cases "levelShouldSpill (L + 1) 0")
    case True
    then show ?thesis using spill_nonempty [OF ok _ L True] snap by simp
  next
    case False
    then show ?thesis using half_below [OF L _ False] ok snap by (simp add: levelOk_def)
  qed
  moreover have "initsFresh (mSnap (g 0)) (stateAt g (Suc 0))" "bucketOk (mSnap (g 0))"
    using ok st1 snap by (simp_all add: levelOk_def)
  moreover have "mLevel (g 0) = 0"
    using ok by (simp add: g_def addedTo_def setCurr_def snapped_def snapLevel_def levelOk_def)
  ultimately show "levelOk (L + 1) g 0"
    using curr mo eff(1) v b(3) snap by (simp add: levelOk_def)
qed

text \<open>Resolving merges that are complete keeps the invariant and the buckets.\<close>

definition sameBuckets :: "(nat \<Rightarrow> BucketLevel) \<Rightarrow> (nat \<Rightarrow> BucketLevel) \<Rightarrow> bool" where
  "sameBuckets f g \<longleftrightarrow> (\<forall>i<11. mLevel (g i) = mLevel (f i) \<and> mCurr (g i) = mCurr (f i) \<and> mSnap (g i) = mSnap (f i))"

lemma sameBuckets_state: "sameBuckets f g \<Longrightarrow> i \<le> 11 \<Longrightarrow> stateAt g i = stateAt f i"
  by (rule stateAt_cong) (auto simp: sameBuckets_def)

lemma sameBuckets_inv:
  assumes inv: "listInv sh L p f" and same: "sameBuckets f g" and zero: "mNextCurr (g 0) = FB_CLEAR"
    and pend: "\<And>i. 0 < i \<Longrightarrow> i < 11 \<Longrightarrow>
       (if unat L < halfOf (i - 1) then mNextCurr (g i) = FB_CLEAR else resolvesTo sh (mNextCurr (g i)) (pendingMerge L f i))"
  shows "listInv sh L p g"
proof -
  have eq: "mLevel (g i) = mLevel (f i)" "mCurr (g i) = mCurr (f i)" "mSnap (g i) = mSnap (f i)" if "i < 11" for i
    using same that by (auto simp: sameBuckets_def)
  have "levelOk L g i" if "i < 11" for i
    using inv that eq sameBuckets_state [OF same, of "Suc i"] by (simp add: listInv_def levelOk_def)
  moreover have "linkOk sh L g i" if "0 < i" "i < 11" for i
    using inv that eq [of i] eq [of "i - 1"] pend [OF that] by (auto simp: listInv_def linkOk_def pendingMerge_def)
  ultimately show ?thesis using inv zero eq [of 0] by (simp add: listInv_def)
qed

lemma resolveAny_at:
  assumes "\<And>lev. lev \<in> set levels \<Longrightarrow> isMerging (mNextCurr lev) \<Longrightarrow> \<exists>b. resolvesTo sh (mNextCurr lev) b"
  shows "\<exists>levels'. resolveAnyReadyFutures sh ready levels = Inr levels' \<and> list_all2 (\<lambda>lev lev'.
           mLevel lev' = mLevel lev \<and> mCurr lev' = mCurr lev \<and> mSnap lev' = mSnap lev \<and>
           (mNextCurr lev' = mNextCurr lev \<or>
            (\<exists>b. resolvesTo sh (mNextCurr lev) b \<and> mNextCurr lev' = FB_LIVE_OUTPUT b))) levels levels'"
  using assms
proof (induction levels)
  case (Cons lev levels)
  obtain levels' where r: "resolveAnyReadyFutures sh ready levels = Inr levels'"
    "list_all2 (\<lambda>lev lev'. mLevel lev' = mLevel lev \<and> mCurr lev' = mCurr lev \<and> mSnap lev' = mSnap lev \<and>
           (mNextCurr lev' = mNextCurr lev \<or>
            (\<exists>b. resolvesTo sh (mNextCurr lev) b \<and> mNextCurr lev' = FB_LIVE_OUTPUT b))) levels levels'"
    using Cons.IH Cons.prems by (meson list.set_intros(2))
  show ?case
  proof (cases "isMerging (mNextCurr lev) \<and> ready (mLevel lev)")
    case True
    then obtain b where b: "resolvesTo sh (mNextCurr lev) b" using Cons.prems by auto
    then show ?thesis using True r by (auto simp: resolvesTo_def)
  next
    case False
    then show ?thesis using r by auto
  qed
qed simp

lemma resolveAny_inv:
  assumes inv: "listInv sh L p f"
  shows "\<exists>g. resolveAnyReadyFutures sh ready (listOf f) = Inr (listOf g) \<and> listInv sh L p g \<and> sameBuckets f g"
proof -
  have "\<exists>b. resolvesTo sh (mNextCurr lev) b" if m: "lev \<in> set (listOf f)" "isMerging (mNextCurr lev)" for lev
  proof -
    obtain i where i: "i < 11" "lev = f i" using m(1) unfolding in_set_conv_nth by auto
    have n: "mNextCurr (f i) \<noteq> FB_CLEAR" using m(2) i(2) by (auto simp: isMerging_def)
    then have "0 < i" using inv by (cases "i = 0") (simp_all add: listInv_def)
    then have "linkOk sh L f i" using inv i(1) by (simp add: listInv_def)
    then show ?thesis using n i(2) by (auto simp: linkOk_def split: if_splits)
  qed
  from resolveAny_at [OF this]
  obtain levels' where r1: "resolveAnyReadyFutures sh ready (listOf f) = Inr levels'"
    and all: "list_all2 (\<lambda>lev lev'. mLevel lev' = mLevel lev \<and> mCurr lev' = mCurr lev \<and> mSnap lev' = mSnap lev \<and>
           (mNextCurr lev' = mNextCurr lev \<or>
            (\<exists>b. resolvesTo sh (mNextCurr lev) b \<and> mNextCurr lev' = FB_LIVE_OUTPUT b))) (listOf f) levels'"
    by blast
  have r2: "length levels' = 11" using list_all2_lengthD [OF all] by simp
  have r3: "mLevel (levels' ! i) = mLevel (f i) \<and> mCurr (levels' ! i) = mCurr (f i) \<and>
        mSnap (levels' ! i) = mSnap (f i) \<and> (mNextCurr (levels' ! i) = mNextCurr (f i) \<or>
            (\<exists>b. resolvesTo sh (mNextCurr (f i)) b \<and> mNextCurr (levels' ! i) = FB_LIVE_OUTPUT b))" if "i < 11" for i
    using list_all2_nthD [OF all, of i] that by simp
  note r = r1 r2 r3
  let ?g = "\<lambda>i. levels' ! i"
  have l: "levels' = listOf ?g" by (rule nth_equalityI) (simp_all add: r(2))
  have same: "sameBuckets f ?g" using r(3) by (simp add: sameBuckets_def)
  have "mNextCurr (?g 0) = FB_CLEAR" using r(3) [of 0] inv by (auto simp: listInv_def)
  moreover have "if unat L < halfOf (i - 1) then mNextCurr (?g i) = FB_CLEAR
      else resolvesTo sh (mNextCurr (?g i)) (pendingMerge L f i)" if i: "0 < i" "i < 11" for i
  proof -
    have "linkOk sh L f i" using inv i by (simp add: listInv_def)
    then show ?thesis
      using r(3) [OF i(2)] resolvesTo_unique [of sh "mNextCurr (f i)"] by (auto simp: linkOk_def split: if_splits)
  qed
  ultimately have "listInv sh L p ?g" by (rule sameBuckets_inv [OF inv same])
  then show ?thesis using r(1) l same by metis
qed

subsection \<open>Adding a batch\<close>

text \<open>The changes of a ledger fit the state before it: every key changes once, and what is created did not exist.\<close>

definition batchOk :: "LedgerEntry list \<Rightarrow> LedgerEntry list \<Rightarrow> LedgerKey list \<Rightarrow> LedgerState \<Rightarrow> bool" where
  "batchOk initEntries liveEntries deadEntries m \<longleftrightarrow>
     distinct (batchKeys initEntries liveEntries deadEntries) \<and> (\<forall>l\<in>set initEntries. m (LedgerEntryKey l) = None)"

lemma fresh_bucket:
  assumes "12 \<le> p" "batchOk I Lv D m"
  obtains b where "fresh p I Lv D = Inr b" "bucketOk b" "b \<noteq> []" "versionOf b = p" "initsFresh b m"
    "applyBucket b m = applyBatch I Lv D m"
proof
  let ?es = "entrySort (batchEntries p I Lv D)"
  have d: "distinct (batchKeys I Lv D)" using assms(2) by (simp add: batchOk_def)
  have ok: "bodyOk p ?es" by (rule batch_body [OF d])
  show "fresh p I Lv D = Inr (bucketOf p ?es)" by (simp add: fresh_eq d)
  show "bucketOk (bucketOf p ?es)" by (rule bucketOkI [OF assms(1) ok])
  show "bucketOf p ?es \<noteq> []" "versionOf (bucketOf p ?es) = p" by (simp_all only: bucketOf_parts [OF assms(1) ok]) simp
  have "isInit e \<Longrightarrow> e \<in> set (batchEntries p I Lv D) \<Longrightarrow> \<exists>l\<in>set I. entryKey e = LedgerEntryKey l" for e
    by (auto simp: batchEntries_def split: if_splits)
  then have "initsFresh ?es m"
    using assms(2) by (fastforce simp: initsFresh_def batchOk_def entrySort_set)
  then show "initsFresh (bucketOf p ?es) m" by (simp add: initsFresh_def bucketOf_def)
  show "applyBucket (bucketOf p ?es) m = applyBatch I Lv D m" using batch_applied [OF d] by simp
qed

lemma shadows_at: "\<exists>s. popTwo (concat (map (\<lambda>lev. [mCurr lev, mSnap lev]) (listOf f))) = Inr s \<and> length s = 20"
proof -
  have "length (concat (map (\<lambda>lev. [mCurr lev, mSnap lev]) levels)) = 2 * length levels" for levels :: BucketList
    by (induction levels) simp_all
  then show ?thesis using popTwo_at [of _ 10] by simp
qed

lemma addBatch_at:
  assumes inv: "listInv sh L p' f" and L: "L + 1 \<noteq> 0" and p: "p' \<le> p" "12 \<le> p" and sh: "\<forall>n. \<not> sh n"
    and batch: "batchOk I Lv D (stateAt f 0)"
  shows "\<exists>g b. addBatch sh ready (L + 1) p I Lv D (listOf f) = Inr (listOf g) \<and> listInv sh (L + 1) p g \<and>
           stateAt g 0 = applyBatch I Lv D (stateAt f 0) \<and> fresh p I Lv D = Inr b \<and> sameBuckets (addedTo (L + 1) p b f) g"
proof -
  obtain b where b: "fresh p I Lv D = Inr b" "bucketOk b" "b \<noteq> []" "versionOf b = p" "initsFresh b (stateAt f 0)"
    "applyBucket b (stateAt f 0) = applyBatch I Lv D (stateAt f 0)"
    using fresh_bucket [OF p(2) batch] by blast
  let ?g = "addedTo (L + 1) p b f" and ?l = "snapped (L + 1) f 0"
  note zero = addedTo_zero [OF inv L p(1) sh b(2-5)]
  have lev: "mNextCurr ?l = FB_CLEAR" "mLevel ?l = 0"
    using inv by (simp_all add: snapped_def snapLevel_def listInv_def levelOk_def)
  have "listInv sh (L + 1) p ?g"
    unfolding listInv_def
  proof (intro conjI allI impI)
    show "levelOk (L + 1) ?g i" if "i < 11" for i
      using that zero(1) addedTo_levelOk [OF inv L] by (cases "i = 0") simp_all
    show "linkOk sh (L + 1) ?g i" if "0 < i \<and> i < 11" for i
      by (rule addedTo_linkOk [OF inv L that p(1) sh])
    show "mNextCurr (?g 0) = FB_CLEAR" by (simp add: addedTo_def setCurr_def)
    have c: "bucketOk (mCurr ?l)" "versionOf (mCurr ?l) \<le> p"
      using inv version_le [OF inv, of 0] p(1) by (auto simp: snapped_def snapLevel_def listInv_def levelOk_def)
    then show "versionOf (mCurr (?g 0)) \<le> p"
      using merged_ok(2) [OF c(1) b(2,3)] b(4) by (simp add: addedTo_def setCurr_def)
  qed
  then obtain g where g: "resolveAnyReadyFutures sh ready (listOf ?g) = Inr (listOf g)" "listInv sh (L + 1) p g"
    "sameBuckets ?g g" using resolveAny_inv by blast
  obtain s where s: "popTwo (concat (map (\<lambda>lev. [mCurr lev, mSnap lev]) (listOf f))) = Inr s" "length s = 20"
    using shadows_at by blast
  have loop: "spillLevels sh (L + 1) p 10 s (listOf f) = Inr ([], listOf (midway (L + 1) p f 0))"
    using spillLevels_at [OF inv L, of 10 s p] s(2) by (simp add: midway_10)
  have prep: "prepare (L + 1) p b [] ?l = Inr (?l\<lparr>mNextCurr := FB_LIVE_INPUTS (mCurr ?l) b [] p 0\<rparr>)"
    using prepare_at [OF b(2,3) lev(1), of "L + 1" p "[]"] lev(2) by simp
  have com: "commit sh (?l\<lparr>mNextCurr := FB_LIVE_INPUTS (mCurr ?l) b [] p 0\<rparr>) = Inr (?g 0)"
    using zero(3)
    by (simp add: commit_def isLive_def resolve_def keepDeadEntries_def kNumLevels_def setCurr_def isMerging_def addedTo_def)
  have "(midway (L + 1) p f 0)(0 := ?g 0) = ?g" by (auto simp: fun_eq_iff midway_def addedTo_def)
  then have "addBatch sh ready (L + 1) p I Lv D (listOf f) = resolveAnyReadyFutures sh ready (listOf ?g)"
    using L s(1) loop prep com b(1) by (simp add: addBatch_def listOf_update midway_def)
  then show ?thesis using g zero(2) b(1,6) sameBuckets_state [OF g(3), of 0] by auto
qed

text \<open>The buckets after a batch are determined by the buckets before it, however far the merges are.\<close>

lemma clear_iff:
  assumes "listInv sh L p f" "0 < i" "i < 11"
  shows "mNextCurr (f i) = FB_CLEAR \<longleftrightarrow> unat L < halfOf (i - 1)"
proof -
  have "linkOk sh L f i" using assms by (simp add: listInv_def)
  then show ?thesis by (auto simp: linkOk_def split: if_splits)
qed

lemma addedTo_same:
  assumes inv: "listInv sh L p f" "listInv sh L p g" and same: "sameBuckets f g"
  shows "sameBuckets (addedTo (L + 1) q b f) (addedTo (L + 1) q b g)"
  unfolding sameBuckets_def
proof (intro allI impI)
  fix i :: nat assume i: "i < 11"
  have eq: "mLevel (g j) = mLevel (f j)" "mCurr (g j) = mCurr (f j)" "mSnap (g j) = mSnap (f j)" if "j < 11" for j
    using same that by (auto simp: sameBuckets_def)
  have sn: "mLevel (snapped (L + 1) g i) = mLevel (snapped (L + 1) f i) \<and>
      mCurr (snapped (L + 1) g i) = mCurr (snapped (L + 1) f i) \<and> mSnap (snapped (L + 1) g i) = mSnap (snapped (L + 1) f i)"
    using eq [OF i] by (simp add: snapped_def snapLevel_def)
  show "mLevel (addedTo (L + 1) q b g i) = mLevel (addedTo (L + 1) q b f i) \<and>
      mCurr (addedTo (L + 1) q b g i) = mCurr (addedTo (L + 1) q b f i) \<and>
      mSnap (addedTo (L + 1) q b g i) = mSnap (addedTo (L + 1) q b f i)"
  proof (cases "i = 0")
    case True
    then show ?thesis using sn by (simp add: addedTo_def setCurr_def)
  next
    case False
    then have "mNextCurr (g i) = FB_CLEAR \<longleftrightarrow> mNextCurr (f i) = FB_CLEAR"
      using clear_iff [OF inv(1), of i] clear_iff [OF inv(2), of i] i by simp
    moreover have "pendingMerge L g i = pendingMerge L f i"
      using eq [OF i] eq [of "i - 1"] i by (simp add: pendingMerge_def)
    ultimately show ?thesis using False sn by (simp add: spilled_def committed_def setCurr_def)
  qed
qed

subsection \<open>Restarting\<close>

text \<open>What is left of a list when only its buckets were stored.\<close>

definition forgetMerge :: "BucketLevel \<Rightarrow> BucketLevel" where
  "forgetMerge lev = lev\<lparr>mNextCurr := FB_CLEAR\<rparr>"

definition restarted :: "uint32 \<Rightarrow> (nat \<Rightarrow> BucketLevel) \<Rightarrow> nat \<Rightarrow> nat \<Rightarrow> BucketLevel" where
  "restarted L f i j =
     (if 0 < j \<and> j < i then (f j)\<lparr>mNextCurr := FB_LIVE_INPUTS (if shouldMergeWithEmptyCurr L j then [] else mCurr (f j))
         (mSnap (f (j - 1))) [] (versionOf (mSnap (f (j - 1)))) j\<rparr>
      else forgetMerge (f j))"

lemma emptyCurr_masked:
  assumes "0 < i" "i \<le> 10"
  shows "shouldMergeWithEmptyCurr (maskLedger L (levelHalf (i - 1))) i \<longleftrightarrow> shouldMergeWithEmptyCurr L i"
proof -
  have k: "halfExp (i - 1) < 32" using assms by (simp add: halfExp_def)
  have "unat (maskLedger L (2 ^ halfExp (i - 1))) = unat L div halfOf (i - 1) * halfOf (i - 1)"
    using maskLedger_unat [OF k] by (simp add: minus_mod_eq_div_mult)
  then show ?thesis
    using assms levelHalf_exp [of "i - 1"] by (simp add: emptyCurr_iff)
qed

lemma restarted_resolves:
  assumes inv: "listInv sh L p f" and i: "0 < i" "i < 11" and sh: "\<forall>n. \<not> sh n" and s: "mSnap (f (i - 1)) \<noteq> []"
  shows "resolvesTo sh (FB_LIVE_INPUTS (if shouldMergeWithEmptyCurr L i then [] else mCurr (f i))
         (mSnap (f (i - 1))) [] (versionOf (mSnap (f (i - 1)))) i) (pendingMerge L f i)"
proof -
  let ?c = "if shouldMergeWithEmptyCurr L i then [] else mCurr (f i)" and ?s = "mSnap (f (i - 1))"
  have ok: "levelOk L f i" "levelOk L f (i - 1)" "linkOk sh L f i" using inv i by (auto simp: listInv_def)
  have b: "bucketOk ?c" "bucketOk ?s" using ok by (auto simp: levelOk_def)
  have "initsFresh ?s (applyBucket (mCurr (f i)) (applyBucket (mSnap (f i)) (stateAt f (Suc i))))"
    using ok(2) i by (simp add: levelOk_def stateAt_step)
  then have "compatible (bodyOf ?c) (bodyOf ?s)"
    using merged_compatible [OF b] ok(1) by (cases "shouldMergeWithEmptyCurr L i") (auto simp: compatible_def levelOk_def)
  then have "merge sh (versionOf ?s) ?c ?s [] (keepDeadEntries i) = Inr (mergedBucket (keepDeadEntries i) ?c ?s)"
    using merge_merged [OF b s _ _ order_refl sh] ok(3) by (simp add: linkOk_def)
  then show ?thesis
    unfolding pendingMerge_def by (simp only: resolvesTo_def resolve_def FutureBucket.case bindE.simps)
qed

lemma restartFrom_at:
  assumes inv: "listInv sh L p f"
  shows "i \<le> 11 \<Longrightarrow> (\<And>j. 0 < j \<Longrightarrow> j < i \<Longrightarrow> \<not> unat L < halfOf (j - 1)) \<Longrightarrow>
    \<exists>k. restartFrom h q L i (listOf (restarted L f i)) = Inr (listOf (restarted L f k)) \<and>
      (\<forall>j. 0 < j \<and> j < 11 \<longrightarrow> (j < k \<longleftrightarrow> \<not> unat L < halfOf (j - 1)))"
proof (induction "11 - i" arbitrary: i)
  case 0
  then have "i = 11" by simp
  then show ?case using 0 by (intro exI [of _ 11]) (simp add: restartFrom.simps)
next
  case (Suc n)
  then have i: "i < 11" by simp
  have nc: "mNextCurr (restarted L f i i) = FB_CLEAR" by (simp add: restarted_def forgetMerge_def)
  note unfold = restartFrom.simps [of h q L i "listOf (restarted L f i)"]
  show ?case
  proof (cases "i = 0")
    case True
    have "restarted L f 1 = restarted L f 0" by (auto simp: restarted_def fun_eq_iff)
    then show ?thesis
      using unfold nc True Suc.hyps(1) [of 1] Suc.hyps(2) by (simp add: Let_def hasHashes_def)
  next
    case pos: False
    have snap: "mSnap (restarted L f i (i - 1)) = mSnap (f (i - 1))" by (simp add: restarted_def forgetMerge_def)
    have ok: "levelOk L f (i - 1)" "levelOk L f i" using inv i by (auto simp: listInv_def)
    show ?thesis
    proof (cases "mSnap (f (i - 1)) = []")
      case True
      then have small: "unat L < halfOf (i - 1)" using snap_nonempty [OF inv, of i] pos i by simp
      have "unat L < halfOf (j - 1)" if "i \<le> j" for j
      proof -
        have "halfOf (i - 1) \<le> halfOf (j - 1)" using that by (intro power_increasing) (auto simp: halfExp_def)
        with small show ?thesis by (rule less_le_trans)
      qed
      then have "\<forall>j. 0 < j \<and> j < 11 \<longrightarrow> (j < i \<longleftrightarrow> \<not> unat L < halfOf (j - 1))"
        using Suc.prems(2) by (meson not_less)
      moreover have "restartFrom h q L i (listOf (restarted L f i)) = Inr (listOf (restarted L f i))"
        using unfold nc True pos i snap by (simp add: Let_def hasHashes_def isClear_def)
      ultimately show ?thesis by blast
    next
      case False
      then have big: "\<not> unat L < halfOf (i - 1)" using snap_nonempty [OF inv, of i] pos i by simp
      have b: "bucketOk (mSnap (f (i - 1)))" using ok by (simp add: levelOk_def)
      have lev: "mLevel (restarted L f i i) = i" "mCurr (restarted L f i i) = mCurr (f i)"
        using ok(2) by (simp_all add: restarted_def forgetMerge_def levelOk_def)
      have prep: "prepare (maskLedger L (levelHalf (i - 1))) (versionOf (mSnap (f (i - 1)))) (mSnap (f (i - 1))) []
          (restarted L f i i) = Inr (restarted L f (i + 1) i)"
        using prepare_at [OF b False nc] lev emptyCurr_masked [of i L] pos i
        by (simp add: restarted_def forgetMerge_def)
      have upd: "(restarted L f i)(i := restarted L f (i + 1) i) = restarted L f (i + 1)"
        by (auto simp: restarted_def fun_eq_iff)
      have v: "\<not> versionOf (mSnap (f (i - 1))) < 12" using bucketOk_parts(4) [OF b] False by simp
      have "restartFrom h q L i (listOf (restarted L f i)) = restartFrom h q L (i + 1) (listOf (restarted L f (i + 1)))"
        using unfold nc False pos i snap v prep upd getBucketVersion_ok [OF b]
        by (simp add: Let_def hasHashes_def isClear_def listOf_update)
      moreover have "0 < j \<Longrightarrow> j < i + 1 \<Longrightarrow> \<not> unat L < halfOf (j - 1)" for j
        using Suc.prems(2) [of j] big by (cases "j = i") auto
      ultimately show ?thesis using Suc.hyps(1) [of "i + 1"] Suc.hyps(2) i by simp
    qed
  qed
qed

lemma restartMerges_at:
  assumes inv: "listInv sh L p f" and sh: "\<forall>n. \<not> sh n"
  shows "\<exists>g. restartMerges h q L (map forgetMerge (listOf f)) = Inr (listOf g) \<and> listInv sh L p g \<and> sameBuckets f g"
proof -
  have "map forgetMerge (listOf f) = listOf (restarted L f 0)"
    by (rule nth_equalityI) (simp_all add: restarted_def)
  moreover obtain k where k: "restartFrom h q L 0 (listOf (restarted L f 0)) = Inr (listOf (restarted L f k))"
    "\<forall>j. 0 < j \<and> j < 11 \<longrightarrow> (j < k \<longleftrightarrow> \<not> unat L < halfOf (j - 1))"
    using restartFrom_at [OF inv, of 0 h q] by auto
  moreover have same: "sameBuckets f (restarted L f k)"
    by (simp add: sameBuckets_def restarted_def forgetMerge_def)
  moreover have "listInv sh L p (restarted L f k)"
  proof (rule sameBuckets_inv [OF inv same])
    show "mNextCurr (restarted L f k 0) = FB_CLEAR" by (simp add: restarted_def forgetMerge_def)
    fix i :: nat assume i: "0 < i" "i < 11"
    then show "if unat L < halfOf (i - 1) then mNextCurr (restarted L f k i) = FB_CLEAR
        else resolvesTo sh (mNextCurr (restarted L f k i)) (pendingMerge L f i)"
      using k(2) restarted_resolves [OF inv i sh] snap_nonempty [OF inv i]
      by (auto simp: restarted_def forgetMerge_def)
  qed
  ultimately show ?thesis by (auto simp: restartMerges_def)
qed

end
