(* ===== verification/BucketHistory.thy ===== *)
theory BucketHistory
  imports BucketListInvariant
begin

text \<open>
  Sequences of ledgers. The first part is generic: an implementation whose steps refine the steps of an
  abstract state refines whole histories, and two of its runs that start alike stay alike. The second
  part interprets it with the bucket list, whose step is \<open>addBatch\<close> and whose abstract state is the ledger.
\<close>

subsection \<open>Histories of fallible steps\<close>

primrec foldE :: "('b \<Rightarrow> 's \<Rightarrow> 'e + 's) \<Rightarrow> 'b list \<Rightarrow> 's \<Rightarrow> 'e + 's" where
  "foldE step [] s = Inr s"
| "foldE step (b # bs) s = bindE (step b s) (\<lambda>s. foldE step bs s)"

primrec enabledAll :: "('b \<Rightarrow> 'a \<Rightarrow> bool) \<Rightarrow> ('b \<Rightarrow> 'a \<Rightarrow> 'a) \<Rightarrow> 'b list \<Rightarrow> 'a \<Rightarrow> bool" where
  "enabledAll enabled spec [] a = True"
| "enabledAll enabled spec (b # bs) a = (enabled b a \<and> enabledAll enabled spec bs (spec b a))"

lemma foldE_append: "foldE step (bs @ cs) s = bindE (foldE step bs s) (foldE step cs)"
  by (induction bs arbitrary: s) (simp_all add: bindE_assoc)

lemma enabledAll_append:
  "enabledAll enabled spec (bs @ cs) a \<longleftrightarrow> enabledAll enabled spec bs a \<and> enabledAll enabled spec cs (fold spec bs a)"
  by (induction bs arbitrary: a) simp_all

locale step_refinement =
  fixes inv :: "'s \<Rightarrow> bool" and abs :: "'s \<Rightarrow> 'a" and step :: "'b \<Rightarrow> 's \<Rightarrow> 'e + 's"
    and spec :: "'b \<Rightarrow> 'a \<Rightarrow> 'a" and enabled :: "'b \<Rightarrow> 'a \<Rightarrow> bool"
  assumes step_refines: "inv s \<Longrightarrow> enabled b (abs s) \<Longrightarrow> \<exists>s'. step b s = Inr s' \<and> inv s' \<and> abs s' = spec b (abs s)"
begin

lemma history_refines:
  "inv s \<Longrightarrow> enabledAll enabled spec bs (abs s) \<Longrightarrow>
   \<exists>s'. foldE step bs s = Inr s' \<and> inv s' \<and> abs s' = fold spec bs (abs s)"
proof (induction bs arbitrary: s)
  case (Cons b bs)
  obtain s1 where s1: "step b s = Inr s1" "inv s1" "abs s1 = spec b (abs s)"
    using step_refines Cons.prems by auto
  then show ?case using Cons.IH [of s1] Cons.prems by auto
qed simp

end

locale step_bisimulation = step_refinement +
  fixes alike :: "'s \<Rightarrow> 's \<Rightarrow> bool"
  assumes alike_abs: "alike s t \<Longrightarrow> abs t = abs s"
    and step_alike: "inv s \<Longrightarrow> inv t \<Longrightarrow> alike s t \<Longrightarrow> enabled b (abs s) \<Longrightarrow> step b s = Inr s' \<Longrightarrow> step b t = Inr t' \<Longrightarrow> alike s' t'"
begin

lemma history_alike:
  "inv s \<Longrightarrow> inv t \<Longrightarrow> alike s t \<Longrightarrow> enabledAll enabled spec bs (abs s) \<Longrightarrow>
   \<exists>s' t'. foldE step bs s = Inr s' \<and> foldE step bs t = Inr t' \<and> alike s' t'"
proof (induction bs arbitrary: s t)
  case (Cons b bs)
  have e: "enabled b (abs s)" "enabled b (abs t)" using Cons.prems alike_abs [OF Cons.prems(3)] by auto
  obtain s1 where s1: "step b s = Inr s1" "inv s1" "abs s1 = spec b (abs s)"
    using step_refines [OF Cons.prems(1) e(1)] by blast
  obtain t1 where t1: "step b t = Inr t1" "inv t1" using step_refines [OF Cons.prems(2) e(2)] by blast
  have "alike s1 t1" using step_alike [OF Cons.prems(1-3) e(1) s1(1) t1(1)] .
  then show ?case using Cons.IH [OF s1(2) t1(2)] s1 t1 Cons.prems(4) by simp
qed simp

end

subsection \<open>Closing ledgers\<close>

text \<open>The changes of one ledger, its protocol, and the merges that are complete after it.\<close>

record LedgerBatch =
  batchProtocol :: uint32
  initEntries :: "LedgerEntry list"
  liveEntries :: "LedgerEntry list"
  deadEntries :: "LedgerKey list"
  batchReady :: "nat \<Rightarrow> bool"

type_synonym ClosedLedger = "uint32 \<times> uint32 \<times> BucketList"

text \<open>The node closes the next ledger: \<open>LedgerManagerImpl::ledgerClosed\<close> hands its changes to the bucket list.\<close>

definition transferLedgerEntriesToBucketList ::
  "(nat \<Rightarrow> bool) \<Rightarrow> LedgerBatch \<Rightarrow> ClosedLedger \<Rightarrow> bucket_error + ClosedLedger" where
  "transferLedgerEntriesToBucketList isShutdown B s =
     (case s of (ledgerSeq, _, levels) \<Rightarrow>
        bindE (addBatch isShutdown (batchReady B) (ledgerSeq + 1) (batchProtocol B)
                 (initEntries B) (liveEntries B) (deadEntries B) levels) (\<lambda>levels.
        Inr (ledgerSeq + 1, batchProtocol B, levels)))"

definition newLedgers :: ClosedLedger where
  "newLedgers = (0, 0, newBucketList)"

definition listOk :: "(nat \<Rightarrow> bool) \<Rightarrow> ClosedLedger \<Rightarrow> bool" where
  "listOk sh s \<longleftrightarrow> (case s of (L, p, levels) \<Rightarrow> \<exists>f. levels = listOf f \<and> listInv sh L p f)"

type_synonym ledger_view = "nat \<times> uint32 \<times> LedgerState"

definition viewOf :: "ClosedLedger \<Rightarrow> ledger_view" where
  "viewOf s = (case s of (L, p, levels) \<Rightarrow> (unat L, p, stateOf levels))"

definition applyLedger :: "LedgerBatch \<Rightarrow> ledger_view \<Rightarrow> ledger_view" where
  "applyLedger B a =
     (case a of (n, p, m) \<Rightarrow> (n + 1, batchProtocol B, applyBatch (initEntries B) (liveEntries B) (deadEntries B) m))"

text \<open>A ledger may follow if the protocol does not go back, is at least 12, and the changes fit the state.\<close>

definition ledgerFits :: "LedgerBatch \<Rightarrow> ledger_view \<Rightarrow> bool" where
  "ledgerFits B a \<longleftrightarrow>
     (case a of (n, p, m) \<Rightarrow> n + 1 < 2 ^ 32 \<and> p \<le> batchProtocol B \<and> 12 \<le> batchProtocol B \<and>
        batchOk (initEntries B) (liveEntries B) (deadEntries B) m)"

definition alikeLists :: "ClosedLedger \<Rightarrow> ClosedLedger \<Rightarrow> bool" where
  "alikeLists s t \<longleftrightarrow>
     (case (s, t) of ((L, p, levels), (L', p', levels')) \<Rightarrow>
        L' = L \<and> p' = p \<and> map (\<lambda>lev. (mLevel lev, mCurr lev, mSnap lev)) levels' =
                           map (\<lambda>lev. (mLevel lev, mCurr lev, mSnap lev)) levels)"

lemma next_nonzero: "unat (L :: uint32) + 1 < 2 ^ 32 \<Longrightarrow> L + 1 \<noteq> 0"
proof
  assume "unat L + 1 < 2 ^ 32" "L + 1 = 0"
  then have "L = - 1" by (metis add.inverse_unique add.commute)
  then have "unat L = 2 ^ 32 - 1" by (simp add: unsigned_minus_1_eq_mask mask_eq_exp_minus_1)
  then show False using \<open>unat L + 1 < 2 ^ 32\<close> by simp
qed

lemma transfer_at:
  assumes sh: "\<forall>n. \<not> sh n" and inv: "listInv sh L p f" and fits: "ledgerFits B (unat L, p, stateAt f 0)"
  obtains g b where
    "transferLedgerEntriesToBucketList sh B (L, p, listOf f) = Inr (L + 1, batchProtocol B, listOf g)"
    "listInv sh (L + 1) (batchProtocol B) g"
    "stateAt g 0 = applyBatch (initEntries B) (liveEntries B) (deadEntries B) (stateAt f 0)"
    "fresh (batchProtocol B) (initEntries B) (liveEntries B) (deadEntries B) = Inr b"
    "sameBuckets (addedTo (L + 1) (batchProtocol B) b f) g" "unat (L + 1) = unat L + 1"
proof -
  have f: "p \<le> batchProtocol B" "12 \<le> batchProtocol B"
    "batchOk (initEntries B) (liveEntries B) (deadEntries B) (stateAt f 0)" "L + 1 \<noteq> 0"
    using fits next_nonzero by (simp_all add: ledgerFits_def)
  note L = f(4)
  from addBatch_at [OF inv L f(1,2) sh f(3), of "batchReady B"] obtain g b where
    "addBatch sh (batchReady B) (L + 1) (batchProtocol B) (initEntries B) (liveEntries B) (deadEntries B) (listOf f) = Inr (listOf g)"
    "listInv sh (L + 1) (batchProtocol B) g"
    "stateAt g 0 = applyBatch (initEntries B) (liveEntries B) (deadEntries B) (stateAt f 0)"
    "fresh (batchProtocol B) (initEntries B) (liveEntries B) (deadEntries B) = Inr b"
    "sameBuckets (addedTo (L + 1) (batchProtocol B) b f) g" by blast
  then show thesis using that unat_next [OF L] by (simp add: transferLedgerEntriesToBucketList_def)
qed

lemma sameBuckets_alike: "sameBuckets f g \<Longrightarrow> alikeLists (L, p, listOf f) (L, p, listOf g)"
  by (auto simp: alikeLists_def sameBuckets_def intro!: nth_equalityI)

lemma alike_sameBuckets:
  assumes "alikeLists (L, p, listOf f) (L', p', listOf g)"
  shows "L' = L \<and> p' = p \<and> sameBuckets f g"
proof -
  have "map (\<lambda>lev. (mLevel lev, mCurr lev, mSnap lev)) (listOf g) ! i = map (\<lambda>lev. (mLevel lev, mCurr lev, mSnap lev)) (listOf f) ! i" for i
    using assms by (simp add: alikeLists_def)
  then have "(mLevel (g i), mCurr (g i), mSnap (g i)) = (mLevel (f i), mCurr (f i), mSnap (f i))" if "i < 11" for i
    using that by (metis (no_types, lifting) listOf_length listOf_nth nth_map)
  then show ?thesis using assms by (simp add: alikeLists_def sameBuckets_def)
qed

lemma sameBuckets_chain:
  "sameBuckets a b \<Longrightarrow> sameBuckets a c \<Longrightarrow> sameBuckets b d \<Longrightarrow> sameBuckets c d"
  by (simp add: sameBuckets_def)

lemma stateOf_alike:
  "map (\<lambda>lev. (mLevel lev, mCurr lev, mSnap lev)) ls = map (\<lambda>lev. (mLevel lev, mCurr lev, mSnap lev)) ks \<Longrightarrow>
   stateOf ls = stateOf ks"
proof (induction ls arbitrary: ks)
  case (Cons l ls)
  then obtain k ks' where ks: "ks = k # ks'" by (cases ks) auto
  then have "stateOf ls = stateOf ks'" by (intro Cons.IH) (use Cons.prems in simp)
  then show ?case using Cons.prems ks by simp
qed simp

definition noShutdown :: "nat \<Rightarrow> bool" where
  "noShutdown n = False"

interpretation bucket_list: step_bisimulation
  "listOk noShutdown" viewOf "transferLedgerEntriesToBucketList noShutdown" applyLedger ledgerFits alikeLists
proof
  have sh: "\<forall>n. \<not> noShutdown n" by (simp add: noShutdown_def)
  show "\<exists>s'. transferLedgerEntriesToBucketList noShutdown b s = Inr s' \<and> listOk noShutdown s' \<and> viewOf s' = applyLedger b (viewOf s)"
    if a: "listOk noShutdown s" "ledgerFits b (viewOf s)" for s :: ClosedLedger and b
  proof -
    obtain L p f where s: "s = (L, p, listOf f)" "listInv noShutdown L p f" using a(1) by (auto simp: listOk_def)
    then have "ledgerFits b (unat L, p, stateAt f 0)" using a(2) by (simp add: viewOf_def stateOf_listOf)
    from transfer_at [OF sh s(2) this] obtain g where
      "transferLedgerEntriesToBucketList noShutdown b s = Inr (L + 1, batchProtocol b, listOf g)"
      "listInv noShutdown (L + 1) (batchProtocol b) g" "unat (L + 1) = unat L + 1"
      "stateAt g 0 = applyBatch (initEntries b) (liveEntries b) (deadEntries b) (stateAt f 0)" unfolding s(1) by blast
    then show ?thesis
      by (auto simp: s(1) listOk_def viewOf_def applyLedger_def stateOf_listOf)
  qed
  show "viewOf t = viewOf s" if "alikeLists s t" for s t
    using that stateOf_alike [of "snd (snd t)" "snd (snd s)"] by (auto simp: alikeLists_def viewOf_def)
  show "alikeLists s' t'" if a: "listOk noShutdown s" "listOk noShutdown t" "alikeLists s t" "ledgerFits b (viewOf s)"
    "transferLedgerEntriesToBucketList noShutdown b s = Inr s'" "transferLedgerEntriesToBucketList noShutdown b t = Inr t'"
    for s t s' t' :: ClosedLedger and b
  proof -
    obtain L p f where s: "s = (L, p, listOf f)" "listInv noShutdown L p f" using a(1) by (auto simp: listOk_def)
    obtain L' p' g where t: "t = (L', p', listOf g)" "listInv noShutdown L' p' g" using a(2) by (auto simp: listOk_def)
    have same: "L' = L" "p' = p" "sameBuckets f g" using alike_sameBuckets a(3) s(1) t(1) by auto
    have fits: "ledgerFits b (unat L, p, stateAt f 0)" "ledgerFits b (unat L, p, stateAt g 0)"
      using a(4) s(1) sameBuckets_state [OF same(3), of 0] by (simp_all add: viewOf_def stateOf_listOf)
    have ginv: "listInv noShutdown L p g" using t(2) same by simp
    obtain f1 c where f1: "s' = (L + 1, batchProtocol b, listOf f1)"
      "fresh (batchProtocol b) (initEntries b) (liveEntries b) (deadEntries b) = Inr c"
      "sameBuckets (addedTo (L + 1) (batchProtocol b) c f) f1"
      using transfer_at [OF sh s(2) fits(1)] a(5) s(1) by (metis sum.inject(2))
    obtain g1 where g1: "t' = (L + 1, batchProtocol b, listOf g1)"
      "sameBuckets (addedTo (L + 1) (batchProtocol b) c g) g1"
      using transfer_at [OF sh ginv fits(2)] a(6) t(1) same(1,2) f1(2) by (metis sum.inject(2))
    have "sameBuckets f1 g1"
      using sameBuckets_chain [OF addedTo_same [OF s(2) ginv same(3)] f1(3) g1(2)] .
    then show ?thesis unfolding f1(1) g1(1) by (rule sameBuckets_alike)
  qed
qed

lemma listOk_new: "listOk sh newLedgers"
proof -
  have "newBucketList = listOf newLevel" by (simp add: newBucketList_def listOf_def kNumLevels_def)
  then show ?thesis using listInv_new by (auto simp: listOk_def newLedgers_def)
qed

lemma viewOf_new: "viewOf newLedgers = (0, 0, Map.empty)"
proof -
  have "stateOf (map newLevel js) = Map.empty" for js by (induction js) (simp_all add: newLevel_def)
  then show ?thesis by (simp add: viewOf_def newLedgers_def newBucketList_def)
qed

end
