(* ===== verification/BucketProperties.thy ===== *)
theory BucketProperties
  imports BucketHistory
begin

text \<open>
  The properties of buckets and of the bucket list, each with an example at which its hypotheses hold.
\<close>

subsection \<open>Examples\<close>

definition exampleAccount :: "uint256 \<Rightarrow> int \<Rightarrow> LedgerEntry" where
  "exampleAccount acc balance =
     \<lparr>lastModifiedLedgerSeq = 1,
      entryData = AccountData \<lparr>accAccountID = acc, accBalance = balance, accSeqNum = 0, numSubEntries = 0,
        inflationDest = None, accFlags = 0, homeDomain = [], thresholds = [1, 0, 0, 0], signers = [], accExtV1 = None\<rparr>,
      entryExtV1 = None\<rparr>"

lemma exampleAccount_key [simp]: "LedgerEntryKey (exampleAccount acc balance) = ACCOUNT acc"
  by (simp add: LedgerEntryKey_def exampleAccount_def)

lemma account_less [simp]: "ACCOUNT a < ACCOUNT b \<longleftrightarrow> a < b"
  by (simp add: less_LedgerKey_def LedgerEntryIdCmp_def lexCompare_def)

definition exampleOld :: "BucketEntry list" where
  "exampleOld = [INITENTRY (exampleAccount 1 10), DEADENTRY (ACCOUNT 2), LIVEENTRY (exampleAccount 3 30)]"

definition exampleNew :: "BucketEntry list" where
  "exampleNew = [DEADENTRY (ACCOUNT 1), INITENTRY (exampleAccount 2 20), LIVEENTRY (exampleAccount 4 40)]"

definition exampleShadow :: "BucketEntry list" where
  "exampleShadow = [LIVEENTRY (exampleAccount 3 31)]"

definition exampleState :: LedgerState where
  "exampleState = [ACCOUNT 2 \<mapsto> exampleAccount 2 2, ACCOUNT 3 \<mapsto> exampleAccount 3 3, ACCOUNT 4 \<mapsto> exampleAccount 4 4]"

lemmas example_simps = exampleOld_def exampleNew_def exampleShadow_def exampleState_def bodyOk_def sortedBody_def legalEntry_def
  initsFresh_def lifecycleOk_def mergeVersion_def readVersion_def

definition exampleLedger :: "LedgerEntry list \<Rightarrow> LedgerEntry list \<Rightarrow> LedgerKey list \<Rightarrow> LedgerBatch" where
  "exampleLedger created updated deleted =
     \<lparr>batchProtocol = 19, initEntries = created, liveEntries = updated, deadEntries = deleted, batchReady = (\<lambda>i. i = 1)\<rparr>"

definition exampleHistory :: "LedgerBatch list" where
  "exampleHistory =
     [exampleLedger [exampleAccount 1 10, exampleAccount 2 20] [] [],
      exampleLedger [] [exampleAccount 2 21] [ACCOUNT 1],
      exampleLedger [exampleAccount 1 11] [] [ACCOUNT 2]]"

lemma example_fits: "enabledAll ledgerFits applyLedger exampleHistory (0, 0, Map.empty)"
  by (simp add: exampleHistory_def exampleLedger_def ledgerFits_def applyLedger_def batchOk_def batchKeys_def applyBatch_def)

subsection \<open>Merging\<close>

text \<open>
  C23: \<open>Bucket::merge\<close> computes exactly the reference: on well-formed buckets (sorted by key, META first,
  INIT only from protocol 11 on) it throws if and only if the version exceeds the maximum, shadows are
  given from protocol 12 on, or an INIT entry meets an older entry that is not dead; otherwise it gives
  the bucket of the merged version with the entries zipped by the table of the code, without those that
  are shadowed and, at the oldest level, without tombstones.
\<close>

theorem merge_reference:
  assumes "bodyOk vo xs" "bodyOk vn ys" "\<forall>(w, S)\<in>set Ws. bodyOk w S" "\<forall>n. \<not> isShutdown n"
  shows "merge isShutdown maxVersion (bucketOf vo xs) (bucketOf vn ys) (shadowBuckets Ws) keepDead =
         mergeReference maxVersion (vo, xs) (vn, ys) Ws keepDead"
  by (rule merge_eq_reference [OF assms])

theorem merge_reference_witness:
  "bodyOk 11 exampleOld \<and> bodyOk 11 exampleNew \<and> bodyOk 11 exampleShadow \<and>
   merge noShutdown 11 (bucketOf 11 exampleOld) (bucketOf 11 exampleNew) (shadowBuckets [(11, exampleShadow)]) True =
   Inr [METAENTRY 11, LIVEENTRY (exampleAccount 2 20), LIVEENTRY (exampleAccount 4 40)]"
proof -
  have ok: "bodyOk 11 exampleOld" "bodyOk 11 exampleNew" "bodyOk 11 exampleShadow"
    by (simp_all add: example_simps)
  have "merge noShutdown 11 (bucketOf 11 exampleOld) (bucketOf 11 exampleNew) (shadowBuckets [(11, exampleShadow)]) True =
      mergeReference 11 (11, exampleOld) (11, exampleNew) [(11, exampleShadow)] True"
    by (rule merge_reference) (simp_all add: ok noShutdown_def)
  then show ?thesis
    using ok by (simp add: example_simps mergeReference_def compatible_def kept_def keepPut_def shadowKeys_def bucketOf_def Let_def)
qed

text \<open>
  C22: A merged bucket acts as the old bucket followed by the new one. If the INIT entries of the inputs
  are only written where there is no entry, the merge does not throw, its result is a well-formed bucket
  whose INIT entries are again only written where there is no entry, and applying it to the older state
  gives, at every key that is in no shadow, what applying both inputs gives. At the oldest level, where
  tombstones are dropped, this holds as there is no older state.
\<close>

theorem merge_correct:
  assumes "bodyOk vo xs" "bodyOk vn ys" "\<forall>(w, S)\<in>set Ws. bodyOk w S" "\<forall>n. \<not> isShutdown n"
    and "v = mergeVersion vo vn (map fst Ws)" "v \<le> maxVersion" "v < 12 \<or> Ws = []"
    and "initsFresh xs m" "initsFresh ys (applyBucket xs m)" "keepDead \<or> m = Map.empty"
  shows "\<exists>es. merge isShutdown maxVersion (bucketOf vo xs) (bucketOf vn ys) (shadowBuckets Ws) keepDead = Inr (bucketOf v es) \<and>
           bodyOk v es \<and> initsFresh es m \<and>
           (\<forall>k. k \<notin> shadowKeys (map snd Ws) \<longrightarrow> applyBucket es m k = applyBucket ys (applyBucket xs m) k)"
proof -
  let ?es = "kept (11 \<le> v) keepDead (map snd Ws) (mergePuts xs ys)"
  have ok: "bodyOk v xs" "bodyOk v ys"
    using bodyOk_version assms(1,2,5) mergeVersion_ge [of vo vn "map fst Ws"] by auto
  have "compatible xs ys" by (rule fresh_compatible [OF ok assms(9)])
  then have "merge isShutdown maxVersion (bucketOf vo xs) (bucketOf vn ys) (shadowBuckets Ws) keepDead = Inr (bucketOf v ?es)"
    using merge_eq_reference [OF assms(1-4), of maxVersion keepDead] assms(5-7) by (auto simp: mergeReference_def Let_def)
  moreover have "bodyOk v ?es" by (intro kept_ok mergePuts_ok ok)
  moreover have "initsFresh ?es m" by (rule merged_body(1) [OF ok assms(8,9) refl])
  moreover have "applyBucket ?es m k = applyBucket ys (applyBucket xs m) k" if "k \<notin> shadowKeys (map snd Ws)" for k
    using merged_body(2) [OF ok assms(8,9) refl that] assms(10) by auto
  ultimately show ?thesis by blast
qed

theorem merge_correct_witness:
  "initsFresh exampleOld exampleState \<and> initsFresh exampleNew (applyBucket exampleOld exampleState) \<and>
   (\<exists>es. merge noShutdown 11 (bucketOf 11 exampleOld) (bucketOf 11 exampleNew) (shadowBuckets [(11, exampleShadow)]) True =
        Inr (bucketOf 11 es) \<and> bodyOk 11 es \<and> initsFresh es exampleState \<and>
        (\<forall>k. k \<notin> shadowKeys [exampleShadow] \<longrightarrow>
           applyBucket es exampleState k = applyBucket exampleNew (applyBucket exampleOld exampleState) k))"
proof -
  have init: "initsFresh exampleOld exampleState" "initsFresh exampleNew (applyBucket exampleOld exampleState)"
    by (simp_all add: example_simps)
  have "bodyOk 11 exampleOld" "bodyOk 11 exampleNew" "\<forall>(w, S)\<in>set [(11, exampleShadow)]. bodyOk w S"
    "\<forall>n. \<not> noShutdown n" "11 = mergeVersion 11 11 (map fst [(11, exampleShadow)])"
    by (simp_all add: example_simps noShutdown_def)
  from merge_correct [OF this, of 11 exampleState True] init show ?thesis by simp
qed

text \<open>
  C24: From protocol 11 on a merge never loses the life of an entry, whatever its shadows are: if both
  inputs have INIT exactly for the keys that the older state does not have, so has the result, and after
  it exactly those keys exist that exist after both inputs. Only the contents of shadowed entries are lost.
\<close>

theorem merge_keeps_lifecycle:
  assumes "bodyOk vo xs" "bodyOk vn ys" "\<forall>(w, S)\<in>set Ws. bodyOk w S" "\<forall>n. \<not> isShutdown n"
    and "v = mergeVersion vo vn (map fst Ws)" "v \<le> maxVersion" "11 \<le> v" "v < 12 \<or> Ws = []"
    and "lifecycleOk xs m" "lifecycleOk ys (applyBucket xs m)"
  shows "\<exists>es. merge isShutdown maxVersion (bucketOf vo xs) (bucketOf vn ys) (shadowBuckets Ws) True = Inr (bucketOf v es) \<and>
           lifecycleOk es m \<and> dom (applyBucket es m) = dom (applyBucket ys (applyBucket xs m))"
proof -
  let ?es = "kept True True (map snd Ws) (mergePuts xs ys)"
  have ok: "bodyOk v xs" "bodyOk v ys"
    using bodyOk_version assms(1,2,5) mergeVersion_ge [of vo vn "map fst Ws"] by auto
  have "compatible xs ys" by (rule fresh_compatible [OF ok lifecycle_fresh [OF assms(10)]])
  then have "merge isShutdown maxVersion (bucketOf vo xs) (bucketOf vn ys) (shadowBuckets Ws) True = Inr (bucketOf v ?es)"
    using merge_eq_reference [OF assms(1-4), of maxVersion True] assms(5-8) by (auto simp: mergeReference_def Let_def)
  then show ?thesis using merged_lifecycle [OF ok assms(9,10) refl] by blast
qed

theorem merge_keeps_lifecycle_witness:
  "lifecycleOk exampleOld exampleState \<and> lifecycleOk exampleNew (applyBucket exampleOld exampleState) \<and>
   (\<exists>es. merge noShutdown 11 (bucketOf 11 exampleOld) (bucketOf 11 exampleNew) (shadowBuckets [(11, exampleShadow)]) True =
        Inr (bucketOf 11 es) \<and> lifecycleOk es exampleState \<and>
        dom (applyBucket es exampleState) = dom (applyBucket exampleNew (applyBucket exampleOld exampleState)))"
proof -
  have life: "lifecycleOk exampleOld exampleState" "lifecycleOk exampleNew (applyBucket exampleOld exampleState)"
    by (simp_all add: example_simps)
  have "bodyOk 11 exampleOld" "bodyOk 11 exampleNew" "\<forall>(w, S)\<in>set [(11, exampleShadow)]. bodyOk w S"
    "\<forall>n. \<not> noShutdown n" "11 = mergeVersion 11 11 (map fst [(11, exampleShadow)])"
    by (simp_all add: example_simps noShutdown_def)
  from merge_keeps_lifecycle [OF this, of 11 exampleState] life show ?thesis by simp
qed

subsection \<open>The changes of a ledger\<close>

text \<open>
  C25: \<open>Bucket::fresh\<close> writes the changes of a ledger: if every key changes once, the bucket is well-formed
  and applying it to any state makes the changes; otherwise the assertion on adjacent keys fails.
\<close>

theorem fresh_correct:
  "if distinct (batchKeys created updated deleted)
   then \<exists>es. fresh v created updated deleted = Inr (bucketOf v es) \<and> bodyOk v es \<and>
          (\<forall>m. applyBucket es m = applyBatch created updated deleted m)
   else fresh v created updated deleted = Inl DuplicateKeys"
  using batch_body [of created updated deleted v] batch_applied [of created updated deleted v]
  by (auto simp: fresh_eq)

subsection \<open>The bucket list\<close>

text \<open>
  C20: The bucket list stands for the ledger. Starting from the empty list, any sequence of ledgers whose
  protocol does not go back and is at least 12, and whose changes fit the state (every key changes once,
  what is created did not exist), is taken in without an error, whichever background merges are complete
  when; and the levels, read from the oldest to the newest bucket, give exactly the state of the ledger.
\<close>

theorem bucket_list_represents_ledger:
  assumes "enabledAll ledgerFits applyLedger ledgers (0, 0, Map.empty)"
  shows "\<exists>s. foldE (transferLedgerEntriesToBucketList noShutdown) ledgers newLedgers = Inr s \<and>
             viewOf s = fold applyLedger ledgers (0, 0, Map.empty)"
  using bucket_list.history_refines [OF listOk_new, of ledgers] assms by (simp add: viewOf_new) blast

theorem bucket_list_represents_ledger_witness:
  "enabledAll ledgerFits applyLedger exampleHistory (0, 0, Map.empty) \<and>
   (\<exists>s. foldE (transferLedgerEntriesToBucketList noShutdown) exampleHistory newLedgers = Inr s \<and>
        viewOf s = fold applyLedger exampleHistory (0, 0, Map.empty))"
  using bucket_list_represents_ledger [OF example_fits] example_fits by blast

text \<open>
  C21: A restart is not noticed. If a node that has closed some ledgers forgets its pending merges and
  calls \<open>restartMerges\<close>, which starts them again from the buckets of the levels, this succeeds, and all
  ledgers that it closes afterwards leave it with the same buckets as without the restart.
\<close>

theorem restart_is_transparent:
  assumes "enabledAll ledgerFits applyLedger (before @ after) (0, 0, Map.empty)"
  shows "\<exists>ledger p levels levels' s t.
     foldE (transferLedgerEntriesToBucketList noShutdown) before newLedgers = Inr (ledger, p, levels) \<and>
     restartMerges getBucketByHash maxVersion ledger (map forgetMerge levels) = Inr levels' \<and>
     foldE (transferLedgerEntriesToBucketList noShutdown) after (ledger, p, levels) = Inr s \<and>
     foldE (transferLedgerEntriesToBucketList noShutdown) after (ledger, p, levels') = Inr t \<and> alikeLists s t"
proof -
  have fits: "enabledAll ledgerFits applyLedger before (viewOf newLedgers)"
    "enabledAll ledgerFits applyLedger after (fold applyLedger before (viewOf newLedgers))"
    using assms by (simp_all add: enabledAll_append viewOf_new)
  obtain ledger p levels where s: "foldE (transferLedgerEntriesToBucketList noShutdown) before newLedgers = Inr (ledger, p, levels)"
    "listOk noShutdown (ledger, p, levels)" "viewOf (ledger, p, levels) = fold applyLedger before (viewOf newLedgers)"
    using bucket_list.history_refines [OF listOk_new fits(1)] by (metis prod_cases3)
  then obtain f where f: "levels = listOf f" "listInv noShutdown ledger p f" by (auto simp: listOk_def)
  obtain g where g: "restartMerges getBucketByHash maxVersion ledger (map forgetMerge (listOf f)) = Inr (listOf g)"
    "listInv noShutdown ledger p g" "sameBuckets f g"
    using restartMerges_at [OF f(2)] by (auto simp: noShutdown_def)
  have "listOk noShutdown (ledger, p, listOf g)" using g(2) by (auto simp: listOk_def)
  moreover have "alikeLists (ledger, p, levels) (ledger, p, listOf g)"
    unfolding f(1) by (rule sameBuckets_alike [OF g(3)])
  ultimately obtain s' t' where
    "foldE (transferLedgerEntriesToBucketList noShutdown) after (ledger, p, levels) = Inr s'"
    "foldE (transferLedgerEntriesToBucketList noShutdown) after (ledger, p, listOf g) = Inr t'" "alikeLists s' t'"
    using bucket_list.history_alike [OF s(2)] fits(2) s(3) by metis
  then show ?thesis using s(1) g(1) f(1) by blast
qed

theorem restart_is_transparent_witness:
  "enabledAll ledgerFits applyLedger ([] @ exampleHistory) (0, 0, Map.empty) \<and>
   (\<exists>ledger p levels levels' s t.
     foldE (transferLedgerEntriesToBucketList noShutdown) [] newLedgers = Inr (ledger, p, levels) \<and>
     restartMerges Map.empty 19 ledger (map forgetMerge levels) = Inr levels' \<and>
     foldE (transferLedgerEntriesToBucketList noShutdown) exampleHistory (ledger, p, levels) = Inr s \<and>
     foldE (transferLedgerEntriesToBucketList noShutdown) exampleHistory (ledger, p, levels') = Inr t \<and> alikeLists s t)"
proof -
  have fits: "enabledAll ledgerFits applyLedger ([] @ exampleHistory) (0, 0, Map.empty)"
    using example_fits by simp
  show ?thesis using fits restart_is_transparent [OF fits, of Map.empty 19] by blast
qed



end
