(* ===== verification/Spec2Isabelle.thy ===== *)
theory Spec2Isabelle
  imports QuorumReports SCPProperties ExchangeProperties BucketProperties
begin

text \<open>
  Verification of hcnet-core, the node software of a federated-agreement network. The development
  covers the consensus protocol of the node (\<open>src/src/scp\<close>), the bucket list in which it keeps the
  ledger (\<open>src/src/bucket\<close>), the exchange of offers (\<open>src/src/transactions/OfferExchange.cpp\<close>), and
  the 128-bit arithmetic under it (\<open>src/src/util/numeric.cpp\<close>).

  \<^bold>\<open>The program.\<close> For every ledger (a slot) the nodes of the network agree on a value. A node knows
  its own quorum set and learns those of the other nodes from the hashes in their statements. For
  each slot it runs the nomination protocol, which produces a candidate value, and the ballot
  protocol, which commits one value and externalizes it. Both keep the latest statement of every
  node and decide by federated voting on them: a node accepts what a blocking set accepted or a
  quorum voted for or accepted, and confirms what a quorum accepted. The class \<open>SCP\<close> holds the table
  of slots and dispatches envelopes; the class \<open>SCPDriver\<close> is the interface to the rest of the node.

  Closing a ledger changes entries: accounts, trust lines, offers and others, each with a key. The
  changes of a ledger form a batch, which goes into the bucket list: eleven levels of two sorted
  files, of which each level holds the changes of four times as many ledgers as the one above it.
  A level that is full spills into the next one by a merge that runs in the background and is
  committed at a later ledger that is fixed in advance. The list as a whole represents the ledger.

  \<^bold>\<open>The theories.\<close>
  \<^item> \<open>Prelude\<close>: the types of machine words, results with errors (\<open>bindE\<close>), a sorted list for
    \<open>std::set\<close>, a sorted association list for \<open>std::map\<close>.
  \<^item> \<open>Numeric\<close>: \<open>util/numeric.cpp\<close>. Words of 64 and 128 bits with their wrap-around. The division
    and the square root are proved exact, or to fail exactly when the result does not fit.
  \<^item> \<open>SCPTypes\<close>: the XDR types of \<open>Hcnet-SCP.x\<close>, and ballots with their order.
  \<^item> \<open>LocalNode\<close>, \<open>QuorumReports\<close>: \<open>LocalNode.cpp\<close>. Slices, blocking sets, quorums, weights and the
    closest blocking set, compared with the recursive definition of a slice (\<open>slice_ok\<close>).
  \<^item> \<open>QuorumSetUtils\<close>: \<open>QuorumSetUtils.cpp\<close>. Sanity and normal form of quorum sets.
  \<^item> \<open>SCPState\<close>: the records of a slot (\<open>BallotProtocol.h\<close>, \<open>NominationProtocol.h\<close>, \<open>Slot.h\<close>), the
    driver (\<open>SCPContext\<close>), timeouts, leader hashes and federated voting (\<open>Slot.cpp\<close>).
  \<^item> \<open>BallotProtocol\<close>: \<open>BallotProtocol.cpp\<close>, one definition per method.
  \<^item> \<open>BallotInvariant\<close>, \<open>BallotSteps\<close>: the invariant of a slot, the order in which it advances, and that
    every operation of the ballot protocol keeps the one and follows the other.
  \<^item> \<open>BallotTermination\<close>: the loops end and the limit of the recursion is never exhausted silently.
  \<^item> \<open>BallotVoting\<close>: what votes stand behind the steps. \<open>BallotRestore\<close>: restarting from a statement.
    \<open>BallotFrame\<close>: the ballot protocol does not touch the nomination protocol's state.
  \<^item> \<open>NominationProtocol\<close>, \<open>NominationSteps\<close>, \<open>NominationTermination\<close>, \<open>NominationLeaders\<close>: the same for
    \<open>NominationProtocol.cpp\<close>, with the election of leaders.
  \<^item> \<open>Slot\<close>, \<open>SCP\<close>: \<open>Slot.cpp\<close> and \<open>SCP.cpp\<close>, and the histories of calls of a slot.
  \<^item> \<open>BallotProperties\<close>, \<open>NominationProperties\<close>, \<open>SCPProperties\<close>: the properties, with examples at which
    their hypotheses hold.
  \<^item> \<open>LedgerEntries\<close>: the XDR types of \<open>Hcnet-ledger-entries.x\<close>, the key of an entry
    (\<open>LedgerEntryKey\<close>), and the order of keys (\<open>LedgerCmp.h\<close>), which is proved linear.
  \<^item> \<open>OfferExchange\<close>, \<open>ExchangeProperties\<close>: the arithmetic of crossing two offers at a price
    (\<open>exchangeV2\<close>, \<open>exchangeV3\<close>, \<open>exchangeV10\<close>, the price-error thresholds, \<open>adjustOffer\<close>) and of
    exchanging with a pool, with the bounds and the direction of the rounding.
  \<^item> \<open>Bucket\<close>: \<open>Bucket.cpp\<close> with the iterators it reads and writes files with. A bucket is the list of
    the entries of its file. \<open>fresh\<close> makes a bucket of a batch, \<open>merge\<close> merges two under shadows.
  \<^item> \<open>BucketMerge\<close>: the merge loop writes the list given by a recursive definition (\<open>mergeReference\<close>),
    and what that list means: the newer bucket applied after the older one (\<open>applyBucket\<close>).
    \<open>BucketFresh\<close>: the bucket of a batch is sorted, legal and has the entries of the batch.
  \<^item> \<open>BucketList\<close>: \<open>BucketList.cpp\<close> and the states of \<open>FutureBucket.cpp\<close>: when a level spills, the
    snapshots, the commit and the preparation of a merge, a batch added, a restart.
  \<^item> \<open>BucketLevels\<close>: the arithmetic of the schedule. \<open>BucketListState\<close>, \<open>BucketListInvariant\<close>: the state
    of the levels between ledgers, and that adding a batch keeps it. \<open>BucketHistory\<close>: sequences of
    batches, and the locales \<open>step_refinement\<close> (a list of calls on a concrete state implements the
    calls on an abstract one) and \<open>step_bisimulation\<close> (two concrete states cannot be told apart), both
    interpreted with the calls of the bucket list.
  \<^item> \<open>BucketProperties\<close>: the properties of buckets and of the list.

  \<^bold>\<open>How the code is modelled.\<close> A method of a slot is a function from the slot to an error or a result
  and the new slot (\<open>'a action\<close>). The errors are those of the code: a failed \<open>dbgAssert\<close>, which is
  compiled in, \<open>dbgAbort\<close>, a null pointer, \<open>BadState\<close> and \<open>TooManyTransitions\<close> for the two
  \<open>std::runtime_error\<close>s, and two of the model, \<open>OutOfFuel\<close> and \<open>Diverges\<close>, which are proved not to
  occur. Node identifiers and hashes are words of 256 bits, counters are words of 32 bits, values are
  lists of bytes in lexicographic order. \<open>ValueWrapper\<close> and \<open>SCPEnvelopeWrapper\<close> are the values they
  wrap. The driver is a record of functions, arbitrary in every theorem; its notifications (timers,
  emitted envelopes, externalized values) are recorded in the list \<open>mEvents\<close>.

  The methods call one another in a cycle: emitting a statement processes it as if it had been
  received, which advances the slot, which may emit again. A method takes the function that
  processes an envelope as a parameter, and the cycle is closed twice: \<open>advanceSlot\<close> with as many
  levels as the code's own limit of 50, so that no behaviour of the ballot protocol is cut off, and
  \<open>nominationProcess\<close> with a bound on nested nominations, which the code does not have;
  \<open>processing_terminates\<close> gives a bound that is always enough. The contracts of the parameter are
  the locales \<open>ballot_callback\<close>, \<open>ballot_callback_total\<close>, \<open>ballot_frame\<close> and \<open>nomination_callback\<close>;
  each is interpreted with the closed cycle. The two loops without a bound, of \<open>advanceSlot\<close> and of
  \<open>updateRoundLeaders\<close>, are \<open>while_option\<close>s: a loop that does not end is the error \<open>Diverges\<close>.

  The bucket list is a list of levels, and a ledger is a map from keys to entries. The background
  merge of a level is its inputs until it is resolved, so that its result does not depend on when
  it runs. What the list does not compute itself is a parameter: whether the node shuts down
  (\<open>isShutdown\<close>), whether a merge has finished (\<open>ready\<close>), the bucket with a given hash
  (\<open>getBucketByHash\<close>). The merge is modelled for every protocol version, with the shadows of the
  versions before 12; the theorems on the list are about the versions from 12 on.

  \<^bold>\<open>What is shown.\<close> Safety of a slot along every history of calls: a commit is never revoked, at most
  one value is externalized, it has a quorum behind it, the sent statements ascend, the invariants
  hold between calls. Termination of the processing of an envelope. Correctness of the computations
  on quorum sets, of federated voting, of the search for the interval of a commit, of the counter to
  bump to, of the order of statements, of the leaders of a round, of the restart. Independence of
  the slots in the table. The exchange of offers favours the offer that was there first, stays within
  both offers and within the price error, and fails only where the code says so. A merge of buckets
  equals its reference, means what the two buckets mean one after the other, and keeps the rule
  that an entry is initialized, changed and deleted in this order. Along every sequence of batches
  the bucket list represents the ledger that the batches produce, at every ledger sequence; levels
  spill when the schedule says; a restart from the stored state cannot be noticed. Three theorems record behaviour that the code does not mean to have: a
  statement that passes the checks and aborts the node, the wrap-around of the ballot counter, and
  a report of a delayed node that has externalized.

  \<^bold>\<open>What is not modelled.\<close> Logging, JSON reports other than the counts of the quorum summary, metrics,
  and the binary encoding of XDR. SHA-256 and signatures are parameters. The round number of the
  nomination is an unbounded integer; in the code it has 32 bits and counts timeouts. Of buckets,
  the files on disk with their hashes and garbage collection (\<open>BucketManagerImpl.cpp\<close>), the threads
  of the merges, and the replay of buckets into the database (\<open>BucketApplicator.cpp\<close>). Of
  transactions, everything but the arithmetic of offers. The rest of the node (database, overlay,
  history archives, catchup, main program) is I/O and the concurrency of the event loop; the
  modelled parts reach it through their parameters.
\<close>

end
